(* ===== verification/Prelude.thy ===== *)
theory Prelude
  imports "HOL-Library.AList"
begin

text \<open>
  Shared vocabulary of the development: Python dictionaries as association lists in insertion
  order, results that may raise, the clock unit, the \<^theory_text>\<open>named_theorems\<close> collections, and the
  interface locales that several components implement.
\<close>

named_theorems dict_simps \<open>lookups after dictionary updates\<close>
named_theorems frame_simps \<open>fields an operation leaves alone\<close>


section \<open>Dictionaries\<close>

text \<open>
  A Python \<^verbatim>\<open>dict\<close> keeps insertion order: assigning to a present key replaces the value in
  place, assigning to a new key appends. \<^const>\<open>AList.update\<close> does the same, \<^const>\<open>map_of\<close>
  is \<^verbatim>\<open>d.get(k)\<close> and \<^const>\<open>AList.delete\<close> is \<^verbatim>\<open>d.pop(k, None)\<close>.
\<close>

type_synonym 'v dict = "(string \<times> 'v) list"

abbreviation dget :: "'v dict \<Rightarrow> string \<Rightarrow> 'v option" where
  "dget d k \<equiv> map_of d k"

abbreviation dset :: "string \<Rightarrow> 'v \<Rightarrow> 'v dict \<Rightarrow> 'v dict" where
  "dset \<equiv> AList.update"

abbreviation dpop :: "string \<Rightarrow> 'v dict \<Rightarrow> 'v dict" where
  "dpop \<equiv> AList.delete"

abbreviation dkeys :: "'v dict \<Rightarrow> string list" where
  "dkeys d \<equiv> map fst d"

definition dget_or :: "'v dict \<Rightarrow> string \<Rightarrow> 'v \<Rightarrow> 'v" where
  "dget_or d k v = (case dget d k of None \<Rightarrow> v | Some w \<Rightarrow> w)"

lemma dget_dset [simp, dict_simps]:
  "dget (dset k v d) j = (if j = k then Some v else dget d j)"
  by (simp add: update_conv')

lemma dget_dpop [simp, dict_simps]:
  "dget (dpop k d) j = (if j = k then None else dget d j)"
  by (simp add: delete_conv')

lemma dget_or_dset [simp, dict_simps]:
  "dget_or (dset k v d) j w = (if j = k then v else dget_or d j w)"
  by (simp add: dget_or_def)

lemma dget_or_dpop [simp, dict_simps]:
  "dget_or (dpop k d) j w = (if j = k then w else dget_or d j w)"
  by (simp add: dget_or_def)

lemma distinct_dset [intro, simp]: "distinct (dkeys d) \<Longrightarrow> distinct (dkeys (dset k v d))"
  by (rule distinct_update)

lemma distinct_dpop [intro, simp]: "distinct (dkeys d) \<Longrightarrow> distinct (dkeys (dpop k d))"
  by (rule distinct_delete)

lemma dget_filter:
  assumes "distinct (dkeys d)"
  shows "dget (filter P d) k =
    (case dget d k of None \<Rightarrow> None | Some v \<Rightarrow> if P (k, v) then Some v else None)"
  using assms
proof (induction d)
  case (Cons kv d)
  obtain k' v' where kv: "kv = (k', v')" by (cases kv)
  have "k' \<notin> fst ` set d" using Cons.prems kv by simp
  then have "dget d k' = None" and "dget (filter P d) k' = None"
    by (auto simp: map_of_eq_None_iff)
  then show ?case using Cons kv by auto
qed simp

lemma distinct_dict_filter [intro]: "distinct (dkeys d) \<Longrightarrow> distinct (dkeys (filter P d))"
  by (rule distinct_map_filter)


section \<open>Results\<close>

text \<open>
  An operation of the source that may raise returns \<open>'e + 'a\<close>: \<open>Inl\<close> carries the exception.
\<close>

definition bind_result :: "'e + 'a \<Rightarrow> ('a \<Rightarrow> 'e + 'b) \<Rightarrow> 'e + 'b" where
  "bind_result r f = (case r of Inl e \<Rightarrow> Inl e | Inr x \<Rightarrow> f x)"

lemma bind_result_simps [simp]:
  "bind_result (Inl e) f = Inl e"
  "bind_result (Inr x) f = f x"
  by (simp_all add: bind_result_def)

lemma bind_result_Inr: "bind_result r f = Inr y \<longleftrightarrow> (\<exists>x. r = Inr x \<and> f x = Inr y)"
  by (cases r) simp_all


section \<open>Time\<close>

text \<open>
  Clock readings (\<^verbatim>\<open>time.monotonic()\<close>, \<^verbatim>\<open>utcnow()\<close>) are integers in microseconds, the
  resolution of \<^verbatim>\<open>datetime\<close>; a threshold of \<open>n\<close> seconds is \<open>n * secs\<close>.
\<close>

type_synonym time = int

definition secs :: int where
  "secs = 1000000"

lemma secs_pos [simp]: "0 < secs" "0 \<le> secs" "secs \<noteq> 0"
  by (simp_all add: secs_def)


section \<open>Reachable states\<close>

text \<open>
  Components whose calls interleave are step relations; \<open>reach\<close> is the set of states a run from
  an initial state can be in, and an invariant is proved once per step.
\<close>

inductive reach :: "('s \<Rightarrow> bool) \<Rightarrow> ('s \<Rightarrow> 's \<Rightarrow> bool) \<Rightarrow> 's \<Rightarrow> bool" for init step where
  reach_init: "init s \<Longrightarrow> reach init step s"
| reach_step: "reach init step s \<Longrightarrow> step s t \<Longrightarrow> reach init step t"

lemma reach_invariant [consumes 1, case_names init step]:
  assumes "reach init step s"
    and "\<And>s. init s \<Longrightarrow> I s"
    and "\<And>s t. reach init step s \<Longrightarrow> I s \<Longrightarrow> step s t \<Longrightarrow> I t"
  shows "I s"
  using assms(1) by induction (auto intro: assms(2,3))

end
