(* ===== verification/Circuit_Breaker.thy ===== *)
theory Circuit_Breaker
  imports Prelude
begin

text \<open>
  \<^verbatim>\<open>AINDY/kernel/circuit_breaker.py\<close>: the breaker in front of every LLM provider. The record
  \<open>breaker\<close> is the object, the definitions are its methods in the order of the class, and
  \<open>cb_step\<close> interleaves any number of callers (each method holds the lock, the guarded function
  runs outside it).
\<close>

datatype circuit_state = CLOSED | OPEN | HALF_OPEN

datatype circuit_error = CircuitOpen_rejecting | CircuitOpen_probe_in_flight

record breaker =
  failure_threshold :: int
  recovery_timeout_secs :: int
  cb_state :: circuit_state
  cb_failure_count :: int
  cb_opened_at :: "time option"
  half_open_in_flight :: bool

definition new_breaker :: "int \<Rightarrow> int \<Rightarrow> breaker" where
  "new_breaker threshold timeout =
     \<lparr>failure_threshold = threshold, recovery_timeout_secs = timeout, cb_state = CLOSED,
      cb_failure_count = 0, cb_opened_at = None, half_open_in_flight = False\<rparr>"

definition openai_breaker :: breaker where
  "openai_breaker = new_breaker 3 60"

definition deepseek_breaker :: breaker where
  "deepseek_breaker = new_breaker 3 60"

definition transition_to :: "circuit_state \<Rightarrow> time \<Rightarrow> breaker \<Rightarrow> breaker" where
  "transition_to new_state now b =
     (let b1 = b\<lparr>cb_state := new_state\<rparr> in
      case new_state of
        CLOSED \<Rightarrow> b1\<lparr>cb_failure_count := 0, cb_opened_at := None, half_open_in_flight := False\<rparr>
      | OPEN \<Rightarrow> b1\<lparr>cb_opened_at := Some now, half_open_in_flight := False\<rparr>
      | HALF_OPEN \<Rightarrow> b1)"

text \<open>\<open>enter_call\<close> returns the phase of the admitted call, or the \<^verbatim>\<open>CircuitOpenError\<close>.\<close>

definition enter_call :: "time \<Rightarrow> breaker \<Rightarrow> (circuit_error + string) \<times> breaker" where
  "enter_call now b =
     (if cb_state b = CLOSED then (Inr ''closed'', b)
      else if cb_state b = OPEN then
        (case cb_opened_at b of
           Some opened \<Rightarrow>
             if recovery_timeout_secs b * secs \<le> now - opened
             then (Inr ''half_open'', (transition_to HALF_OPEN now b)\<lparr>half_open_in_flight := True\<rparr>)
             else (Inl CircuitOpen_rejecting, b)
         | None \<Rightarrow> (Inl CircuitOpen_rejecting, b))
      else if half_open_in_flight b then (Inl CircuitOpen_probe_in_flight, b)
      else (Inr ''half_open'', b\<lparr>half_open_in_flight := True\<rparr>))"

definition record_success :: "string \<Rightarrow> time \<Rightarrow> breaker \<Rightarrow> breaker" where
  "record_success phase now b =
     (if phase = ''half_open'' \<or> cb_state b \<noteq> CLOSED then transition_to CLOSED now b
      else b\<lparr>cb_failure_count := 0\<rparr>)"

definition record_failure :: "string \<Rightarrow> time \<Rightarrow> breaker \<Rightarrow> breaker" where
  "record_failure phase now b =
     (if phase = ''half_open'' \<or> cb_state b = HALF_OPEN
      then transition_to OPEN now (b\<lparr>cb_failure_count := failure_threshold b\<rparr>)
      else
        let b1 = b\<lparr>cb_failure_count := cb_failure_count b + 1\<rparr> in
        if failure_threshold b1 \<le> cb_failure_count b1 then transition_to OPEN now b1 else b1)"

text \<open>
  \<^verbatim>\<open>call\<close> and \<^verbatim>\<open>async_call\<close> with nobody else on the breaker: admitted at \<open>t1\<close>, the function
  ends at \<open>t2\<close>. A \<^verbatim>\<open>BaseException\<close> that is not an \<^verbatim>\<open>Exception\<close> (a cancelled task, an
  interrupt) passes the \<^verbatim>\<open>except\<close> clause.
\<close>

datatype ('a, 'e) ended = Returned 'a | Raised 'e | Base_raised 'e

datatype ('a, 'e) call_result =
    Call_value 'a
  | Call_error 'e
  | Call_rejected circuit_error

definition call_breaker ::
  "('a, 'e) ended \<Rightarrow> time \<Rightarrow> time \<Rightarrow> breaker \<Rightarrow> ('a, 'e) call_result \<times> breaker" where
  "call_breaker func t1 t2 b =
     (case enter_call t1 b of
        (Inl err, b1) \<Rightarrow> (Call_rejected err, b1)
      | (Inr phase, b1) \<Rightarrow>
          (case func of
             Returned v \<Rightarrow> (Call_value v, record_success phase t2 b1)
           | Raised e \<Rightarrow> (Call_error e, record_failure phase t2 b1)
           | Base_raised e \<Rightarrow> (Call_error e, b1)))"

definition reset_breaker :: "time \<Rightarrow> breaker \<Rightarrow> breaker" where
  "reset_breaker now b = transition_to CLOSED now b"


section \<open>Interleaved callers\<close>

record cb_sys =
  brk :: breaker
  in_flight :: "string list"
  cb_clock :: time

definition cb_init :: "int \<Rightarrow> int \<Rightarrow> cb_sys \<Rightarrow> bool" where
  "cb_init threshold timeout s \<longleftrightarrow> brk s = new_breaker threshold timeout \<and> in_flight s = []"

inductive cb_step :: "cb_sys \<Rightarrow> cb_sys \<Rightarrow> bool" where
  cb_tick: "0 \<le> d \<Longrightarrow> cb_step s (s\<lparr>cb_clock := cb_clock s + d\<rparr>)"
| cb_enter: "enter_call (cb_clock s) (brk s) = (Inr phase, b) \<Longrightarrow>
    cb_step s (s\<lparr>brk := b, in_flight := phase # in_flight s\<rparr>)"
| cb_reject: "enter_call (cb_clock s) (brk s) = (Inl err, b) \<Longrightarrow> cb_step s (s\<lparr>brk := b\<rparr>)"
| cb_success: "phase \<in> set (in_flight s) \<Longrightarrow>
    cb_step s (s\<lparr>brk := record_success phase (cb_clock s) (brk s),
                 in_flight := remove1 phase (in_flight s)\<rparr>)"
| cb_failure: "phase \<in> set (in_flight s) \<Longrightarrow>
    cb_step s (s\<lparr>brk := record_failure phase (cb_clock s) (brk s),
                 in_flight := remove1 phase (in_flight s)\<rparr>)"
| cb_abandon: "phase \<in> set (in_flight s) \<Longrightarrow>
    cb_step s (s\<lparr>in_flight := remove1 phase (in_flight s)\<rparr>)"
| cb_reset: "cb_step s (s\<lparr>brk := reset_breaker (cb_clock s) (brk s)\<rparr>)"

lemmas cb_defs =
  transition_to_def enter_call_def record_success_def record_failure_def reset_breaker_def Let_def

lemma breaker_config [frame_simps]:
  "failure_threshold (transition_to st now b) = failure_threshold b"
  "recovery_timeout_secs (transition_to st now b) = recovery_timeout_secs b"
  "failure_threshold (record_success phase now b) = failure_threshold b"
  "failure_threshold (record_failure phase now b) = failure_threshold b"
  "failure_threshold (reset_breaker now b) = failure_threshold b"
  "enter_call now b = (r, b') \<Longrightarrow> failure_threshold b' = failure_threshold b"
  by (auto simp: cb_defs split: circuit_state.splits if_splits option.splits)

text \<open>What the fields say about each other in every state the lock is released in.\<close>

definition breaker_ok :: "breaker \<Rightarrow> bool" where
  "breaker_ok b \<longleftrightarrow>
     (cb_state b = CLOSED \<longrightarrow> cb_opened_at b = None \<and> \<not> half_open_in_flight b
        \<and> 0 \<le> cb_failure_count b \<and> cb_failure_count b < failure_threshold b) \<and>
     (cb_state b = OPEN \<longrightarrow> cb_opened_at b \<noteq> None \<and> \<not> half_open_in_flight b) \<and>
     (cb_state b = HALF_OPEN \<longrightarrow> cb_opened_at b \<noteq> None \<and> half_open_in_flight b) \<and>
     (cb_state b \<noteq> CLOSED \<longrightarrow> failure_threshold b \<le> cb_failure_count b)"

lemma breaker_ok_steps:
  assumes "breaker_ok b" "0 < failure_threshold b"
  shows "enter_call now b = (r, b') \<Longrightarrow> breaker_ok b'"
    and "breaker_ok (record_success phase now b)"
    and "breaker_ok (record_failure phase now b)"
    and "breaker_ok (reset_breaker now b)"
  using assms
  by (cases "cb_state b";
      auto simp: breaker_ok_def cb_defs split: if_splits option.splits)+

lemma reach_breaker_ok:
  assumes "reach (cb_init threshold timeout) cb_step s" "0 < threshold"
  shows "breaker_ok (brk s) \<and> failure_threshold (brk s) = threshold"
  using assms(1)
proof (induction rule: reach_invariant)
  case (init s)
  then show ?case using assms(2) by (simp add: cb_init_def new_breaker_def breaker_ok_def)
next
  case (step s t)
  then show ?case using assms(2)
    by (auto elim!: cb_step.cases simp: frame_simps intro: breaker_ok_steps)
qed


section \<open>Sequences of calls\<close>

definition run_call :: "('a, 'e) ended \<times> time \<times> time \<Rightarrow> breaker \<Rightarrow> breaker" where
  "run_call c b = snd (call_breaker (fst c) (fst (snd c)) (snd (snd c)) b)"

definition failing :: "('a, 'e) ended \<times> time \<times> time \<Rightarrow> bool" where
  "failing c \<longleftrightarrow> (case fst c of Raised _ \<Rightarrow> True | _ \<Rightarrow> False)"

lemma run_call_failing:
  assumes "failing c" "cb_state b = CLOSED"
  shows "run_call c b = record_failure ''closed'' (snd (snd c)) b"
  using assms by (auto simp: failing_def run_call_def call_breaker_def enter_call_def
      split: ended.splits)

lemma failures_below_threshold:
  assumes "list_all failing cs" "int (length cs) < threshold"
  shows "fold run_call cs (new_breaker threshold timeout) =
    (new_breaker threshold timeout)\<lparr>cb_failure_count := int (length cs)\<rparr>"
  using assms
proof (induction cs rule: rev_induct)
  case (snoc c cs)
  let ?b = "(new_breaker threshold timeout)\<lparr>cb_failure_count := int (length cs)\<rparr>"
  have "fold run_call (cs @ [c]) (new_breaker threshold timeout) = run_call c ?b"
    using snoc by simp
  also have "\<dots> = record_failure ''closed'' (snd (snd c)) ?b"
    using snoc.prems by (intro run_call_failing) (simp_all add: new_breaker_def)
  finally show ?case
    using snoc.prems by (simp add: record_failure_def new_breaker_def Let_def)
qed (simp add: new_breaker_def)


section \<open>Properties\<close>

text \<open>
  C17. In every state that any interleaving of callers can reach, the breaker's fields agree: a
  closed breaker has no opening time, no probe and fewer failures than its threshold; an open one
  has an opening time and no probe; a half-open one always has its probe in flight (so the
  branch of \<^verbatim>\<open>_enter_call\<close> that starts a second half-open call is never taken); outside
  \<open>CLOSED\<close> the threshold was reached.
\<close>

theorem breaker_invariant:
  assumes "reach (cb_init threshold timeout) cb_step s" "0 < threshold"
  shows "(cb_state (brk s) = CLOSED \<longrightarrow> cb_opened_at (brk s) = None
           \<and> \<not> half_open_in_flight (brk s) \<and> cb_failure_count (brk s) < threshold)
       \<and> (cb_state (brk s) = OPEN \<longrightarrow> cb_opened_at (brk s) \<noteq> None \<and> \<not> half_open_in_flight (brk s))
       \<and> (cb_state (brk s) = HALF_OPEN \<longrightarrow> half_open_in_flight (brk s))
       \<and> (cb_state (brk s) \<noteq> CLOSED \<longrightarrow> threshold \<le> cb_failure_count (brk s))"
  using reach_breaker_ok [OF assms] by (auto simp: breaker_ok_def)

definition sample_breaker :: cb_sys where
  "sample_breaker = \<lparr>brk = new_breaker 1 60, in_flight = [], cb_clock = 0\<rparr>"

lemma sample_tripped:
  "reach (cb_init 1 60) cb_step
     (sample_breaker\<lparr>brk := record_failure ''closed'' 0 (new_breaker 1 60)\<rparr>)"
proof -
  have r0: "reach (cb_init 1 60) cb_step sample_breaker"
    by (rule reach_init) (simp add: cb_init_def sample_breaker_def)
  have "enter_call (cb_clock sample_breaker) (brk sample_breaker) = (Inr ''closed'', new_breaker 1 60)"
    by (simp add: sample_breaker_def enter_call_def new_breaker_def)
  from reach_step [OF r0, OF cb_enter, OF this]
  have r1: "reach (cb_init 1 60) cb_step (sample_breaker\<lparr>in_flight := [''closed'']\<rparr>)"
    by (simp add: sample_breaker_def)
  have "cb_step (sample_breaker\<lparr>in_flight := [''closed'']\<rparr>)
      (sample_breaker\<lparr>brk := record_failure ''closed'' 0 (new_breaker 1 60)\<rparr>)"
    using cb_failure [of "''closed''" "sample_breaker\<lparr>in_flight := [''closed'']\<rparr>"]
    by (simp add: sample_breaker_def)
  then show ?thesis by (rule reach_step [OF r1])
qed

theorem breaker_invariant_witness:
  "cb_opened_at (record_failure ''closed'' 0 (new_breaker 1 60)) \<noteq> None
   \<and> (1::int) \<le> cb_failure_count (record_failure ''closed'' 0 (new_breaker 1 60))"
  using breaker_invariant [OF sample_tripped]
  by (simp add: sample_breaker_def new_breaker_def record_failure_def transition_to_def)

text \<open>
  A breaker that is open rejects every call until the recovery timeout has passed, without
  running the function and without changing its state; after it, exactly one call is let through as
  a probe, its success closes the breaker with the count at zero, and its failure opens it again
  with the timer restarted.
\<close>

theorem open_breaker_call:
  assumes "cb_state b = OPEN" "cb_opened_at b = Some opened"
  shows "(t1 - opened < recovery_timeout_secs b * secs \<longrightarrow>
            call_breaker func t1 t2 b = (Call_rejected CircuitOpen_rejecting, b))
       \<and> (recovery_timeout_secs b * secs \<le> t1 - opened \<longrightarrow>
            call_breaker (Returned v) t1 t2 b =
              (Call_value v, b\<lparr>cb_state := CLOSED, cb_failure_count := 0, cb_opened_at := None,
                                half_open_in_flight := False\<rparr>)
          \<and> call_breaker (Raised e) t1 t2 b =
              (Call_error e, b\<lparr>cb_failure_count := failure_threshold b, cb_opened_at := Some t2,
                                half_open_in_flight := False\<rparr>)
          \<and> enter_call t (snd (enter_call t1 b)) =
              (Inl CircuitOpen_probe_in_flight, snd (enter_call t1 b)))"
  using assms by (auto simp: call_breaker_def cb_defs)

theorem open_breaker_call_witness:
  "call_breaker (Returned 7) 59 60 (record_failure ''closed'' 0 (new_breaker 1 60)) =
     (Call_rejected CircuitOpen_rejecting :: (nat, nat) call_result,
      record_failure ''closed'' 0 (new_breaker 1 60))"
proof -
  let ?b = "record_failure ''closed'' 0 (new_breaker 1 60)"
  have b: "cb_state ?b = OPEN" "cb_opened_at ?b = Some 0" "recovery_timeout_secs ?b = 60"
    by (simp_all add: record_failure_def new_breaker_def transition_to_def)
  show ?thesis
    using open_breaker_call [OF b(1,2), of 59 "Returned 7" 60] b(3) by (simp add: secs_def)
qed

text \<open>
  Starting from a new breaker, failing calls made one after the other only count up while
  there are fewer of them than the threshold; the one that reaches the threshold opens the
  breaker and stamps it with the time that call failed.
\<close>

theorem threshold_failures_open:
  assumes "list_all failing cs" "cs \<noteq> []" "int (length cs) = threshold"
  shows "(\<forall>n < length cs. fold run_call (take n cs) (new_breaker threshold timeout) =
            (new_breaker threshold timeout)\<lparr>cb_failure_count := int n\<rparr>)
       \<and> fold run_call cs (new_breaker threshold timeout) =
            (new_breaker threshold timeout)\<lparr>cb_state := OPEN, cb_failure_count := threshold,
               cb_opened_at := Some (snd (snd (last cs)))\<rparr>"
proof (intro conjI allI impI)
  fix n assume "n < length cs"
  moreover have "list_all failing (take n cs)"
    using assms(1) in_set_takeD by (fastforce simp: list_all_iff)
  ultimately show "fold run_call (take n cs) (new_breaker threshold timeout) =
      (new_breaker threshold timeout)\<lparr>cb_failure_count := int n\<rparr>"
    using assms(3) by (simp add: failures_below_threshold)
next
  obtain xs x where cs: "cs = xs @ [x]" using assms(2) by (cases cs rule: rev_cases) auto
  let ?b = "(new_breaker threshold timeout)\<lparr>cb_failure_count := int (length xs)\<rparr>"
  have "fold run_call cs (new_breaker threshold timeout) = run_call x ?b"
    using assms cs failures_below_threshold [of xs threshold timeout] by simp
  also have "\<dots> = record_failure ''closed'' (snd (snd x)) ?b"
    using assms cs by (intro run_call_failing) (simp_all add: new_breaker_def)
  finally show "fold run_call cs (new_breaker threshold timeout) =
      (new_breaker threshold timeout)\<lparr>cb_state := OPEN, cb_failure_count := threshold,
         cb_opened_at := Some (snd (snd (last cs)))\<rparr>"
    using assms(3) cs by (auto simp: record_failure_def transition_to_def new_breaker_def)
qed

definition three_failures :: "((nat, nat) ended \<times> time \<times> time) list" where
  "three_failures = [(Raised 0, 1, 2), (Raised 0, 3, 4), (Raised 0, 5, 6)]"

theorem threshold_failures_open_witness:
  "fold run_call three_failures openai_breaker =
   openai_breaker\<lparr>cb_state := OPEN, cb_failure_count := 3, cb_opened_at := Some 6\<rparr>"
proof -
  have "list_all failing three_failures" "three_failures \<noteq> []" "int (length three_failures) = 3"
    and "snd (snd (last three_failures)) = 6"
    by (simp_all add: three_failures_def failing_def)
  then show ?thesis
    using threshold_failures_open [of three_failures 3 60] by (simp add: openai_breaker_def)
qed

text \<open>
  A probe that ends in an exception outside \<^verbatim>\<open>Exception\<close> (an \<^verbatim>\<open>async_call\<close> whose task is
  cancelled) leaves the breaker half-open with its probe marked in flight: every later call is
  rejected, however long one waits, until \<^verbatim>\<open>reset\<close> is called.
\<close>

theorem cancelled_probe_locks_breaker:
  assumes "cb_state b = OPEN" "cb_opened_at b = Some opened"
    and "recovery_timeout_secs b * secs \<le> t1 - opened"
  shows "call_breaker func t t' (snd (call_breaker (Base_raised e) t1 t2 b)) =
    (Call_rejected CircuitOpen_probe_in_flight, snd (call_breaker (Base_raised e) t1 t2 b))"
  using assms by (simp add: call_breaker_def cb_defs)

theorem cancelled_probe_locks_breaker_witness:
  "call_breaker (Returned 1) 90000000000 90000000001
      (snd (call_breaker (Base_raised (0::nat)) 60000000 60000001
         (record_failure ''closed'' 0 (new_breaker 1 60)))) =
   (Call_rejected CircuitOpen_probe_in_flight :: (nat, nat) call_result,
    snd (call_breaker (Base_raised (0::nat)) 60000000 60000001
         (record_failure ''closed'' 0 (new_breaker 1 60))))"
  by (rule cancelled_probe_locks_breaker [where opened = 0])
     (simp_all add: record_failure_def new_breaker_def transition_to_def secs_def)

end
