(* ===== verification/Condition_Codes.thy ===== *)
theory Condition_Codes
  imports Prelude
begin

text \<open>
  \<^verbatim>\<open>AINDY/kernel/condition_codes.py\<close>: the run statuses, their terminal and active sets, and the
  two maps between the flow and the agent life cycle. A status is the text the database holds;
  the enumerations give the texts.
\<close>

datatype FlowRunStatus = F_RUNNING | F_EXECUTING | F_WAITING | F_SUCCESS | F_FAILED | F_COMPLETED

fun flow_value :: "FlowRunStatus \<Rightarrow> string" where
  "flow_value F_RUNNING = ''running''"
| "flow_value F_EXECUTING = ''executing''"
| "flow_value F_WAITING = ''waiting''"
| "flow_value F_SUCCESS = ''success''"
| "flow_value F_FAILED = ''failed''"
| "flow_value F_COMPLETED = ''completed''"

datatype AgentRunStatus =
    A_PENDING_APPROVAL | A_APPROVED | A_AWAITING_DELEGATION | A_EXECUTING | A_WAITING
  | A_DELEGATED | A_COMPLETED | A_FAILED | A_CANCELLED | A_VERIFY_FAILED

fun agent_value :: "AgentRunStatus \<Rightarrow> string" where
  "agent_value A_PENDING_APPROVAL = ''pending_approval''"
| "agent_value A_APPROVED = ''approved''"
| "agent_value A_AWAITING_DELEGATION = ''awaiting_delegation''"
| "agent_value A_EXECUTING = ''executing''"
| "agent_value A_WAITING = ''waiting''"
| "agent_value A_DELEGATED = ''delegated''"
| "agent_value A_COMPLETED = ''completed''"
| "agent_value A_FAILED = ''failed''"
| "agent_value A_CANCELLED = ''cancelled''"
| "agent_value A_VERIFY_FAILED = ''verify_failed''"

definition AGENT_TERMINAL_STATUSES :: "string list" where
  "AGENT_TERMINAL_STATUSES = map agent_value [A_COMPLETED, A_FAILED, A_CANCELLED, A_VERIFY_FAILED]"

definition FLOW_TERMINAL_STATUSES :: "string list" where
  "FLOW_TERMINAL_STATUSES = map flow_value [F_SUCCESS, F_FAILED, F_COMPLETED]"

definition AGENT_ACTIVE_STATUSES :: "string list" where
  "AGENT_ACTIVE_STATUSES = map agent_value
     [A_PENDING_APPROVAL, A_APPROVED, A_AWAITING_DELEGATION, A_EXECUTING, A_DELEGATED, A_WAITING]"

definition FLOW_ACTIVE_STATUSES :: "string list" where
  "FLOW_ACTIVE_STATUSES = map flow_value [F_RUNNING, F_EXECUTING, F_WAITING]"

definition FLOW_TO_AGENT_STATUS :: "string dict" where
  "FLOW_TO_AGENT_STATUS =
     [(flow_value F_RUNNING, agent_value A_EXECUTING),
      (flow_value F_EXECUTING, agent_value A_EXECUTING),
      (flow_value F_WAITING, agent_value A_WAITING),
      (flow_value F_SUCCESS, agent_value A_COMPLETED),
      (flow_value F_COMPLETED, agent_value A_COMPLETED),
      (flow_value F_FAILED, agent_value A_FAILED)]"

definition AGENT_TO_FLOW_STATUS :: "string dict" where
  "AGENT_TO_FLOW_STATUS =
     [(agent_value A_PENDING_APPROVAL, flow_value F_RUNNING),
      (agent_value A_APPROVED, flow_value F_RUNNING),
      (agent_value A_AWAITING_DELEGATION, flow_value F_RUNNING),
      (agent_value A_EXECUTING, flow_value F_EXECUTING),
      (agent_value A_DELEGATED, flow_value F_EXECUTING),
      (agent_value A_WAITING, flow_value F_WAITING),
      (agent_value A_COMPLETED, flow_value F_SUCCESS),
      (agent_value A_FAILED, flow_value F_FAILED),
      (agent_value A_CANCELLED, flow_value F_FAILED),
      (agent_value A_VERIFY_FAILED, flow_value F_FAILED)]"

definition is_agent_terminal :: "string option \<Rightarrow> bool" where
  "is_agent_terminal status \<longleftrightarrow>
     (case status of None \<Rightarrow> False | Some s \<Rightarrow> s \<in> set AGENT_TERMINAL_STATUSES)"

definition is_flow_terminal :: "string option \<Rightarrow> bool" where
  "is_flow_terminal status \<longleftrightarrow>
     (case status of None \<Rightarrow> False | Some s \<Rightarrow> s \<in> set FLOW_TERMINAL_STATUSES)"

definition flow_status_to_agent :: "string option \<Rightarrow> string" where
  "flow_status_to_agent status =
     (case status of None \<Rightarrow> agent_value A_FAILED
      | Some s \<Rightarrow> dget_or FLOW_TO_AGENT_STATUS s (agent_value A_FAILED))"

definition agent_status_to_flow :: "string option \<Rightarrow> string" where
  "agent_status_to_flow status =
     (case status of None \<Rightarrow> flow_value F_FAILED
      | Some s \<Rightarrow> dget_or AGENT_TO_FLOW_STATUS s (flow_value F_FAILED))"

lemmas status_defs =
  AGENT_TERMINAL_STATUSES_def FLOW_TERMINAL_STATUSES_def AGENT_ACTIVE_STATUSES_def
  FLOW_ACTIVE_STATUSES_def FLOW_TO_AGENT_STATUS_def AGENT_TO_FLOW_STATUS_def
  is_agent_terminal_def is_flow_terminal_def flow_status_to_agent_def agent_status_to_flow_def
  dget_or_def

lemma unknown_status:
  "s \<notin> Some ` range flow_value \<Longrightarrow> flow_status_to_agent s = agent_value A_FAILED"
  "s \<notin> Some ` range agent_value \<Longrightarrow> agent_status_to_flow s = flow_value F_FAILED"
proof -
  have "dget FLOW_TO_AGENT_STATUS t = None" if "t \<notin> range flow_value" for t
    using that by (auto simp: FLOW_TO_AGENT_STATUS_def simp del: flow_value.simps)
  then show "flow_status_to_agent s = agent_value A_FAILED" if "s \<notin> Some ` range flow_value"
    using that by (cases s) (simp_all add: flow_status_to_agent_def dget_or_def image_iff)
  have "dget AGENT_TO_FLOW_STATUS t = None" if "t \<notin> range agent_value" for t
    using that by (auto simp: AGENT_TO_FLOW_STATUS_def simp del: agent_value.simps)
  then show "agent_status_to_flow s = flow_value F_FAILED" if "s \<notin> Some ` range agent_value"
    using that by (cases s) (simp_all add: agent_status_to_flow_def dget_or_def image_iff)
qed

text \<open>
  The two life cycles agree on when a run is over: every status of either enumeration is in
  exactly one of the terminal and the active set, a terminal status is mapped to a terminal one
  and an active status to an active one, and any text that is no status (or a missing one) is
  mapped to the terminal \<open>failed\<close>, so that an unknown status never keeps a run alive.
\<close>

theorem status_maps_agree:
  "(flow_value f \<in> set FLOW_TERMINAL_STATUSES) = (flow_value f \<notin> set FLOW_ACTIVE_STATUSES)
   \<and> (agent_value a \<in> set AGENT_TERMINAL_STATUSES) = (agent_value a \<notin> set AGENT_ACTIVE_STATUSES)
   \<and> is_agent_terminal (Some (flow_status_to_agent (Some (flow_value f)))) =
       is_flow_terminal (Some (flow_value f))
   \<and> is_flow_terminal (Some (agent_status_to_flow (Some (agent_value a)))) =
       is_agent_terminal (Some (agent_value a))
   \<and> (s \<in> Some ` range flow_value \<or> flow_status_to_agent s = agent_value A_FAILED)
   \<and> (s \<in> Some ` range agent_value \<or> agent_status_to_flow s = flow_value F_FAILED)"
proof (intro conjI)
  show "(flow_value f \<in> set FLOW_TERMINAL_STATUSES) = (flow_value f \<notin> set FLOW_ACTIVE_STATUSES)"
    by (cases f) (simp_all add: status_defs)
  show "(agent_value a \<in> set AGENT_TERMINAL_STATUSES) = (agent_value a \<notin> set AGENT_ACTIVE_STATUSES)"
    by (cases a) (simp_all add: status_defs)
  show "is_agent_terminal (Some (flow_status_to_agent (Some (flow_value f)))) =
       is_flow_terminal (Some (flow_value f))"
    by (cases f) (simp_all add: status_defs)
  show "is_flow_terminal (Some (agent_status_to_flow (Some (agent_value a)))) =
       is_agent_terminal (Some (agent_value a))"
    by (cases a) (simp_all add: status_defs)
qed (use unknown_status in blast)+

end
