(* ===== verification/Py_Values.thy ===== *)
theory Py_Values
  imports Prelude "HOL-Library.Sublist" "HOL-Library.Char_ord" "HOL-Library.List_Lexorder"
begin

text \<open>
  The part of Python the modelled code computes with: string methods, the values a payload may
  hold, truth values, \<^verbatim>\<open>str()\<close> and \<^verbatim>\<open>repr()\<close>, and \<^verbatim>\<open>uuid.UUID\<close>. A string is a list of
  characters, each a code point below 256; the definitions follow CPython on that range.
\<close>


section \<open>Characters and strings\<close>

definition code :: "char \<Rightarrow> nat" where
  "code c = of_char c"

text \<open>\<^verbatim>\<open>str.isspace\<close> on the code points below 256.\<close>

definition is_space :: "char \<Rightarrow> bool" where
  "is_space c = (let n = code c in
     9 \<le> n \<and> n \<le> 13 \<or> 28 \<le> n \<and> n \<le> 32 \<or> n = 133 \<or> n = 160)"

definition py_lstrip_chars :: "(char \<Rightarrow> bool) \<Rightarrow> string \<Rightarrow> string" where
  "py_lstrip_chars p s = dropWhile p s"

definition py_rstrip_chars :: "(char \<Rightarrow> bool) \<Rightarrow> string \<Rightarrow> string" where
  "py_rstrip_chars p s = rev (dropWhile p (rev s))"

definition py_strip_chars :: "(char \<Rightarrow> bool) \<Rightarrow> string \<Rightarrow> string" where
  "py_strip_chars p s = py_rstrip_chars p (py_lstrip_chars p s)"

definition py_strip :: "string \<Rightarrow> string" where
  "py_strip = py_strip_chars is_space"

definition lower_char :: "char \<Rightarrow> char" where
  "lower_char c = (let n = code c in
     if 65 \<le> n \<and> n \<le> 90 \<or> 192 \<le> n \<and> n \<le> 222 \<and> n \<noteq> 215 then char_of (n + 32) else c)"

definition py_lower :: "string \<Rightarrow> string" where
  "py_lower = map lower_char"

text \<open>\<^verbatim>\<open>s.find(c)\<close>: the first index of a character, or -1.\<close>

fun py_find :: "char \<Rightarrow> string \<Rightarrow> int" where
  "py_find c [] = -1"
| "py_find c (x # xs) =
     (if x = c then 0 else let i = py_find c xs in if i = -1 then -1 else i + 1)"

text \<open>\<^verbatim>\<open>s.replace(old, new)\<close> for a nonempty \<^verbatim>\<open>old\<close>: leftmost occurrences, no overlap.\<close>

fun py_replace :: "string \<Rightarrow> string \<Rightarrow> string \<Rightarrow> string" where
  "py_replace old new [] = []"
| "py_replace old new (c # cs) =
     (if old \<noteq> [] \<and> prefix old (c # cs)
      then new @ py_replace old new (drop (length old - 1) cs)
      else c # py_replace old new cs)"

text \<open>\<^verbatim>\<open>s.rsplit(sep, 1)[-1]\<close>: what follows the last separator, all of \<open>s\<close> when there is none.\<close>

definition after_last :: "char \<Rightarrow> string \<Rightarrow> string" where
  "after_last c s = rev (takeWhile (\<lambda>x. x \<noteq> c) (rev s))"

text \<open>\<^verbatim>\<open>s.split(sep)\<close> for a one-character separator: never the empty list.\<close>

fun py_split :: "char \<Rightarrow> string \<Rightarrow> string list" where
  "py_split c [] = [[]]"
| "py_split c (x # xs) =
     (if x = c then [] # py_split c xs
      else case py_split c xs of [] \<Rightarrow> [[x]] | w # ws \<Rightarrow> (x # w) # ws)"

definition py_join :: "string \<Rightarrow> string list \<Rightarrow> string" where
  "py_join sep ws = (case ws of [] \<Rightarrow> [] | w # ws' \<Rightarrow> w @ concat (map (\<lambda>x. sep @ x) ws'))"

lemma py_find_range: "-1 \<le> py_find c s" "py_find c s < int (length s)"
  by (induction s) (auto simp: Let_def)

lemma py_find_minus1_iff [simp]: "py_find c s = -1 \<longleftrightarrow> c \<notin> set s"
proof (induction s)
  case (Cons x xs)
  have "py_find c xs + 1 \<noteq> -1" using py_find_range(1) [of c xs] by linarith
  then show ?case using Cons by (auto simp: Let_def)
qed simp

lemma py_find_takeWhile:
  "c \<in> set s \<Longrightarrow> py_find c s = int (length (takeWhile (\<lambda>x. x \<noteq> c) s))"
  by (induction s) (auto simp: Let_def)

lemma py_find_take:
  assumes "c \<in> set s"
  shows "take (nat (py_find c s)) s = takeWhile (\<lambda>x. x \<noteq> c) s"
    and "drop (nat (py_find c s + 1)) s = tl (dropWhile (\<lambda>x. x \<noteq> c) s)"
proof -
  let ?n = "length (takeWhile (\<lambda>x. x \<noteq> c) s)"
  have n: "nat (py_find c s) = ?n" "nat (py_find c s + 1) = Suc ?n"
    using py_find_takeWhile [OF assms] by simp_all
  show "take (nat (py_find c s)) s = takeWhile (\<lambda>x. x \<noteq> c) s"
    unfolding n by (rule takeWhile_eq_take [symmetric])
  have "drop (Suc ?n) s = tl (drop ?n s)" by (simp only: drop_Suc tl_drop)
  then show "drop (nat (py_find c s + 1)) s = tl (dropWhile (\<lambda>x. x \<noteq> c) s)"
    unfolding n by (simp only: dropWhile_eq_drop [symmetric])
qed

lemma py_replace_absent:
  assumes "c \<in> set old" "c \<notin> set s"
  shows "py_replace old new s = s"
  using assms
proof (induction s)
  case (Cons x xs)
  have "\<not> prefix old (x # xs)"
    using Cons.prems set_mono_prefix by fastforce
  then show ?case using Cons by simp
qed simp

lemma py_replace_char: "py_replace [c] [] s = filter (\<lambda>x. x \<noteq> c) s"
  by (induction s) auto

lemma py_split_join: "py_join [c] (py_split c s) = s"
proof (induction s)
  case (Cons x xs)
  then show ?case
    by (cases "py_split c xs") (auto simp: py_join_def)
qed (simp add: py_join_def)

lemma strip_chars_absent:
  assumes "s = [] \<or> \<not> p (hd s) \<and> \<not> p (last s)"
  shows "py_strip_chars p s = s"
proof (cases "s = []")
  case True
  then show ?thesis by (simp add: py_strip_chars_def py_lstrip_chars_def py_rstrip_chars_def)
next
  case False
  then obtain x xs where s: "s = x # xs" by (cases s) auto
  obtain ys y where s': "s = ys @ [y]" using False by (cases s rule: rev_cases) auto
  have "py_lstrip_chars p s = s" using assms s by (simp add: py_lstrip_chars_def)
  moreover have "py_rstrip_chars p s = s" using assms False s' by (simp add: py_rstrip_chars_def)
  ultimately show ?thesis by (simp add: py_strip_chars_def)
qed

lemma strip_chars_edges:
  assumes "py_strip_chars p s \<noteq> []"
  shows "\<not> p (hd (py_strip_chars p s)) \<and> \<not> p (last (py_strip_chars p s))"
proof -
  let ?l = "dropWhile p s"
  let ?r = "dropWhile p (rev ?l)"
  have r: "?r \<noteq> []" using assms
    by (simp add: py_strip_chars_def py_lstrip_chars_def py_rstrip_chars_def)
  then have last: "\<not> p (hd ?r)" by (rule hd_dropWhile)
  have l: "?l \<noteq> []" using r by (metis dropWhile.simps(1) rev.simps(1))
  then have hdl: "\<not> p (hd ?l)" by (rule hd_dropWhile)
  have "suffix ?r (rev ?l)" by (rule suffix_dropWhile)
  then have "prefix (rev ?r) ?l" by (simp add: suffix_to_prefix)
  then have "hd (rev ?r) = hd ?l" using r by (metis hd_append2 prefixE rev_is_Nil_conv)
  then show ?thesis using last hdl r
    by (simp add: py_strip_chars_def py_lstrip_chars_def py_rstrip_chars_def last_rev)
qed

lemma py_strip_idem [simp]: "py_strip (py_strip s) = py_strip s"
  unfolding py_strip_def by (rule strip_chars_absent) (use strip_chars_edges in blast)


text \<open>The long dash some messages contain, as its three UTF-8 bytes.\<close>

definition em_dash :: string where
  "em_dash = [CHR 0xE2, CHR 0x80, CHR 0x94]"

text \<open>\<^verbatim>\<open>a or b\<close> on texts, the first of which may be missing.\<close>

definition or_text :: "string option \<Rightarrow> string \<Rightarrow> string" where
  "or_text a b = (case a of Some s \<Rightarrow> if s \<noteq> [] then s else b | None \<Rightarrow> b)"


section \<open>Numbers as text\<close>

definition dec_digit :: "nat \<Rightarrow> char" where
  "dec_digit d = ''0123456789'' ! d"

fun dec_nat :: "nat \<Rightarrow> string" where
  "dec_nat n = (if n < 10 then [dec_digit n] else dec_nat (n div 10) @ [dec_digit (n mod 10)])"

declare dec_nat.simps [simp del]

definition dec_int :: "int \<Rightarrow> string" where
  "dec_int i = (if i < 0 then CHR ''-'' # dec_nat (nat (- i)) else dec_nat (nat i))"

definition hex_digit :: "nat \<Rightarrow> char" where
  "hex_digit v = ''0123456789abcdef'' ! v"

text \<open>The last \<open>k\<close> hexadecimal digits of \<open>n\<close>, most significant first.\<close>

fun hex_fixed :: "nat \<Rightarrow> nat \<Rightarrow> string" where
  "hex_fixed 0 n = []"
| "hex_fixed (Suc k) n = hex_digit (n div 16 ^ k mod 16) # hex_fixed k n"

definition hex_val :: "char \<Rightarrow> nat option" where
  "hex_val c = (let n = code c in
     if 48 \<le> n \<and> n \<le> 57 then Some (n - 48)
     else if 97 \<le> n \<and> n \<le> 102 then Some (n - 87)
     else if 65 \<le> n \<and> n \<le> 70 then Some (n - 55)
     else None)"

text \<open>
  \<^verbatim>\<open>int(s, 16)\<close>: surrounding white space, one sign and one \<^verbatim>\<open>0x\<close> are accepted, single
  underscores may separate digits.
\<close>

fun hex_body :: "bool \<Rightarrow> nat \<Rightarrow> string \<Rightarrow> nat option" where
  "hex_body d acc [] = (if d then Some acc else None)"
| "hex_body d acc (c # cs) =
     (if c = CHR ''_'' then if d then hex_body False acc cs else None
      else case hex_val c of None \<Rightarrow> None | Some v \<Rightarrow> hex_body True (16 * acc + v) cs)"

definition drop_0x :: "string \<Rightarrow> string" where
  "drop_0x s =
     (if take 2 s = ''0x'' \<or> take 2 s = ''0X''
      then (if take 1 (drop 2 s) = ''_'' then drop 3 s else drop 2 s)
      else s)"

definition py_int16 :: "string \<Rightarrow> int option" where
  "py_int16 s0 = (let s = py_strip s0 in
     if take 1 s = ''-'' then map_option (\<lambda>n. - int n) (hex_body False 0 (drop_0x (drop 1 s)))
     else if take 1 s = ''+'' then map_option int (hex_body False 0 (drop_0x (drop 1 s)))
     else map_option int (hex_body False 0 (drop_0x s)))"

lemma hex_digit_cases:
  assumes "v < 16"
  shows "hex_val (hex_digit v) = Some v"
    and "hex_digit v \<noteq> CHR ''_''" and "hex_digit v \<noteq> CHR ''-''" and "hex_digit v \<noteq> CHR ''x''"
    and "hex_digit v \<noteq> CHR ''X''" and "hex_digit v \<noteq> CHR ''+''" and "hex_digit v \<noteq> CHR ''u''"
    and "hex_digit v \<noteq> CHR ''{''" and "hex_digit v \<noteq> CHR ''}''" and "\<not> is_space (hex_digit v)"
proof -
  have "v = 0 \<or> v = 1 \<or> v = 2 \<or> v = 3 \<or> v = 4 \<or> v = 5 \<or> v = 6 \<or> v = 7 \<or> v = 8 \<or> v = 9 \<or>
    v = 10 \<or> v = 11 \<or> v = 12 \<or> v = 13 \<or> v = 14 \<or> v = 15"
    using assms by arith
  then show "hex_val (hex_digit v) = Some v"
    and "hex_digit v \<noteq> CHR ''_''" and "hex_digit v \<noteq> CHR ''-''" and "hex_digit v \<noteq> CHR ''x''"
    and "hex_digit v \<noteq> CHR ''X''" and "hex_digit v \<noteq> CHR ''+''" and "hex_digit v \<noteq> CHR ''u''"
    and "hex_digit v \<noteq> CHR ''{''" and "hex_digit v \<noteq> CHR ''}''" and "\<not> is_space (hex_digit v)"
    by (elim disjE; simp add: hex_digit_def hex_val_def is_space_def code_def Let_def)+
qed

lemma hex_fixed_length [simp]: "length (hex_fixed k n) = k"
  by (induction k) auto

lemma hex_fixed_digits: "c \<in> set (hex_fixed k n) \<Longrightarrow> \<exists>v < 16. c = hex_digit v"
proof (induction k)
  case (Suc k)
  have "n div 16 ^ k mod 16 < 16" by simp
  then show ?case using Suc by (metis hex_fixed.simps(2) set_ConsD)
qed simp

lemma hex_body_fixed: "hex_body True acc (hex_fixed k n) = Some (acc * 16 ^ k + n mod 16 ^ k)"
proof (induction k arbitrary: acc)
  case (Suc k)
  have "n mod 16 ^ Suc k = 16 ^ k * (n div 16 ^ k mod 16) + n mod 16 ^ k"
    by (simp add: mod_mult2_eq power_Suc2 del: power_Suc)
  then show ?case using Suc
    by (simp add: hex_digit_cases algebra_simps)
qed simp

lemma hex_body_fixed_start:
  "0 < k \<Longrightarrow> hex_body False 0 (hex_fixed k n) = Some (n mod 16 ^ k)"
  using hex_body_fixed [of 0 k n] by (cases k) (simp_all add: hex_digit_cases)

lemma py_int16_hex_fixed:
  assumes "2 \<le> k"
  shows "py_int16 (hex_fixed k n) = Some (int (n mod 16 ^ k))"
proof -
  obtain j where k: "k = Suc (Suc j)" using assms by (metis Suc_le_D numeral_2_eq_2 le_SucE)
  have ne: "hex_fixed k n \<noteq> []" using k by simp
  have sp: "\<not> is_space c" if "c \<in> set (hex_fixed k n)" for c
    using hex_fixed_digits [OF that] hex_digit_cases(10) by blast
  have "py_strip (hex_fixed k n) = hex_fixed k n"
    unfolding py_strip_def by (rule strip_chars_absent) (use ne sp in simp)
  moreover have "drop_0x (hex_fixed k n) = hex_fixed k n"
    by (simp add: drop_0x_def k hex_digit_cases)
  moreover have "take 1 (hex_fixed k n) = [hex_digit (n div 16 ^ Suc j mod 16)]"
    by (simp add: k)
  ultimately show ?thesis
    using hex_body_fixed_start [of k n] assms
    by (simp add: py_int16_def Let_def hex_digit_cases)
qed


text \<open>\<^verbatim>\<open>int(s)\<close> for a text: the same with decimal digits and no prefix.\<close>

definition dec_val :: "char \<Rightarrow> nat option" where
  "dec_val c = (let n = code c in if 48 \<le> n \<and> n \<le> 57 then Some (n - 48) else None)"

fun dec_body :: "bool \<Rightarrow> nat \<Rightarrow> string \<Rightarrow> nat option" where
  "dec_body d acc [] = (if d then Some acc else None)"
| "dec_body d acc (c # cs) =
     (if c = CHR ''_'' then if d then dec_body False acc cs else None
      else case dec_val c of None \<Rightarrow> None | Some v \<Rightarrow> dec_body True (10 * acc + v) cs)"

definition py_int10 :: "string \<Rightarrow> int option" where
  "py_int10 s0 = (let s = py_strip s0 in
     if take 1 s = ''-'' then map_option (\<lambda>n. - int n) (dec_body False 0 (drop 1 s))
     else if take 1 s = ''+'' then map_option int (dec_body False 0 (drop 1 s))
     else map_option int (dec_body False 0 s))"


section \<open>UUIDs\<close>

text \<open>
  \<^verbatim>\<open>uuid.UUID(text)\<close> and \<^verbatim>\<open>str(uuid)\<close> of the standard library; a UUID is its 128-bit
  integer.
\<close>

definition uuid_parse :: "string \<Rightarrow> nat option" where
  "uuid_parse s0 =
     (let s1 = py_replace ''uuid:'' [] (py_replace ''urn:'' [] s0);
          s = py_replace ''-'' [] (py_strip_chars (\<lambda>c. c = CHR ''{'' \<or> c = CHR ''}'') s1)
      in if length s \<noteq> 32 then None
         else case py_int16 s of None \<Rightarrow> None
           | Some i \<Rightarrow> if 0 \<le> i \<and> i < 2 ^ 128 then Some (nat i) else None)"

definition uuid_str :: "nat \<Rightarrow> string" where
  "uuid_str n = hex_fixed 8 (n div 16 ^ 24) @ ''-'' @ hex_fixed 4 (n div 16 ^ 20) @ ''-'' @
     hex_fixed 4 (n div 16 ^ 16) @ ''-'' @ hex_fixed 4 (n div 16 ^ 12) @ ''-'' @ hex_fixed 12 n"

lemma hex_fixed_append: "hex_fixed (j + k) n = hex_fixed j (n div 16 ^ k) @ hex_fixed k n"
  by (induction j) (simp_all add: div_mult2_eq [symmetric] power_add algebra_simps)

lemma uuid_str_digits:
  "filter (\<lambda>c. c \<noteq> CHR ''-'') (uuid_str n) = hex_fixed 32 n"
proof -
  have f: "filter (\<lambda>c. c \<noteq> CHR ''-'') (hex_fixed k m) = hex_fixed k m" for k m
    using hex_fixed_digits hex_digit_cases(3) by (fastforce simp: filter_id_conv)
  have "hex_fixed 32 n = hex_fixed 8 (n div 16 ^ 24) @ hex_fixed 4 (n div 16 ^ 20) @
      hex_fixed 4 (n div 16 ^ 16) @ hex_fixed 4 (n div 16 ^ 12) @ hex_fixed 12 n"
    using hex_fixed_append [of 8 24 n] hex_fixed_append [of 4 20 n]
      hex_fixed_append [of 4 16 n] hex_fixed_append [of 4 12 n] by simp
  then show ?thesis by (simp add: uuid_str_def f)
qed

lemma uuid_str_chars: "c \<in> set (uuid_str n) \<Longrightarrow> c = CHR ''-'' \<or> (\<exists>v < 16. c = hex_digit v)"
  using hex_fixed_digits by (auto simp: uuid_str_def)

lemma uuid_parse_str:
  assumes "n < 2 ^ 128"
  shows "uuid_parse (uuid_str n) = Some n"
proof -
  have no: "CHR ''u'' \<notin> set (uuid_str n)" "CHR ''{'' \<notin> set (uuid_str n)"
    "CHR ''}'' \<notin> set (uuid_str n)"
    using uuid_str_chars hex_digit_cases by fastforce+
  have ne: "uuid_str n \<noteq> []" by (simp add: uuid_str_def)
  have "py_replace ''uuid:'' [] (py_replace ''urn:'' [] (uuid_str n)) = uuid_str n"
    using no(1) by (simp add: py_replace_absent [where c = "CHR ''u''"])
  moreover have "py_strip_chars (\<lambda>c. c = CHR ''{'' \<or> c = CHR ''}'') (uuid_str n) = uuid_str n"
    by (rule strip_chars_absent) (use no ne last_in_set hd_in_set in metis)
  moreover have "py_int16 (hex_fixed 32 n) = Some (int n)"
    using py_int16_hex_fixed [of 32 n] assms by simp
  ultimately show ?thesis
    using assms by (simp add: uuid_parse_def py_replace_char uuid_str_digits Let_def)
qed

lemma uuid_parse_bound: "uuid_parse s = Some n \<Longrightarrow> n < 2 ^ 128"
  by (auto simp: uuid_parse_def Let_def nat_less_iff split: option.splits if_splits)


section \<open>Values\<close>

text \<open>
  The values a payload, a handler result or a schema may hold. A float is the text Python prints
  for it (the modelled code never computes with one); \<open>PObj\<close> stands for any other object, by
  its class name and the text \<^verbatim>\<open>str()\<close> gives.
\<close>

datatype pyval =
    PNone
  | PBool bool
  | PInt int
  | PFloat string
  | PStr string
  | PList "pyval list"
  | PDict "(string \<times> pyval) list"
  | PUuid nat
  | PObj string string

type_synonym payload = "pyval dict"

fun type_name :: "pyval \<Rightarrow> string" where
  "type_name PNone = ''NoneType''"
| "type_name (PBool _) = ''bool''"
| "type_name (PInt _) = ''int''"
| "type_name (PFloat _) = ''float''"
| "type_name (PStr _) = ''str''"
| "type_name (PList _) = ''list''"
| "type_name (PDict _) = ''dict''"
| "type_name (PUuid _) = ''UUID''"
| "type_name (PObj c _) = c"

text \<open>\<^verbatim>\<open>bool(v)\<close>.\<close>

fun truthy :: "pyval \<Rightarrow> bool" where
  "truthy PNone = False"
| "truthy (PBool b) = b"
| "truthy (PInt i) = (i \<noteq> 0)"
| "truthy (PFloat t) = (t \<noteq> ''0.0'' \<and> t \<noteq> ''-0.0'')"
| "truthy (PStr s) = (s \<noteq> [])"
| "truthy (PList xs) = (xs \<noteq> [])"
| "truthy (PDict d) = (d \<noteq> [])"
| "truthy (PUuid _) = True"
| "truthy (PObj _ _) = True"

text \<open>\<^verbatim>\<open>d.get(k)\<close> with its default \<^verbatim>\<open>None\<close>.\<close>

definition pget :: "payload \<Rightarrow> string \<Rightarrow> pyval" where
  "pget d k = dget_or d k PNone"

text \<open>\<^verbatim>\<open>repr\<close> of a string and \<^verbatim>\<open>str\<close> of a value.\<close>

definition repr_char :: "char \<Rightarrow> char \<Rightarrow> string" where
  "repr_char q c = (let n = code c in
     if c = q \<or> c = CHR 0x5C then [CHR 0x5C, c]
     else if n = 9 then CHR 0x5C # ''t'' else if n = 10 then CHR 0x5C # ''n''
     else if n = 13 then CHR 0x5C # ''r''
     else if n < 32 \<or> 127 \<le> n \<and> n \<le> 160 \<or> n = 173 then CHR 0x5C # CHR ''x'' # hex_fixed 2 n
     else [c])"

definition repr_str :: "string \<Rightarrow> string" where
  "repr_str s =
     (let q = (if CHR 0x27 \<in> set s \<and> CHR 0x22 \<notin> set s then CHR 0x22 else CHR 0x27)
      in q # concat (map (repr_char q) s) @ [q])"

fun py_repr :: "pyval \<Rightarrow> string" where
  "py_repr PNone = ''None''"
| "py_repr (PBool b) = (if b then ''True'' else ''False'')"
| "py_repr (PInt i) = dec_int i"
| "py_repr (PFloat t) = t"
| "py_repr (PStr s) = repr_str s"
| "py_repr (PList xs) = ''['' @ py_join '', '' (map py_repr xs) @ '']''"
| "py_repr (PDict d) =
     ''{'' @ py_join '', '' (map (\<lambda>(k, v). repr_str k @ '': '' @ py_repr v) d) @ ''}''"
| "py_repr (PUuid n) = ''UUID('' @ repr_str (uuid_str n) @ '')''"
| "py_repr (PObj _ t) = t"

fun py_str :: "pyval \<Rightarrow> string" where
  "py_str (PStr s) = s"
| "py_str (PUuid n) = uuid_str n"
| "py_str v = py_repr v"

text \<open>
  \<^verbatim>\<open>json.dumps(v, sort_keys=True, separators=(",", ":"))\<close>: the text, and whether the call
  succeeds (objects and UUIDs raise \<^verbatim>\<open>TypeError\<close>).
\<close>

definition json_char :: "char \<Rightarrow> string" where
  "json_char c = (let n = code c in
     if n = 34 \<or> n = 92 then [CHR 0x5C, c]
     else if n = 8 then CHR 0x5C # ''b'' else if n = 9 then CHR 0x5C # ''t''
     else if n = 10 then CHR 0x5C # ''n'' else if n = 12 then CHR 0x5C # ''f''
     else if n = 13 then CHR 0x5C # ''r''
     else if n < 32 \<or> 126 < n then CHR 0x5C # CHR ''u'' # hex_fixed 4 n
     else [c])"

definition json_str :: "string \<Rightarrow> string" where
  "json_str s = CHR 0x22 # concat (map json_char s) @ [CHR 0x22]"

fun json_ok :: "pyval \<Rightarrow> bool" where
  "json_ok (PList xs) = list_all json_ok xs"
| "json_ok (PDict d) = list_all (\<lambda>(k, v). json_ok v) d"
| "json_ok (PUuid _) = False"
| "json_ok (PObj _ _) = False"
| "json_ok _ = True"

fun json_text :: "pyval \<Rightarrow> string" where
  "json_text PNone = ''null''"
| "json_text (PBool b) = (if b then ''true'' else ''false'')"
| "json_text (PInt i) = dec_int i"
| "json_text (PFloat t) = t"
| "json_text (PStr s) = json_str s"
| "json_text (PList xs) = ''['' @ py_join '','' (map json_text xs) @ '']''"
| "json_text (PDict d) =
     ''{'' @ py_join '','' (map (\<lambda>(k, t). json_str k @ '':'' @ t)
       (sort_key fst (map (\<lambda>(k, v). (k, json_text v)) d))) @ ''}''"
| "json_text (PUuid n) = []"
| "json_text (PObj _ t) = []"

definition json_dumps :: "pyval \<Rightarrow> string option" where
  "json_dumps v = (if json_ok v then Some (json_text v) else None)"


section \<open>Types and exceptions\<close>

datatype py_exc =
    TypeError string
  | AttributeError string
  | ValueError string
  | KeyError string
  | PermissionError string
  | RuntimeError string
  | Other_exc string string

datatype py_type = T_str | T_int | T_float | T_bool | T_list | T_dict

text \<open>\<^verbatim>\<open>isinstance\<close> on the built-in types; \<^verbatim>\<open>bool\<close> is a subclass of \<^verbatim>\<open>int\<close>.\<close>

fun py_isinstance :: "pyval \<Rightarrow> py_type \<Rightarrow> bool" where
  "py_isinstance (PStr _) t = (t = T_str)"
| "py_isinstance (PInt _) t = (t = T_int)"
| "py_isinstance (PBool _) t = (t = T_bool \<or> t = T_int)"
| "py_isinstance (PFloat _) t = (t = T_float)"
| "py_isinstance (PList _) t = (t = T_list)"
| "py_isinstance (PDict _) t = (t = T_dict)"
| "py_isinstance _ _ = False"

definition hashable :: "pyval \<Rightarrow> bool" where
  "hashable v \<longleftrightarrow> \<not> py_isinstance v T_list \<and> \<not> py_isinstance v T_dict"

text \<open>\<^verbatim>\<open>key in d\<close> and \<^verbatim>\<open>d.get(key)\<close> for a key that need not be a string.\<close>

definition pget_key :: "payload \<Rightarrow> pyval \<Rightarrow> pyval option" where
  "pget_key d k = (case k of PStr s \<Rightarrow> dget d s | _ \<Rightarrow> None)"


section \<open>Environment variables\<close>

text \<open>
  \<^verbatim>\<open>os.getenv(k, "").strip().lower()\<close>, the form every flag of the runtime is read in.
\<close>

type_synonym env = "string \<Rightarrow> string option"

definition env_flag :: "env \<Rightarrow> string \<Rightarrow> string" where
  "env_flag e k = (case e k of None \<Rightarrow> [] | Some v \<Rightarrow> py_lower (py_strip v))"

end
