(* ===== verification/Syscall_Versioning.thy ===== *)
theory Syscall_Versioning
  imports Py_Values
begin

text \<open>
  \<^verbatim>\<open>AINDY/kernel/syscall_versioning.py\<close>: the ABI constants, the serialisable contract of a
  syscall, name parsing, the payload schema check and version resolution.
\<close>

definition ABI_VERSIONS :: "string list" where
  "ABI_VERSIONS = [''v1'']"

definition LATEST_STABLE_VERSION :: string where
  "LATEST_STABLE_VERSION = ''v1''"

definition SYSCALL_VERSION_FALLBACK :: bool where
  "SYSCALL_VERSION_FALLBACK = False"

definition SYSCALL_PREFIX :: string where
  "SYSCALL_PREFIX = ''sys.''"

record SyscallSpec =
  spec_name :: string
  spec_version :: string
  spec_capability :: string
  spec_description :: string
  spec_input_schema :: payload
  spec_output_schema :: payload
  spec_stable :: bool
  spec_deprecated :: bool
  spec_deprecated_since :: "string option"
  spec_replacement :: "string option"

definition full_name :: "SyscallSpec \<Rightarrow> string" where
  "full_name s = ''sys.'' @ spec_version s @ ''.'' @ spec_name s"



definition opt_text :: "string option \<Rightarrow> string" where
  "opt_text t = (case t of None \<Rightarrow> [] | Some s \<Rightarrow> s)"

definition deprecation_message :: "SyscallSpec \<Rightarrow> string option" where
  "deprecation_message s =
     (if \<not> spec_deprecated s then None
      else
        let parts = [''Syscall '' @ [CHR 0x27] @ full_name s @ [CHR 0x27] @ '' is deprecated''];
            parts = (if opt_text (spec_deprecated_since s) \<noteq> []
                     then parts @ [''since '' @ opt_text (spec_deprecated_since s)] else parts);
            parts = (if opt_text (spec_replacement s) \<noteq> []
                     then parts @ [em_dash @ '' use '' @ [CHR 0x27] @ opt_text (spec_replacement s)
                       @ [CHR 0x27] @ '' instead''] else parts)
        in Some (py_join '' '' parts @ ''.''))"

definition opt_val :: "string option \<Rightarrow> pyval" where
  "opt_val t = (case t of None \<Rightarrow> PNone | Some s \<Rightarrow> PStr s)"

definition spec_to_dict :: "SyscallSpec \<Rightarrow> payload" where
  "spec_to_dict s =
     [(''full_name'', PStr (full_name s)),
      (''name'', PStr (spec_name s)),
      (''version'', PStr (spec_version s)),
      (''capability'', PStr (spec_capability s)),
      (''description'', PStr (spec_description s)),
      (''input_schema'', PDict (spec_input_schema s)),
      (''output_schema'', PDict (spec_output_schema s)),
      (''stable'', PBool (spec_stable s)),
      (''deprecated'', PBool (spec_deprecated s)),
      (''deprecated_since'', opt_val (spec_deprecated_since s)),
      (''replacement'', opt_val (spec_replacement s))]"

definition parse_syscall_name :: "string \<Rightarrow> py_exc + string \<times> string" where
  "parse_syscall_name name =
     (if \<not> prefix SYSCALL_PREFIX name
      then Inl (ValueError (''Syscall name must start with '' @ repr_str SYSCALL_PREFIX @
             '', got: '' @ repr_str name))
      else
        let rest = drop (length SYSCALL_PREFIX) name;
            dot_idx = py_find CHR ''.'' rest
        in if dot_idx = -1
           then Inl (ValueError (''Cannot parse version from '' @ repr_str name @
                  '': missing version segment''))
           else
             let version = take (nat dot_idx) rest;
                 action = drop (nat (dot_idx + 1)) rest
             in if version = [] then Inl (ValueError (''Empty version segment in '' @ repr_str name))
                else if action = [] then Inl (ValueError (''Empty action segment in '' @ repr_str name))
                else Inr (version, action))"

definition SCHEMA_TYPE_MAP :: "py_type dict" where
  "SCHEMA_TYPE_MAP =
     [(''string'', T_str), (''str'', T_str),
      (''int'', T_int), (''integer'', T_int),
      (''float'', T_float), (''number'', T_float),
      (''bool'', T_bool), (''boolean'', T_bool),
      (''list'', T_list), (''array'', T_list),
      (''dict'', T_dict), (''object'', T_dict)]"

text \<open>
  \<open>schema_required\<close> and \<open>schema_properties\<close> read the two sections of a schema
  (\<^verbatim>\<open>schema.get(...) or default\<close>); iterating over a value that is no list, or taking
  \<^verbatim>\<open>.items()\<close> of one that is no dictionary, raises.
\<close>

definition schema_required :: "payload \<Rightarrow> py_exc + pyval list" where
  "schema_required schema =
     (let v = pget schema ''required'' in
      if \<not> truthy v then Inr []
      else case v of
          PList xs \<Rightarrow> Inr xs
        | PStr s \<Rightarrow> Inr (map (\<lambda>c. PStr [c]) s)
        | PDict d \<Rightarrow> Inr (map (\<lambda>kv. PStr (fst kv)) d)
        | _ \<Rightarrow> Inl (TypeError (type_name v @ '' object is not iterable'')))"

definition schema_properties :: "payload \<Rightarrow> py_exc + payload" where
  "schema_properties schema =
     (let v = pget schema ''properties'' in
      if \<not> truthy v then Inr []
      else case v of PDict d \<Rightarrow> Inr d
        | _ \<Rightarrow> Inl (AttributeError (type_name v @ '' object has no attribute items'')))"

fun check_required :: "payload \<Rightarrow> pyval list \<Rightarrow> string list \<Rightarrow> py_exc + string list" where
  "check_required payload [] errors = Inr errors"
| "check_required payload (fname # rest) errors =
     (if \<not> hashable fname then Inl (TypeError ''unhashable type'')
      else if pget_key payload fname = None \<or> pget_key payload fname = Some PNone
      then check_required payload rest
             (errors @ [''Missing required field: '' @ py_repr fname])
      else check_required payload rest errors)"

definition expected_type :: "pyval \<Rightarrow> py_exc + py_type option" where
  "expected_type expected_type_name =
     (if \<not> truthy expected_type_name then Inr None
      else if \<not> hashable expected_type_name then Inl (TypeError ''unhashable type'')
      else case expected_type_name of PStr t \<Rightarrow> Inr (dget SCHEMA_TYPE_MAP t) | _ \<Rightarrow> Inr None)"

fun check_types :: "payload \<Rightarrow> payload \<Rightarrow> string list \<Rightarrow> py_exc + string list" where
  "check_types payload [] errors = Inr errors"
| "check_types payload ((fname, spec) # rest) errors =
     (case dget payload fname of
        None \<Rightarrow> check_types payload rest errors
      | Some actual \<Rightarrow>
          (case spec of
             PDict d \<Rightarrow>
               (case expected_type (pget d ''type'') of
                  Inl e \<Rightarrow> Inl e
                | Inr None \<Rightarrow> check_types payload rest errors
                | Inr (Some py_type) \<Rightarrow>
                    if \<not> py_isinstance actual py_type
                    then check_types payload rest
                      (errors @ [''Field '' @ repr_str fname @ '': expected type '' @
                         py_repr (pget d ''type'') @ '', got '' @ repr_str (type_name actual)])
                    else check_types payload rest errors)
           | _ \<Rightarrow> Inl (AttributeError (type_name spec @ '' object has no attribute get''))))"

definition validate_payload :: "payload \<Rightarrow> payload \<Rightarrow> py_exc + string list" where
  "validate_payload schema payload =
     (if schema = [] then Inr []
      else bind_result (schema_required schema) (\<lambda>required.
           bind_result (check_required payload required []) (\<lambda>errors.
           bind_result (schema_properties schema) (\<lambda>properties.
             check_types payload properties errors))))"

definition validate_input :: "payload \<Rightarrow> payload \<Rightarrow> py_exc + string list" where
  "validate_input schema payload = validate_payload schema payload"

definition validate_output :: "payload \<Rightarrow> payload \<Rightarrow> py_exc + string list" where
  "validate_output schema data = validate_payload schema data"

definition resolve_version :: "string \<Rightarrow> string list \<Rightarrow> bool \<Rightarrow> string option" where
  "resolve_version requested available fallback =
     (if requested \<in> set available then Some requested
      else if fallback then
        let stable_candidates = rev (sort (filter (\<lambda>v. v \<in> set available) ABI_VERSIONS))
        in (case stable_candidates of v # _ \<Rightarrow> Some v | [] \<Rightarrow> None)
      else None)"



section \<open>What the operations compute\<close>

lemma split_at_dot:
  assumes "CHR ''.'' \<in> set rest"
  shows "takeWhile (\<lambda>x. x \<noteq> CHR ''.'') rest @ ''.'' @ tl (dropWhile (\<lambda>x. x \<noteq> CHR ''.'') rest) = rest"
proof -
  have ne: "dropWhile (\<lambda>x. x \<noteq> CHR ''.'') rest \<noteq> []" using assms by auto
  then have "hd (dropWhile (\<lambda>x. x \<noteq> CHR ''.'') rest) = CHR ''.''" using hd_dropWhile by blast
  then have "''.'' @ tl (dropWhile (\<lambda>x. x \<noteq> CHR ''.'') rest) = dropWhile (\<lambda>x. x \<noteq> CHR ''.'') rest"
    using ne by (metis append_Cons append_Nil list.collapse)
  then show ?thesis by simp
qed

lemma takeWhile_until:
  "c \<notin> set v \<Longrightarrow> takeWhile (\<lambda>x. x \<noteq> c) (v @ c # a) = v"
  "c \<notin> set v \<Longrightarrow> tl (dropWhile (\<lambda>x. x \<noteq> c) (v @ c # a)) = a"
  by (induction v) auto

lemma parse_syscall_name_split:
  "parse_syscall_name name = Inr (v, a) \<longleftrightarrow>
     (\<exists>rest. name = ''sys.'' @ rest \<and> CHR ''.'' \<in> set rest \<and> v \<noteq> [] \<and> a \<noteq> []
        \<and> v = takeWhile (\<lambda>x. x \<noteq> CHR ''.'') rest
        \<and> a = tl (dropWhile (\<lambda>x. x \<noteq> CHR ''.'') rest))"
proof (cases "prefix ''sys.'' name")
  case True
  then obtain rest where n: "name = ''sys.'' @ rest" by (auto elim: prefixE)
  then show ?thesis
    by (auto simp: parse_syscall_name_def SYSCALL_PREFIX_def Let_def py_find_take)
next
  case False
  then show ?thesis by (auto simp: parse_syscall_name_def SYSCALL_PREFIX_def)
qed

text \<open>A schema whose sections have the documented shape.\<close>

definition wf_spec :: "string \<times> pyval \<Rightarrow> bool" where
  "wf_spec kv \<longleftrightarrow> (case snd kv of PDict sp \<Rightarrow> hashable (pget sp ''type'') | _ \<Rightarrow> False)"

definition wf_schema :: "payload \<Rightarrow> bool" where
  "wf_schema schema \<longleftrightarrow>
     (case pget schema ''required'' of
        PNone \<Rightarrow> True
      | PList xs \<Rightarrow> list_all (\<lambda>x. py_isinstance x T_str) xs
      | _ \<Rightarrow> False) \<and>
     (case pget schema ''properties'' of
        PNone \<Rightarrow> True
      | PDict d \<Rightarrow> list_all wf_spec d
      | _ \<Rightarrow> False)"

definition missing :: "payload \<Rightarrow> pyval \<Rightarrow> bool" where
  "missing payload fname \<longleftrightarrow> pget_key payload fname = None \<or> pget_key payload fname = Some PNone"

definition ill_typed :: "payload \<Rightarrow> string \<times> pyval \<Rightarrow> bool" where
  "ill_typed payload kv \<longleftrightarrow>
     (case (dget payload (fst kv), snd kv) of
        (Some actual, PDict sp) \<Rightarrow>
          (case expected_type (pget sp ''type'') of
             Inr (Some t) \<Rightarrow> \<not> py_isinstance actual t | _ \<Rightarrow> False)
      | _ \<Rightarrow> False)"

lemma check_required_filter:
  assumes "list_all hashable req"
  shows "check_required payload req errors =
    Inr (errors @ map (\<lambda>f. ''Missing required field: '' @ py_repr f) (filter (missing payload) req))"
  using assms by (induction req arbitrary: errors) (auto simp: missing_def)

lemma expected_type_hashable:
  "hashable v \<Longrightarrow> \<exists>t. expected_type v = Inr t"
  by (cases v) (auto simp: expected_type_def hashable_def)

definition type_error :: "payload \<Rightarrow> string \<times> pyval \<Rightarrow> string" where
  "type_error payload kv =
     ''Field '' @ repr_str (fst kv) @ '': expected type '' @
     (case snd kv of PDict sp \<Rightarrow> py_repr (pget sp ''type'') | _ \<Rightarrow> []) @ '', got '' @
     repr_str (type_name (dget_or payload (fst kv) PNone))"

lemma check_types_filter:
  assumes "list_all wf_spec props"
  shows "check_types payload props errors =
    Inr (errors @ map (type_error payload) (filter (ill_typed payload) props))"
  using assms
proof (induction props arbitrary: errors)
  case (Cons kv props)
  obtain f v where kv: "kv = (f, v)" by (cases kv)
  obtain sp where v: "v = PDict sp" and h: "hashable (pget sp ''type'')"
    using Cons.prems kv by (cases v) (auto simp: wf_spec_def)
  obtain t where "expected_type (pget sp ''type'') = Inr t" using expected_type_hashable [OF h] ..
  then show ?case using Cons kv v
    by (cases t) (auto simp: ill_typed_def type_error_def dget_or_def split: option.splits)
qed simp

lemma wf_schema_sections:
  assumes "wf_schema schema"
  shows "\<exists>req. schema_required schema = Inr req \<and> list_all hashable req"
    and "\<exists>props. schema_properties schema = Inr props \<and> list_all wf_spec props"
proof -
  have "hashable x" if "py_isinstance x T_str" for x
    using that by (cases x) (auto simp: hashable_def)
  then show "\<exists>req. schema_required schema = Inr req \<and> list_all hashable req"
    using assms by (auto simp: wf_schema_def schema_required_def list_all_iff Let_def split: pyval.splits)
  show "\<exists>props. schema_properties schema = Inr props \<and> list_all wf_spec props"
    using assms by (auto simp: wf_schema_def schema_properties_def Let_def split: pyval.splits)
qed


lemma resolve_version_iff:
  "resolve_version requested available fallback = Some v \<longleftrightarrow>
     v \<in> set available \<and> (v = requested \<or> requested \<notin> set available \<and> fallback \<and> v = LATEST_STABLE_VERSION)"
  by (auto simp: resolve_version_def ABI_VERSIONS_def LATEST_STABLE_VERSION_def Let_def)


section \<open>Properties\<close>

text \<open>
  Parsing a syscall name inverts printing it: the parse succeeds exactly on the names
  \<^verbatim>\<open>sys.<version>.<action>\<close> with a nonempty version that has no dot and a nonempty action, and
  gives back those two parts; every other text raises \<^verbatim>\<open>ValueError\<close>.
\<close>

theorem parse_syscall_name_iff:
  "(parse_syscall_name name = Inr (version, action) \<longleftrightarrow>
      name = ''sys.'' @ version @ ''.'' @ action \<and> version \<noteq> [] \<and> CHR ''.'' \<notin> set version \<and> action \<noteq> [])
   \<and> (\<exists>m va. parse_syscall_name name = Inl (ValueError m) \<or> parse_syscall_name name = Inr va)"
proof
  show "parse_syscall_name name = Inr (version, action) \<longleftrightarrow>
      name = ''sys.'' @ version @ ''.'' @ action \<and> version \<noteq> [] \<and> CHR ''.'' \<notin> set version \<and> action \<noteq> []"
    (is "?parsed \<longleftrightarrow> ?printed")
  proof
    assume ?parsed
    then obtain rest where r: "name = ''sys.'' @ rest" "CHR ''.'' \<in> set rest"
      and v: "version = takeWhile (\<lambda>x. x \<noteq> CHR ''.'') rest" "version \<noteq> []"
      and a: "action = tl (dropWhile (\<lambda>x. x \<noteq> CHR ''.'') rest)" "action \<noteq> []"
      unfolding parse_syscall_name_split by blast
    have "CHR ''.'' \<notin> set version" using v(1) set_takeWhileD by fastforce
    then show ?printed using r v a split_at_dot [OF r(2)] by metis
  next
    assume ?printed
    then show ?parsed
      unfolding parse_syscall_name_split
      by (intro exI [where x = "version @ CHR ''.'' # action"]) (simp add: takeWhile_until)
  qed
  show "\<exists>m va. parse_syscall_name name = Inl (ValueError m) \<or> parse_syscall_name name = Inr va"
    unfolding parse_syscall_name_def Let_def by (auto split: if_splits)
qed

text \<open>
  Against a schema of the documented shape the validator never raises, and its errors are
  exactly one message per required field that is absent or \<^verbatim>\<open>None\<close>, in the order of the schema,
  followed by one per present field whose value is not of the declared type; so it returns no error
  exactly when the payload meets the schema.
\<close>

theorem validate_payload_exact:
  assumes "wf_schema schema"
  shows "\<exists>req props. schema_required schema = Inr req \<and> schema_properties schema = Inr props
    \<and> validate_payload schema payload =
        Inr (map (\<lambda>f. ''Missing required field: '' @ py_repr f) (filter (missing payload) req)
             @ map (type_error payload) (filter (ill_typed payload) props))"
proof -
  obtain req props where "schema_required schema = Inr req" "list_all hashable req"
    and "schema_properties schema = Inr props" "list_all wf_spec props"
    using wf_schema_sections [OF assms] by blast
  moreover have "req = [] \<and> props = []" if "schema = []"
    using that calculation by (simp add: schema_required_def schema_properties_def pget_def dget_or_def)
  ultimately show ?thesis
    by (cases "schema = []")
       (auto simp: validate_payload_def check_required_filter check_types_filter)
qed

definition sample_schema :: payload where
  "sample_schema =
     [(''required'', PList [PStr ''path'']),
      (''properties'', PDict [(''path'', PDict [(''type'', PStr ''string'')]),
                              (''limit'', PDict [(''type'', PStr ''int'')])])]"

theorem validate_payload_exact_witness:
  "validate_payload sample_schema [(''limit'', PStr ''ten'')] =
     Inr [''Missing required field: '' @ py_repr (PStr ''path''),
          type_error [(''limit'', PStr ''ten'')] (''limit'', PDict [(''type'', PStr ''int'')])]"
proof -
  have "wf_schema sample_schema"
    by (simp add: wf_schema_def sample_schema_def pget_def dget_or_def wf_spec_def hashable_def)
  from validate_payload_exact [OF this, of "[(''limit'', PStr ''ten'')]"] show ?thesis
    by (simp add: sample_schema_def schema_required_def schema_properties_def pget_def dget_or_def
        missing_def ill_typed_def pget_key_def expected_type_def hashable_def SCHEMA_TYPE_MAP_def)
qed

end
