(* ===== verification/Tenant_Context.thy ===== *)
theory Tenant_Context
  imports Py_Values
begin

text \<open>
  \<^verbatim>\<open>AINDY/kernel/tenant_context.py\<close>: the rule that says which memory paths a tenant owns, and
  the frozen context that carries a caller's tenant and capabilities.
\<close>

definition TENANT_VIOLATION :: string where
  "TENANT_VIOLATION = ''TENANT_VIOLATION''"

definition RESOURCE_LIMIT_EXCEEDED :: string where
  "RESOURCE_LIMIT_EXCEEDED = ''RESOURCE_LIMIT_EXCEEDED''"

definition MEMORY_ROOT :: string where
  "MEMORY_ROOT = ''/memory''"

text \<open>\<^verbatim>\<open>re.sub("/+", "/", s)\<close>.\<close>

fun collapse_slashes :: "string \<Rightarrow> string" where
  "collapse_slashes [] = []"
| "collapse_slashes (c # cs) =
     (if c = CHR ''/'' \<and> take 1 cs = ''/'' then collapse_slashes cs else c # collapse_slashes cs)"

definition strip_trailing_slash :: "string \<Rightarrow> string" where
  "strip_trailing_slash cleaned =
     (if cleaned \<noteq> MEMORY_ROOT \<and> suffix ''/'' cleaned
      then py_rstrip_chars (\<lambda>c. c = CHR ''/'') cleaned else cleaned)"

definition tenant_owns_memory_path :: "string \<Rightarrow> string \<Rightarrow> bool" where
  "tenant_owns_memory_path path tenant_id =
     (let cleaned = strip_trailing_slash (collapse_slashes (py_strip path));
          root = MEMORY_ROOT @ ''/'' @ tenant_id
      in cleaned = root \<or> prefix (root @ ''/'') cleaned)"

record TenantContext =
  tc_tenant_id :: string
  tc_user_id :: string
  tc_namespace :: string
  tc_capability_scope :: "string list"

definition memory_prefix :: "TenantContext \<Rightarrow> string" where
  "memory_prefix tc = MEMORY_ROOT @ ''/'' @ tc_tenant_id tc @ ''/''"

definition validate_memory_path :: "TenantContext \<Rightarrow> string \<Rightarrow> bool" where
  "validate_memory_path tc path = tenant_owns_memory_path path (tc_tenant_id tc)"

definition assert_memory_path :: "TenantContext \<Rightarrow> string \<Rightarrow> py_exc + unit" where
  "assert_memory_path tc path =
     (if \<not> validate_memory_path tc path
      then Inl (PermissionError (TENANT_VIOLATION @ '': memory path '' @ repr_str path @
             '' is outside tenant namespace '' @ repr_str (memory_prefix tc)))
      else Inr ())"

definition assert_same_tenant :: "TenantContext \<Rightarrow> string \<Rightarrow> py_exc + unit" where
  "assert_same_tenant tc other_tenant_id =
     (if other_tenant_id \<noteq> tc_tenant_id tc
      then Inl (PermissionError (TENANT_VIOLATION @ '': tenant '' @ repr_str (tc_tenant_id tc) @
             '' attempted to access resource owned by tenant '' @ repr_str other_tenant_id))
      else Inr ())"

definition has_capability :: "TenantContext \<Rightarrow> string \<Rightarrow> bool" where
  "has_capability tc cap \<longleftrightarrow> cap \<in> set (tc_capability_scope tc)"

text \<open>The scope is printed as the tuple it is: one element takes a trailing comma.\<close>

definition repr_tuple :: "string list \<Rightarrow> string" where
  "repr_tuple xs = ''('' @ py_join '', '' (map repr_str xs) @ (if length xs = 1 then '','' else []) @ '')''"

definition assert_capability :: "TenantContext \<Rightarrow> string \<Rightarrow> py_exc + unit" where
  "assert_capability tc cap =
     (if \<not> has_capability tc cap
      then Inl (PermissionError (TENANT_VIOLATION @ '': tenant '' @ repr_str (tc_tenant_id tc) @
             '' does not have capability '' @ repr_str cap @ ''; granted: '' @
             repr_tuple (tc_capability_scope tc)))
      else Inr ())"



definition build_tenant_context ::
  "string option \<Rightarrow> string list option \<Rightarrow> string option \<Rightarrow> TenantContext" where
  "build_tenant_context user_id caps tenant =
     (let resolved_tenant = or_text tenant (or_text user_id []);
          resolved_user = or_text user_id []
      in \<lparr>tc_tenant_id = resolved_tenant, tc_user_id = resolved_user,
          tc_namespace = ''tenant:'' @ resolved_tenant,
          tc_capability_scope = (case caps of None \<Rightarrow> [] | Some cs \<Rightarrow> cs)\<rparr>)"

definition tenant_context_from_syscall_context :: "string option \<Rightarrow> string list \<Rightarrow> TenantContext" where
  "tenant_context_from_syscall_context ctx_user_id ctx_capabilities =
     build_tenant_context (Some (or_text ctx_user_id [])) (Some ctx_capabilities) None"


section \<open>Canonical paths\<close>

definition no_double_slash :: "string \<Rightarrow> bool" where
  "no_double_slash s \<longleftrightarrow> \<not> sublist ''//'' s"

lemma collapse_hd: "take 1 (collapse_slashes s) = take 1 s"
  by (induction s) (auto simp: take_Cons')

lemma collapse_no_double: "no_double_slash (collapse_slashes s)"
proof (induction s)
  case (Cons c cs)
  then show ?case
    using collapse_hd [of cs]
    by (auto simp: no_double_slash_def sublist_Cons_right prefix_Cons)
       (metis append_Cons prefixE take0 take_Suc_Cons)
qed (simp add: no_double_slash_def)

lemma no_double_slash_prefix: "prefix t s \<Longrightarrow> no_double_slash s \<Longrightarrow> no_double_slash t"
  unfolding no_double_slash_def by (meson prefix_imp_sublist sublist_order.order_trans)

lemma rstrip_prefix: "prefix (py_rstrip_chars p s) s"
  unfolding py_rstrip_chars_def by (metis suffix_dropWhile suffix_to_prefix rev_rev_ident)

lemma rstrip_end: "\<not> suffix ''/'' (py_rstrip_chars (\<lambda>c. c = CHR ''/'') s)"
proof
  assume "suffix ''/'' (py_rstrip_chars (\<lambda>c. c = CHR ''/'') s)"
  then have "prefix ''/'' (dropWhile (\<lambda>c. c = CHR ''/'') (rev s))"
    by (simp add: py_rstrip_chars_def suffix_to_prefix)
  then show False
    by (metis (mono_tags, lifting) hd_dropWhile list.sel(1) prefixE append_Cons list.distinct(1))
qed

text \<open>The form every path is brought to before it is compared.\<close>

definition canonical :: "string \<Rightarrow> string" where
  "canonical path = strip_trailing_slash (collapse_slashes (py_strip path))"

lemma canonical_shape:
  "no_double_slash (canonical path)" "\<not> suffix ''/'' (canonical path)"
proof -
  let ?c = "collapse_slashes (py_strip path)"
  have "prefix (canonical path) ?c"
    using rstrip_prefix by (auto simp: canonical_def strip_trailing_slash_def)
  then show "no_double_slash (canonical path)"
    using collapse_no_double no_double_slash_prefix by blast
  have "\<not> suffix ''/'' MEMORY_ROOT" by (simp add: MEMORY_ROOT_def suffix_to_prefix)
  then show "\<not> suffix ''/'' (canonical path)"
    using rstrip_end by (auto simp: canonical_def strip_trailing_slash_def)
qed

lemma owns_iff:
  "tenant_owns_memory_path path t \<longleftrightarrow>
     (\<exists>rest. canonical path = ''/memory/'' @ t @ rest \<and> (rest = [] \<or> (\<exists>r. rest = CHR ''/'' # r)))"
  unfolding tenant_owns_memory_path_def canonical_def [symmetric] Let_def MEMORY_ROOT_def
  by (auto simp: prefix_def conj_disj_distribL ex_disj_distrib)


text \<open>What follows the tenant segment never matters: the segment itself is read off the path.\<close>

lemma owner_segment:
  assumes "tenant_owns_memory_path path t" "CHR ''/'' \<notin> set t"
  shows "t = takeWhile (\<lambda>c. c \<noteq> CHR ''/'') (drop 8 (canonical path))"
proof -
  obtain rest where c: "canonical path = ''/memory/'' @ t @ rest"
    and r: "rest = [] \<or> (\<exists>r. rest = CHR ''/'' # r)"
    using assms(1) unfolding owns_iff by blast
  have "takeWhile (\<lambda>c. c \<noteq> CHR ''/'') (t @ rest) = t"
    using assms(2) r by (subst takeWhile_append2) auto
  then show ?thesis using c by simp
qed

lemma empty_owns_nothing: "\<not> tenant_owns_memory_path path []"
proof
  assume "tenant_owns_memory_path path []"
  then obtain rest where c: "canonical path = ''/memory/'' @ rest"
    and r: "rest = [] \<or> (\<exists>r. rest = CHR ''/'' # r)"
    unfolding owns_iff by auto
  have "rest \<noteq> []" using c canonical_shape(2) [of path] by (auto simp: suffix_to_prefix)
  then obtain r' where "canonical path = ''/memory'' @ ''//'' @ r'" using c r by auto
  then have "sublist ''//'' (canonical path)" unfolding sublist_def by blast
  then show False using canonical_shape(1) [of path] by (simp add: no_double_slash_def)
qed


section \<open>The contract of a tenant guard\<close>

text \<open>
  A guard answers whether a path may be used for a tenant. What its clients rely on: it answers
  the same for two spellings of one path, it never admits the empty tenant, and the tenant it
  admits is the segment after the root.
\<close>

locale tenant_guard =
  fixes admits :: "string \<Rightarrow> string \<Rightarrow> bool"
  assumes spelling: "canonical p = canonical q \<Longrightarrow> admits p t = admits q t"
    and no_empty: "\<not> admits p []"
    and segment: "admits p t \<Longrightarrow> CHR ''/'' \<notin> set t \<Longrightarrow>
      t = takeWhile (\<lambda>c. c \<noteq> CHR ''/'') (drop 8 (canonical p))"
begin

lemma isolation:
  assumes "admits p t" "admits q t'" "canonical p = canonical q"
    and "CHR ''/'' \<notin> set t" "CHR ''/'' \<notin> set t'"
  shows "t = t' \<and> t \<noteq> []"
  using segment [OF assms(1,4)] segment [OF assms(2,5)] assms(1,3) no_empty by auto

end

interpretation ctx_guard: tenant_guard "\<lambda>p t. validate_memory_path (build_tenant_context (Some t) None None) p"
proof
  show "validate_memory_path (build_tenant_context (Some t) None None) p =
      validate_memory_path (build_tenant_context (Some t) None None) q"
    if "canonical p = canonical q" for p q t
    using that by (simp add: validate_memory_path_def owns_iff)
  show "\<not> validate_memory_path (build_tenant_context (Some []) None None) p" for p
    by (simp add: validate_memory_path_def build_tenant_context_def or_text_def empty_owns_nothing)
  show "t = takeWhile (\<lambda>c. c \<noteq> CHR ''/'') (drop 8 (canonical p))"
    if "validate_memory_path (build_tenant_context (Some t) None None) p" "CHR ''/'' \<notin> set t" for p t
    using that owner_segment
    by (simp add: validate_memory_path_def build_tenant_context_def or_text_def split: if_splits)
qed


section \<open>Properties\<close>

text \<open>
  C2. Tenant isolation: of two tenants whose identifiers have no slash, at most one passes
  \<^verbatim>\<open>assert_memory_path\<close> for a path, whatever spelling each of them uses for it (extra slashes, a
  trailing slash, white space around it), and no path passes for an empty tenant.
\<close>

theorem tenant_isolation:
  assumes "assert_memory_path (build_tenant_context (Some t) None None) p = Inr ()"
    and "assert_memory_path (build_tenant_context (Some t') None None) q = Inr ()"
    and "canonical p = canonical q" "CHR ''/'' \<notin> set t" "CHR ''/'' \<notin> set t'"
  shows "t = t' \<and> t \<noteq> []"
  using assms
  by (intro ctx_guard.isolation [of t p t' q]) (auto simp: assert_memory_path_def split: if_splits)

theorem tenant_isolation_witness:
  "assert_memory_path (build_tenant_context (Some ''t12'') None None) '' /memory//t12/a/ '' = Inr ()
   \<and> assert_memory_path (build_tenant_context (Some ''t1'') None None) ''/memory/t12/a'' \<noteq> Inr ()"
proof -
  have *: "assert_memory_path (build_tenant_context (Some ''t12'') None None) '' /memory//t12/a/ '' = Inr ()"
    and "canonical '' /memory//t12/a/ '' = canonical ''/memory/t12/a''"
    by code_simp+
  then show ?thesis using tenant_isolation [OF *, of "''t1''" "''/memory/t12/a''"] by auto
qed

end
