(* ===== verification/Memory_Address_Space.thy ===== *)
theory Memory_Address_Space
  imports Tenant_Context "HOL-Library.Multiset"
begin

text \<open>
  \<^verbatim>\<open>AINDY/memory/memory_address_space.py\<close>: the path-addressed name space of memory nodes. A node
  is a dictionary; \<open>fresh\<close> arguments are the texts \<^verbatim>\<open>str(uuid.uuid4())\<close> returns.
\<close>

definition MAS_ROOT :: string where
  "MAS_ROOT = ''/memory''"

definition LEGACY_NAMESPACE :: string where
  "LEGACY_NAMESPACE = ''_legacy''"

definition normalize_path :: "string \<Rightarrow> py_exc + string" where
  "normalize_path path =
     (if path = [] then Inl (ValueError ''MAS path must not be empty'')
      else
        let cleaned = collapse_slashes (py_strip path) in
        if \<not> prefix MAS_ROOT cleaned
        then Inl (ValueError (''MAS path must start with '' @ repr_str MAS_ROOT @ ''; got '' @ repr_str path))
        else if cleaned \<noteq> MAS_ROOT \<and> suffix ''/'' cleaned
        then Inr (py_rstrip_chars (\<lambda>c. c = CHR ''/'') cleaned)
        else Inr cleaned)"

definition validate_tenant_path :: "string \<Rightarrow> string \<Rightarrow> py_exc + unit" where
  "validate_tenant_path path tenant_id =
     (let expected_prefix = MAS_ROOT @ ''/'' @ tenant_id @ ''/'' in
      if \<not> tenant_owns_memory_path path tenant_id
      then Inl (PermissionError (TENANT_VIOLATION @ '': path '' @ repr_str path @
             '' is not under tenant namespace '' @ repr_str expected_prefix))
      else Inr ())"

text \<open>The dictionary \<^verbatim>\<open>parse_path\<close> returns has these four keys.\<close>

record mas_parts =
  mp_tenant_id :: "string option"
  mp_namespace :: "string option"
  mp_addr_type :: "string option"
  mp_node_id :: "string option"

definition segment_at :: "string list \<Rightarrow> nat \<Rightarrow> string option" where
  "segment_at segs i = (if i < length segs \<and> segs ! i \<noteq> [] then Some (segs ! i) else None)"

definition parse_path :: "string \<Rightarrow> py_exc + mas_parts" where
  "parse_path path =
     bind_result (normalize_path path) (\<lambda>p.
       let segs = py_split CHR ''/'' p in
       Inr \<lparr>mp_tenant_id = segment_at segs 2, mp_namespace = segment_at segs 3,
            mp_addr_type = segment_at segs 4, mp_node_id = segment_at segs 5\<rparr>)"

text \<open>\<^verbatim>\<open>"/".join(parts)\<close>: every part has to be a string.\<close>

definition join_parts :: "pyval list \<Rightarrow> py_exc + string" where
  "join_parts parts =
     (if list_all (\<lambda>v. py_isinstance v T_str) parts then Inr (py_join ''/'' (map py_str parts))
      else Inl (TypeError ''sequence item: expected str instance''))"

definition build_path :: "pyval \<Rightarrow> pyval \<Rightarrow> pyval \<Rightarrow> pyval \<Rightarrow> py_exc + string" where
  "build_path tenant_id namespace addr_type node_id =
     (if \<not> truthy tenant_id then Inl (ValueError ''MAS build_path: tenant_id is required'')
      else
        let parts = [PStr MAS_ROOT, tenant_id];
            parts = (if truthy namespace then parts @ [namespace] else parts)
        in if truthy addr_type \<and> \<not> truthy namespace
           then Inl (ValueError ''MAS build_path: addr_type requires namespace'')
           else
             let parts = (if truthy addr_type then parts @ [addr_type] else parts)
             in if truthy node_id \<and> \<not> (truthy namespace \<and> truthy addr_type)
                then Inl (ValueError ''MAS build_path: node_id requires namespace and addr_type'')
                else join_parts (if truthy node_id then parts @ [PStr (py_str node_id)] else parts))"

definition generate_node_path :: "string \<Rightarrow> pyval \<Rightarrow> pyval \<Rightarrow> pyval \<Rightarrow> py_exc + string \<times> string" where
  "generate_node_path fresh tenant_id namespace addr_type =
     bind_result (build_path tenant_id namespace addr_type (PStr fresh)) (\<lambda>full_path.
       Inr (full_path, fresh))"

text \<open>\<^verbatim>\<open>a or b\<close> on values.\<close>

definition por :: "pyval \<Rightarrow> pyval \<Rightarrow> pyval" where
  "por a b = (if truthy a then a else b)"

definition derive_legacy_path :: "string \<Rightarrow> payload \<Rightarrow> py_exc + string" where
  "derive_legacy_path fresh node_dict =
     (let user_id = por (pget node_dict ''user_id'') (PStr ''unknown'');
          memory_type = por (pget node_dict ''memory_type'')
            (por (pget node_dict ''node_type'') (PStr ''insight''));
          node_id = por (pget node_dict ''id'') (PStr fresh)
      in build_path user_id (PStr LEGACY_NAMESPACE) memory_type node_id)"

definition py_rfind :: "char \<Rightarrow> string \<Rightarrow> int" where
  "py_rfind c s = (let i = py_find c (rev s) in if i = -1 then -1 else int (length s) - 1 - i)"

definition parent_path_of :: "string \<Rightarrow> py_exc + string" where
  "parent_path_of path =
     bind_result (normalize_path path) (\<lambda>p.
       let idx = py_rfind CHR ''/'' p in
       if idx \<le> int (length MAS_ROOT) then Inr MAS_ROOT else Inr (take (nat idx) p))"

definition is_exact :: "string \<Rightarrow> bool" where
  "is_exact path \<longleftrightarrow> CHR ''*'' \<notin> set path \<and> \<not> sublist ''**'' path"

definition is_wildcard :: "string \<Rightarrow> py_exc + bool" where
  "is_wildcard path =
     bind_result (normalize_path path) (\<lambda>p. Inr (suffix ''/*'' p \<and> \<not> suffix ''/**'' p))"

definition is_recursive :: "string \<Rightarrow> py_exc + bool" where
  "is_recursive path = bind_result (normalize_path path) (\<lambda>p. Inr (suffix ''/**'' p))"

definition wildcard_prefix :: "string \<Rightarrow> py_exc + string" where
  "wildcard_prefix path =
     bind_result (normalize_path path) (\<lambda>p.
       if suffix ''/**'' p then Inr (take (length p - 3) p)
       else if suffix ''/*'' p then Inr (take (length p - 2) p)
       else parent_path_of p)"

text \<open>
  The result is \<^verbatim>\<open>(full_path, namespace, addr_type)\<close>; a path that is no string has no
  \<^verbatim>\<open>strip\<close>.
\<close>

definition path_from_write_payload ::
  "string \<Rightarrow> payload \<Rightarrow> string \<Rightarrow> py_exc + string \<times> pyval \<times> pyval" where
  "path_from_write_payload fresh payload tenant_id =
     (let node_type = dget_or payload ''node_type'' (PStr ''general'') in
      if truthy (pget payload ''path'') then
        (case pget payload ''path'' of
           PStr path \<Rightarrow>
             bind_result (normalize_path path) (\<lambda>raw.
             bind_result (validate_tenant_path raw tenant_id) (\<lambda>_.
             bind_result (parse_path raw) (\<lambda>parsed.
               let ns = (case mp_namespace parsed of Some s \<Rightarrow> PStr s | None \<Rightarrow> PStr ''general'');
                   at = (case mp_addr_type parsed of Some s \<Rightarrow> PStr s | None \<Rightarrow> node_type)
               in if mp_node_id parsed \<noteq> None then Inr (raw, ns, at)
                  else bind_result (generate_node_path fresh (PStr tenant_id) ns at) (\<lambda>(full_path, _).
                    Inr (full_path, ns, at)))))
         | v \<Rightarrow> Inl (AttributeError (type_name v @ '' object has no attribute strip'')))
      else
        let ns = por (pget payload ''namespace'') (PStr ''general'');
            at = por (pget payload ''addr_type'') node_type
        in bind_result (generate_node_path fresh (PStr tenant_id) ns at) (\<lambda>(full_path, _).
             Inr (full_path, ns, at)))"



section \<open>Trees\<close>

text \<open>\<^verbatim>\<open>{path: {"node": n, "children": [...]}}\<close> in insertion order.\<close>

type_synonym mas_tree = "(payload \<times> string list) dict"

definition node_path :: "string \<Rightarrow> payload \<Rightarrow> py_exc + string" where
  "node_path fresh n =
     (if truthy (pget n ''path'') then
        (case pget n ''path'' of
           PStr p \<Rightarrow> Inr p
         | v \<Rightarrow> if hashable v then Inl (AttributeError (type_name v @ '' object has no attribute strip''))
               else Inl (TypeError ''unhashable type''))
      else derive_legacy_path fresh n)"

text \<open>The first loop of \<^verbatim>\<open>build_tree\<close>; \<open>fresh i\<close> is the identifier drawn for the i-th node.\<close>

fun collect_nodes ::
  "(nat \<Rightarrow> string) \<Rightarrow> nat \<Rightarrow> payload list \<Rightarrow> mas_tree \<Rightarrow> string list dict
   \<Rightarrow> py_exc + mas_tree \<times> string list dict" where
  "collect_nodes fresh i [] by_path children_map = Inr (by_path, children_map)"
| "collect_nodes fresh i (n # ns) by_path children_map =
     bind_result (node_path (fresh i) n) (\<lambda>path.
     bind_result (parent_path_of path) (\<lambda>parent.
       collect_nodes fresh (Suc i) ns (dset path (n, []) by_path)
         (dset parent (dget_or children_map parent [] @ [path]) children_map)))"

definition set_children :: "mas_tree \<Rightarrow> string \<times> string list \<Rightarrow> mas_tree" where
  "set_children by_path pc =
     (case dget by_path (fst pc) of
        Some (n, _) \<Rightarrow> dset (fst pc) (n, snd pc) by_path
      | None \<Rightarrow> by_path)"

definition build_tree :: "(nat \<Rightarrow> string) \<Rightarrow> payload list \<Rightarrow> py_exc + mas_tree" where
  "build_tree fresh nodes =
     bind_result (collect_nodes fresh 0 nodes [] []) (\<lambda>(by_path, children_map).
       Inr (foldl set_children by_path children_map))"

text \<open>
  The inner function \<^verbatim>\<open>_walk\<close> with its pending calls as a list: a call that finds its path visited
  or absent returns, any other marks it, emits the node and calls itself on the children in order.
\<close>

function walk ::
  "mas_tree \<Rightarrow> string list \<Rightarrow> string list \<Rightarrow> payload list \<Rightarrow> string list \<times> payload list" where
  "walk tree [] visited result = (visited, result)"
| "walk tree (path # calls) visited result =
     (if path \<in> set visited then walk tree calls visited result
      else case dget tree path of
          None \<Rightarrow> walk tree calls visited result
        | Some (node, children) \<Rightarrow>
            walk tree (children @ calls) (visited @ [path]) (result @ [node]))"
  by pat_completeness auto

termination
proof (relation "measures [\<lambda>(tree, calls, visited, result). card (set (dkeys tree) - set visited),
    \<lambda>(tree, calls, visited, result). length calls]", goal_cases)
  case (4 tree path calls visited result entry node children)
  then have "path \<in> set (dkeys tree) - set visited"
    by (auto dest!: map_of_SomeD simp: rev_image_eqI)
  then have "card (set (dkeys tree) - set (visited @ [path])) < card (set (dkeys tree) - set visited)"
    by (intro psubset_card_mono) auto
  then show ?case by simp
qed auto

text \<open>The set comprehension that finds the roots, over the keys in order; a key that has no parent path raises.\<close>

fun tree_roots :: "mas_tree \<Rightarrow> string list \<Rightarrow> py_exc + string list" where
  "tree_roots tree [] = Inr []"
| "tree_roots tree (path # paths) =
     bind_result (parent_path_of path) (\<lambda>parent.
     bind_result (tree_roots tree paths) (\<lambda>roots.
       Inr (if dget tree parent = None then path # roots else roots)))"

definition flatten_tree :: "mas_tree \<Rightarrow> py_exc + payload list" where
  "flatten_tree tree =
     (if tree = [] then Inr []
      else bind_result (tree_roots tree (dkeys tree)) (\<lambda>roots.
        let (visited, result) = walk tree (sort roots) [] [];
            (_, result) = walk tree (sort (dkeys tree)) visited result
        in Inr result))"

definition enrich_node_with_path :: "string \<Rightarrow> payload \<Rightarrow> py_exc + payload" where
  "enrich_node_with_path fresh node_dict =
     (if \<not> truthy (pget node_dict ''path'')
      then bind_result (derive_legacy_path fresh node_dict) (\<lambda>p. Inr (dset ''path'' (PStr p) node_dict))
      else Inr node_dict)"


section \<open>Flattening a tree\<close>

definition node_at :: "mas_tree \<Rightarrow> string \<Rightarrow> payload" where
  "node_at tree p = (case dget tree p of Some (n, _) \<Rightarrow> n | None \<Rightarrow> [])"

lemma walk_visits:
  assumes "walk tree calls visited result = (visited', result')"
    and "distinct visited" "set visited \<subseteq> set (dkeys tree)" "result = map (node_at tree) visited"
  shows "distinct visited' \<and> set visited \<union> (set calls \<inter> set (dkeys tree)) \<subseteq> set visited'
    \<and> set visited' \<subseteq> set (dkeys tree) \<and> result' = map (node_at tree) visited'"
  using assms
proof (induction tree calls visited result arbitrary: visited' result' rule: walk.induct)
  case (2 tree path calls visited result)
  show ?case
  proof (cases "path \<in> set visited \<or> dget tree path = None")
    case True
    then have w: "walk tree calls visited result = (visited', result')"
      using 2(4) by (auto split: if_splits)
    have p: "path \<in> set visited \<or> path \<notin> set (dkeys tree)"
      using True by (auto simp: map_of_eq_None_iff)
    have "distinct visited' \<and> set visited \<union> (set calls \<inter> set (dkeys tree)) \<subseteq> set visited'
        \<and> set visited' \<subseteq> set (dkeys tree) \<and> result' = map (node_at tree) visited'"
    proof (cases "path \<in> set visited")
      case True
      then show ?thesis by (rule 2(1) [OF _ w 2(5-7)])
    next
      case False
      then show ?thesis using True by (intro 2(2) [OF _ _ w 2(5-7)]) auto
    qed
    then show ?thesis using p by auto
  next
    case False
    then obtain node children where e: "dget tree path = Some (node, children)" by auto
    have "path \<in> set (dkeys tree)" using e by (metis domI dom_map_of_conv_image_fst set_map)
    then show ?thesis
      using 2(3) [OF _ e refl, of visited' result'] 2(4-7) False e by (auto simp: node_at_def)
  qed
qed simp

lemma walk_all:
  assumes "walk tree calls [] [] = (visited, result)"
    and "walk tree (sort (dkeys tree)) visited result = (visited', result')"
    and "distinct (dkeys tree)"
  shows "mset result' = mset (map (\<lambda>e. fst (snd e)) tree)"
proof -
  have 1: "distinct visited" "set visited \<subseteq> set (dkeys tree)" "result = map (node_at tree) visited"
    using walk_visits [OF assms(1)] by simp_all
  have 2: "distinct visited'" "set visited' = set (dkeys tree)" "result' = map (node_at tree) visited'"
    using walk_visits [OF assms(2) 1] by auto
  then have "mset visited' = mset (dkeys tree)" using assms(3) set_eq_iff_mset_eq_distinct by blast
  then have "mset result' = image_mset (node_at tree) (mset (dkeys tree))" using 2(3) by simp
  also have "\<dots> = mset (map (\<lambda>e. node_at tree (fst e)) tree)"
    by (simp add: multiset.map_comp comp_def)
  also have "map (\<lambda>e. node_at tree (fst e)) tree = map (\<lambda>e. fst (snd e)) tree"
    using assms(3) by (intro map_cong refl) (auto simp: node_at_def)
  finally show ?thesis .
qed

lemma tree_roots_ok:
  "\<forall>p \<in> set paths. \<exists>q. parent_path_of p = Inr q \<Longrightarrow> \<exists>rs. tree_roots tree paths = Inr rs"
  by (induction paths) fastforce+

lemma flatten_tree_total:
  assumes "distinct (dkeys tree)" "\<forall>p \<in> set (dkeys tree). \<exists>q. parent_path_of p = Inr q"
  shows "\<exists>res. flatten_tree tree = Inr res \<and> mset res = mset (map (\<lambda>e. fst (snd e)) tree)"
proof (cases "tree = []")
  case False
  obtain rs where "tree_roots tree (dkeys tree) = Inr rs" using tree_roots_ok assms(2) by blast
  moreover obtain v r where "walk tree (sort rs) [] [] = (v, r)" by (cases "walk tree (sort rs) [] []")
  moreover obtain v' r' where "walk tree (sort (dkeys tree)) v r = (v', r')"
    by (cases "walk tree (sort (dkeys tree)) v r")
  ultimately show ?thesis
    using walk_all assms(1) False by (auto simp: flatten_tree_def)
qed (simp add: flatten_tree_def)


definition node_paths :: "(nat \<Rightarrow> string) \<Rightarrow> nat \<Rightarrow> payload list \<Rightarrow> (py_exc + string) list" where
  "node_paths fresh i nodes = map (\<lambda>(j, n). node_path (fresh j) n) (enumerate i nodes)"

lemma dset_new: "k \<notin> set (dkeys d) \<Longrightarrow> dset k v d = d @ [(k, v)]"
  by (induction d) auto

lemma collect_nodes_paths:
  assumes "collect_nodes fresh i ns bp cm = Inr (bp', cm')"
    and "distinct (dkeys bp)" "\<forall>p \<in> set (dkeys bp). \<exists>q. parent_path_of p = Inr q"
  shows "distinct (dkeys bp') \<and> (\<forall>p \<in> set (dkeys bp'). \<exists>q. parent_path_of p = Inr q)"
  using assms
proof (induction ns arbitrary: i bp cm)
  case (Cons n ns)
  obtain path where p: "node_path (fresh i) n = Inr path"
    using Cons.prems(1) by (cases "node_path (fresh i) n") auto
  obtain q where q: "parent_path_of path = Inr q"
    using Cons.prems(1) p by (cases "parent_path_of path") auto
  show ?case
    using Cons.prems p q
    by (intro Cons.IH [of "Suc i" "dset path (n, []) bp" "dset q (dget_or cm q [] @ [path]) cm"])
       (auto simp: update_keys)
qed simp

lemma collect_nodes_nodes:
  assumes "collect_nodes fresh i ns bp cm = Inr (bp', cm')"
    and "distinct (node_paths fresh i ns)" "\<forall>k \<in> set (dkeys bp). Inr k \<notin> set (node_paths fresh i ns)"
  shows "map (\<lambda>e. fst (snd e)) bp' = map (\<lambda>e. fst (snd e)) bp @ ns"
  using assms
proof (induction ns arbitrary: i bp cm)
  case (Cons n ns)
  obtain path where p: "node_path (fresh i) n = Inr path"
    using Cons.prems(1) by (cases "node_path (fresh i) n") auto
  obtain q where q: "parent_path_of path = Inr q"
    using Cons.prems(1) p by (cases "parent_path_of path") auto
  have new: "dset path (n, []) bp = bp @ [(path, n, [])]"
    using Cons.prems(3) p by (intro dset_new) (auto simp: node_paths_def)
  have "map (\<lambda>e. fst (snd e)) bp' = map (\<lambda>e. fst (snd e)) (bp @ [(path, n, [])]) @ ns"
    using Cons.prems p q new
    by (intro Cons.IH [of "Suc i" _ "dset q (dget_or cm q [] @ [path]) cm"])
       (auto simp: node_paths_def)
  then show ?case by simp
qed simp

lemma update_keeps:
  "dget d k = Some v \<Longrightarrow> f (k, w) = f (k, v) \<Longrightarrow> map f (dset k w d) = map f d"
  by (induction d) auto

lemma set_children_keeps:
  "map (\<lambda>e. (fst e, fst (snd e))) (foldl set_children t pcs) = map (\<lambda>e. (fst e, fst (snd e))) t"
proof (induction pcs arbitrary: t)
  case (Cons pc pcs)
  have "map (\<lambda>e. (fst e, fst (snd e))) (set_children t pc) = map (\<lambda>e. (fst e, fst (snd e))) t"
    by (auto simp: set_children_def split: option.splits intro: update_keeps)
  then show ?case using Cons by simp
qed simp

lemma build_tree_nodes:
  assumes "build_tree fresh nodes = Inr tree"
  shows "distinct (dkeys tree)" and "\<forall>p \<in> set (dkeys tree). \<exists>q. parent_path_of p = Inr q"
    and "distinct (node_paths fresh 0 nodes) \<Longrightarrow> map (\<lambda>e. fst (snd e)) tree = nodes"
proof -
  obtain bp cm where c: "collect_nodes fresh 0 nodes [] [] = Inr (bp, cm)"
    and t: "tree = foldl set_children bp cm"
    using assms by (cases "collect_nodes fresh 0 nodes [] []") (auto simp: build_tree_def)
  have "map fst (map (\<lambda>e. (fst e, fst (snd e))) tree) = map fst (map (\<lambda>e. (fst e, fst (snd e))) bp)"
    and n: "map snd (map (\<lambda>e. (fst e, fst (snd e))) tree) = map snd (map (\<lambda>e. (fst e, fst (snd e))) bp)"
    unfolding t set_children_keeps by simp_all
  then have k: "dkeys tree = dkeys bp" by (simp add: comp_def)
  show "distinct (dkeys tree)" "\<forall>p \<in> set (dkeys tree). \<exists>q. parent_path_of p = Inr q"
    unfolding k using collect_nodes_paths [OF c] by auto
  show "map (\<lambda>e. fst (snd e)) tree = nodes" if "distinct (node_paths fresh 0 nodes)"
    using n collect_nodes_nodes [OF c that] by (simp add: comp_def)
qed


section \<open>Paths made of segments\<close>

definition path_of :: "string list \<Rightarrow> string" where
  "path_of segs = concat (map (\<lambda>s. CHR ''/'' # s) segs)"

definition seg_ok :: "string \<Rightarrow> bool" where
  "seg_ok s \<longleftrightarrow> s \<noteq> [] \<and> CHR ''/'' \<notin> set s"

lemma collapse_seg:
  "CHR ''/'' \<notin> set s \<Longrightarrow> collapse_slashes (s @ r) = s @ collapse_slashes r"
  by (induction s) auto

lemma collapse_slash_seg:
  "seg_ok s \<Longrightarrow> collapse_slashes (CHR ''/'' # s @ r) = CHR ''/'' # s @ collapse_slashes r"
  using collapse_seg [of s r] by (cases s) (auto simp: seg_ok_def)

lemma collapse_last:
  "x \<noteq> [] \<Longrightarrow> last x \<noteq> CHR ''/'' \<Longrightarrow> last (collapse_slashes x) = last x \<and> collapse_slashes x \<noteq> []"
  by (induction x) (auto split: if_splits)

lemma collapse_path_of: "list_all seg_ok segs \<Longrightarrow> collapse_slashes (path_of segs) = path_of segs"
proof (induction segs)
  case (Cons s segs)
  have "path_of (s # segs) = CHR ''/'' # s @ path_of segs" by (simp add: path_of_def)
  then show ?case using Cons collapse_slash_seg by simp
qed (simp add: path_of_def)

lemma split_seg:
  "c \<notin> set w \<Longrightarrow> py_split c w = [w]"
  "c \<notin> set w \<Longrightarrow> py_split c (w @ c # rest) = w # py_split c rest"
  by (induction w) auto

lemma split_path_of: "list_all seg_ok segs \<Longrightarrow> py_split CHR ''/'' (path_of segs) = [] # segs"
proof (induction segs)
  case (Cons s segs)
  have "py_split CHR ''/'' (s @ path_of segs) = s # segs"
  proof (cases segs)
    case Nil
    then show ?thesis using Cons.prems by (simp add: path_of_def seg_ok_def split_seg)
  next
    case (Cons s' segs')
    then have "path_of segs = CHR ''/'' # s' @ path_of segs'" by (simp add: path_of_def)
    moreover have "py_split CHR ''/'' (path_of segs) = [] # segs"
      using Cons.IH Cons.prems by simp
    ultimately show ?thesis using Cons.prems split_seg(2) [of _ s] by (auto simp: seg_ok_def)
  qed
  then show ?case by (simp add: path_of_def)
qed (simp add: path_of_def)

lemma path_of_last:
  "segs \<noteq> [] \<Longrightarrow> list_all seg_ok segs \<Longrightarrow> last (path_of segs) = last (last segs)"
  by (induction segs rule: rev_induct) (auto simp: path_of_def seg_ok_def)


lemma normalize_path_of:
  assumes "list_all seg_ok (''memory'' # r)" "\<not> is_space (last (last (''memory'' # r)))"
  shows "normalize_path (path_of (''memory'' # r)) = Inr (path_of (''memory'' # r))"
proof -
  let ?p = "path_of (''memory'' # r)"
  have p: "?p = ''/memory'' @ path_of r" by (simp add: path_of_def)
  have last: "last ?p = last (last (''memory'' # r))" by (rule path_of_last) (use assms in auto)
  have "last (''memory'' # r) \<noteq> []" "CHR ''/'' \<notin> set (last (''memory'' # r))"
    using assms(1) last_in_set [of "''memory'' # r"] unfolding list_all_iff seg_ok_def by blast+
  then have "last ?p \<noteq> CHR ''/''" unfolding last by (metis last_in_set)
  then have "\<not> suffix ''/'' ?p" by (auto simp: suffix_def)
  moreover have "py_strip ?p = ?p"
    unfolding py_strip_def by (rule strip_chars_absent)
      (use assms(2) last in \<open>simp add: p is_space_def code_def\<close>)
  moreover have "collapse_slashes ?p = ?p" using assms(1) by (rule collapse_path_of)
  moreover have "?p \<noteq> []" "prefix MAS_ROOT ?p" by (simp_all add: p MAS_ROOT_def)
  ultimately show ?thesis by (simp add: normalize_path_def)
qed

lemma rfind_last: "c \<notin> set s \<Longrightarrow> py_rfind c (x @ c # s) = int (length x)"
proof -
  assume c: "c \<notin> set s"
  then have "takeWhile (\<lambda>y. y \<noteq> c) (rev s @ c # rev x) = rev s"
    by (subst takeWhile_append2) auto
  then have "py_find c (rev s @ c # rev x) = int (length s)"
    by (simp add: py_find_takeWhile)
  then show ?thesis by (simp add: py_rfind_def)
qed

lemma build_path_of:
  assumes "seg_ok t" "seg_ok ns" "seg_ok at" "seg_ok node"
  shows "build_path (PStr t) (PStr ns) (PStr at) (PStr node) = Inr (path_of [''memory'', t, ns, at, node])"
    and "build_path (PStr t) (PStr ns) (PStr at) PNone = Inr (path_of [''memory'', t, ns, at])"
  using assms
  by (simp_all add: build_path_def join_parts_def py_join_def path_of_def seg_ok_def MAS_ROOT_def)

lemma owns_built:
  assumes "seg_ok t" "x \<noteq> []" "\<not> is_space (last x)" "last x \<noteq> CHR ''/''"
  shows "tenant_owns_memory_path (''/memory/'' @ t @ CHR ''/'' # x) t"
proof -
  let ?p = "''/memory/'' @ t @ CHR ''/'' # x"
  have strip: "py_strip ?p = ?p"
    unfolding py_strip_def by (rule strip_chars_absent) (use assms in \<open>simp add: is_space_def code_def\<close>)
  have "collapse_slashes ?p = ''/memory/'' @ t @ collapse_slashes (CHR ''/'' # x)"
    using collapse_slash_seg [of "''memory''" "CHR ''/'' # t @ CHR ''/'' # x"]
      collapse_slash_seg [OF assms(1), of "CHR ''/'' # x"] by (simp add: seg_ok_def del: collapse_slashes.simps)
  moreover obtain y where "collapse_slashes (CHR ''/'' # x) = CHR ''/'' # y"
    using collapse_hd [of "CHR ''/'' # x"] by (cases "collapse_slashes (CHR ''/'' # x)") (auto split: if_splits)
  ultimately have c: "collapse_slashes ?p = ''/memory/'' @ t @ CHR ''/'' # y" by simp
  have "last (collapse_slashes ?p) = last x"
    using collapse_last [of ?p] assms(2,4) by (simp del: collapse_slashes.simps)
  then have "\<not> suffix ''/'' (collapse_slashes ?p)" using assms(4) by (metis last_snoc suffix_def)
  then have "canonical ?p = ''/memory/'' @ t @ CHR ''/'' # y"
    unfolding canonical_def strip strip_trailing_slash_def using c by simp
  then show ?thesis unfolding owns_iff by blast
qed

interpretation mas_guard: tenant_guard "\<lambda>p t. validate_tenant_path p t = Inr ()"
proof
  have v: "validate_tenant_path p t = Inr () \<longleftrightarrow> tenant_owns_memory_path p t" for p t
    by (simp add: validate_tenant_path_def Let_def)
  show "(validate_tenant_path p t = Inr ()) = (validate_tenant_path q t = Inr ())"
    if "canonical p = canonical q" for p q t
    using that by (simp add: v owns_iff)
  show "validate_tenant_path p [] \<noteq> Inr ()" for p
    by (simp add: v empty_owns_nothing)
  show "t = takeWhile (\<lambda>c. c \<noteq> CHR ''/'') (drop 8 (canonical p))"
    if "validate_tenant_path p t = Inr ()" "CHR ''/'' \<notin> set t" for p t
    using that owner_segment by (simp add: v)
qed


section \<open>Properties\<close>

text \<open>
  C36. Building a path and parsing it are inverse on full addresses: from four nonempty segments
  without slashes, the last one not ending in white space, \<^verbatim>\<open>build_path\<close> makes a path that parses
  back to them, belongs to its tenant, and has the path of the same address without its node as its
  parent.
\<close>

theorem build_parse_path:
  assumes "seg_ok t" "seg_ok ns" "seg_ok at" "seg_ok node" "\<not> is_space (last node)"
  shows "\<exists>p. build_path (PStr t) (PStr ns) (PStr at) (PStr node) = Inr p
    \<and> parse_path p = Inr \<lparr>mp_tenant_id = Some t, mp_namespace = Some ns, mp_addr_type = Some at,
                          mp_node_id = Some node\<rparr>
    \<and> validate_tenant_path p t = Inr ()
    \<and> parent_path_of p = build_path (PStr t) (PStr ns) (PStr at) PNone"
proof (intro exI conjI)
  let ?p = "path_of [''memory'', t, ns, at, node]"
  show "build_path (PStr t) (PStr ns) (PStr at) (PStr node) = Inr ?p"
    by (rule build_path_of) (fact assms)+
  have segs: "list_all seg_ok [''memory'', t, ns, at, node]" using assms by (simp add: seg_ok_def)
  have n: "normalize_path ?p = Inr ?p" using segs assms(5) by (intro normalize_path_of) simp_all
  show "parse_path ?p = Inr \<lparr>mp_tenant_id = Some t, mp_namespace = Some ns, mp_addr_type = Some at,
                          mp_node_id = Some node\<rparr>"
    using assms by (simp add: parse_path_def n split_path_of [OF segs] segment_at_def seg_ok_def)
  have "node \<noteq> [] \<and> last node \<noteq> CHR ''/''" using assms(4) last_in_set seg_ok_def by metis
  then have "tenant_owns_memory_path (''/memory/'' @ t @ CHR ''/'' # (ns @ CHR ''/'' # at @ CHR ''/'' # node)) t"
    using assms by (intro owns_built) auto
  then show "validate_tenant_path ?p t = Inr ()"
    by (simp add: validate_tenant_path_def path_of_def Let_def)
  have "?p = path_of [''memory'', t, ns, at] @ CHR ''/'' # node" by (simp add: path_of_def)
  then have "py_rfind CHR ''/'' ?p = int (length (path_of [''memory'', t, ns, at]))"
    and "take (length (path_of [''memory'', t, ns, at])) ?p = path_of [''memory'', t, ns, at]"
    using rfind_last assms(4) by (simp_all add: seg_ok_def)
  moreover have "\<not> int (length (path_of [''memory'', t, ns, at])) \<le> int (length MAS_ROOT)"
    by (simp add: path_of_def MAS_ROOT_def)
  ultimately show "parent_path_of ?p = build_path (PStr t) (PStr ns) (PStr at) PNone"
    by (simp add: parent_path_of_def n build_path_of(2) [OF assms(1-4)] Let_def)
qed

theorem build_parse_path_witness:
  "\<exists>p. build_path (PStr ''t1'') (PStr ''entities'') (PStr ''updated'') (PStr ''n1'') = Inr p
    \<and> parse_path p = Inr \<lparr>mp_tenant_id = Some ''t1'', mp_namespace = Some ''entities'',
                          mp_addr_type = Some ''updated'', mp_node_id = Some ''n1''\<rparr>
    \<and> validate_tenant_path p ''t1'' = Inr ()
    \<and> parent_path_of p = build_path (PStr ''t1'') (PStr ''entities'') (PStr ''updated'') PNone"
  by (rule build_parse_path) (simp_all add: seg_ok_def is_space_def code_def)

lemma uuid_str_last: "\<not> is_space (last (uuid_str n))" "last (uuid_str n) \<noteq> CHR ''/''"
proof -
  have ne: "hex_fixed 12 n \<noteq> []" by (metis hex_fixed_length list.size(3) zero_neq_numeral)
  then have "last (uuid_str n) = last (hex_fixed 12 n)" unfolding uuid_str_def by simp
  then obtain v where v: "v < 16" "last (uuid_str n) = hex_digit v"
    using hex_fixed_digits last_in_set [OF ne] by metis
  show "\<not> is_space (last (uuid_str n))" unfolding v(2) by (rule hex_digit_cases(10) [OF v(1)])
  have "hex_val CHR ''/'' = None" by (simp add: hex_val_def code_def)
  then show "last (uuid_str n) \<noteq> CHR ''/''" using v hex_digit_cases(1) by fastforce
qed

lemma generated_path_owned:
  assumes "generate_node_path (uuid_str n) (PStr t) ns at = Inr (full, x)" "seg_ok t"
  shows "tenant_owns_memory_path full t"
proof -
  have ne: "uuid_str n \<noteq> []" by (simp add: uuid_str_def)
  have b: "build_path (PStr t) ns at (PStr (uuid_str n)) = Inr full"
    using assms(1) by (auto simp: generate_node_path_def bind_result_Inr)
  then have tr: "truthy ns" "truthy at" using ne by (auto simp: build_path_def Let_def split: if_splits)
  then obtain a c where "full = ''/memory/'' @ t @ CHR ''/'' # (a @ CHR ''/'' # c @ CHR ''/'' # uuid_str n)"
    using b ne by (auto simp: build_path_def join_parts_def py_join_def MAS_ROOT_def Let_def split: if_splits)
  then show ?thesis
    using assms(2) uuid_str_last [of n] ne by (simp add: owns_built del: append_Cons)
qed

text \<open>
  C35. A memory write never leaves its tenant: whatever path, name space, type and node type the
  payload supplies, if \<^verbatim>\<open>path_from_write_payload\<close> returns a path at all, that path lies in the
  name space of the tenant the write runs for.
\<close>

theorem write_path_stays_in_tenant:
  assumes "path_from_write_payload (uuid_str n) payload t = Inr (full_path, ns, at)" "seg_ok t"
  shows "tenant_owns_memory_path full_path t"
proof (cases "truthy (pget payload ''path'')")
  case False
  then show ?thesis
    using assms generated_path_owned
    by (auto simp: path_from_write_payload_def bind_result_Inr Let_def)
next
  case True
  obtain path where p: "pget payload ''path'' = PStr path"
    using assms(1) True by (cases "pget payload ''path''") (auto simp: path_from_write_payload_def Let_def)
  obtain raw parsed where r: "normalize_path path = Inr raw" "validate_tenant_path raw t = Inr ()"
      "parse_path raw = Inr parsed"
    using assms(1) True p by (auto simp: path_from_write_payload_def bind_result_Inr Let_def)
  show ?thesis
  proof (cases "mp_node_id parsed")
    case None
    then show ?thesis
      using assms True p r generated_path_owned
      by (auto simp: path_from_write_payload_def bind_result_Inr Let_def)
  next
    case (Some node)
    then have "full_path = raw"
      using assms True p r by (auto simp: path_from_write_payload_def Let_def)
    then show ?thesis using r(2) by (simp add: validate_tenant_path_def Let_def split: if_splits)
  qed
qed

theorem write_path_stays_in_tenant_witness:
  "\<exists>p. path_from_write_payload (uuid_str 5) [(''namespace'', PStr ''a/../b'')] ''t1'' =
     Inr (p, PStr ''a/../b'', PStr ''general'') \<and> tenant_owns_memory_path p ''t1''"
proof -
  obtain p where p: "path_from_write_payload (uuid_str 5) [(''namespace'', PStr ''a/../b'')] ''t1'' =
     Inr (p, PStr ''a/../b'', PStr ''general'')"
    by (simp add: path_from_write_payload_def pget_def dget_or_def por_def generate_node_path_def
        build_path_def join_parts_def uuid_str_def)
  have "seg_ok ''t1''" by (simp add: seg_ok_def)
  with p show ?thesis using write_path_stays_in_tenant by blast
qed

text \<open>
  Flattening inverts tree building: the tree that \<^verbatim>\<open>build_tree\<close> makes of nodes with pairwise
  different paths is flattened without an exception, and every node is in the result exactly once,
  whether or not its parent is a node of the tree.
\<close>

theorem flatten_build_tree:
  assumes "build_tree fresh nodes = Inr tree" "distinct (node_paths fresh 0 nodes)"
  shows "\<exists>res. flatten_tree tree = Inr res \<and> mset res = mset nodes"
  using flatten_tree_total [OF build_tree_nodes(1,2) [OF assms(1)]] build_tree_nodes(3) [OF assms]
  by auto

definition sample_nodes :: "payload list" where
  "sample_nodes = [[(''path'', PStr ''/memory/t1/e/u/n1'')], [(''path'', PStr ''/memory/t1/e/u'')]]"

theorem flatten_build_tree_witness:
  "\<exists>tree res. build_tree (\<lambda>_. ''x'') sample_nodes = Inr tree \<and> flatten_tree tree = Inr res
     \<and> mset res = mset sample_nodes"
proof -
  have d: "distinct (node_paths (\<lambda>_. ''x'') 0 sample_nodes)" by code_simp
  have "\<not> isl (build_tree (\<lambda>_. ''x'') sample_nodes)" by code_simp
  then obtain tree where t: "build_tree (\<lambda>_. ''x'') sample_nodes = Inr tree"
    by (cases "build_tree (\<lambda>_. ''x'') sample_nodes") auto
  show ?thesis using flatten_build_tree [OF t d] t by blast
qed

end
