(* ===== verification/Payload_Identity.thy ===== *)
theory Payload_Identity
  imports Py_Values
begin

text \<open>
  \<^verbatim>\<open>AINDY/kernel/payload_identity.py\<close> and \<^verbatim>\<open>AINDY/platform_layer/user_ids.py\<close>: a payload may not
  name a user other than the authenticated caller.
\<close>

definition parse_user_id :: "pyval \<Rightarrow> nat option" where
  "parse_user_id value =
     (if value = PNone \<or> value = PStr [] then None
      else case value of PUuid n \<Rightarrow> Some n | _ \<Rightarrow> uuid_parse (py_str value))"

definition require_user_id :: "pyval \<Rightarrow> py_exc + nat" where
  "require_user_id value =
     (case parse_user_id value of None \<Rightarrow> Inl (ValueError ''user_id is required'') | Some n \<Rightarrow> Inr n)"

fun parse_user_ids :: "pyval list \<Rightarrow> nat list" where
  "parse_user_ids [] = []"
| "parse_user_ids (value # rest) =
     (case parse_user_id value of Some n \<Rightarrow> n # parse_user_ids rest | None \<Rightarrow> parse_user_ids rest)"

definition PAYLOAD_USER_KEY :: string where
  "PAYLOAD_USER_KEY = ''user_id''"

definition FORWARDED_PAYLOAD_KEYS :: "string dict" where
  "FORWARDED_PAYLOAD_KEYS =
     [(''sys.v1.job.submit'', ''payload''),
      (''sys.v1.flow.run'', ''initial_state''),
      (''sys.v1.flow.execute_intent'', ''intent_data''),
      (''sys.v1.nodus.execute'', ''input_payload'')]"

definition normalize_user :: "pyval \<Rightarrow> string" where
  "normalize_user value =
     (case parse_user_id value of Some n \<Rightarrow> uuid_str n | None \<Rightarrow> py_strip (py_str value))"

definition payload_user_id_mismatch :: "pyval \<Rightarrow> pyval \<Rightarrow> bool" where
  "payload_user_id_mismatch payload user_id =
     (case payload of
        PDict d \<Rightarrow>
          let requested = pget d PAYLOAD_USER_KEY in
          if requested = PNone \<or> requested = PStr [] then False
          else normalize_user requested \<noteq> normalize_user user_id
      | _ \<Rightarrow> False)"

definition forwarded_user_id_mismatch :: "string \<Rightarrow> pyval \<Rightarrow> pyval \<Rightarrow> bool" where
  "forwarded_user_id_mismatch syscall payload user_id =
     (case (dget FORWARDED_PAYLOAD_KEYS syscall, payload) of
        (Some key, PDict d) \<Rightarrow> payload_user_id_mismatch (pget d key) user_id
      | _ \<Rightarrow> False)"

definition bind_payload_user_id :: "pyval \<Rightarrow> pyval \<Rightarrow> string \<Rightarrow> py_exc + payload" where
  "bind_payload_user_id payload user_id syscall =
     (let bound = (case payload of PDict d \<Rightarrow> d | _ \<Rightarrow> []) in
      if payload_user_id_mismatch (PDict bound) user_id
         \<or> forwarded_user_id_mismatch syscall (PDict bound) user_id
      then
        let target = (if syscall \<noteq> [] then '' for '' @ repr_str syscall else []) in
        Inl (Other_exc ''PayloadIdentityViolation''
          (''TENANT_VIOLATION: a payload user_id'' @ target @ '' does not match the '' @
           ''authenticated caller; a payload may not choose the user it acts on''))
      else if pget bound PAYLOAD_USER_KEY = PNone \<or> pget bound PAYLOAD_USER_KEY = PStr []
      then Inr (dset PAYLOAD_USER_KEY (PStr (py_str user_id)) bound)
      else Inr bound)"


section \<open>Normal forms\<close>

definition wf_value :: "pyval \<Rightarrow> bool" where
  "wf_value v \<longleftrightarrow> (case v of PUuid n \<Rightarrow> n < 2 ^ 128 | _ \<Rightarrow> True)"

text \<open>Writing a caller's identifier out as text does not change whom it names.\<close>

lemma normalize_user_str:
  assumes "wf_value u"
  shows "normalize_user (PStr (py_str u)) = normalize_user u"
proof (cases "\<exists>n. u = PUuid n")
  case True
  then obtain n where u: "u = PUuid n" ..
  have "uuid_str n \<noteq> []" by (simp add: uuid_str_def)
  then show ?thesis
    using assms u uuid_parse_str [of n] by (simp add: normalize_user_def parse_user_id_def wf_value_def)
next
  case False
  have none: "uuid_parse ''None'' = None" by code_simp
  have empty: "uuid_parse [] = None" by code_simp
  show ?thesis
  proof (cases "u = PNone \<or> u = PStr []")
    case True
    then show ?thesis using none empty by (auto simp: normalize_user_def parse_user_id_def)
  next
    case False
    with \<open>\<nexists>n. u = PUuid n\<close> show ?thesis
      using empty by (cases u) (auto simp: normalize_user_def parse_user_id_def split: option.splits)
  qed
qed

lemma normalize_user_uuid:
  assumes "uuid_parse s = Some n" "s \<noteq> []"
  shows "normalize_user (PStr s) = normalize_user (PUuid n)"
  using assms by (simp add: normalize_user_def parse_user_id_def)


section \<open>Properties\<close>

text \<open>
  C37. A payload that passes the binding acts on the caller: its \<^verbatim>\<open>user_id\<close> names the caller, so
  does the \<^verbatim>\<open>user_id\<close> of the part the syscall forwards to later code if it has one, no other key is
  changed, and a payload that names someone else is refused, never overwritten.
\<close>

theorem bound_payload_names_caller:
  assumes "wf_value user" "bind_payload_user_id (PDict payload) user syscall = Inr bound"
  shows "normalize_user (pget bound ''user_id'') = normalize_user user
    \<and> (\<forall>k. k \<noteq> ''user_id'' \<longrightarrow> dget bound k = dget payload k)
    \<and> (pget payload ''user_id'' \<in> {PNone, PStr []} \<or> bound = payload)
    \<and> (\<forall>key d. dget FORWARDED_PAYLOAD_KEYS syscall = Some key \<longrightarrow> pget bound key = PDict d \<longrightarrow>
         pget d ''user_id'' \<in> {PNone, PStr []} \<or> normalize_user (pget d ''user_id'') = normalize_user user)"
proof -
  have key: "key \<noteq> ''user_id''" if "dget FORWARDED_PAYLOAD_KEYS syscall = Some key" for key
    using that by (auto simp: FORWARDED_PAYLOAD_KEYS_def split: if_splits)
  have no: "\<not> payload_user_id_mismatch (PDict payload) user"
    "\<not> forwarded_user_id_mismatch syscall (PDict payload) user"
    using assms(2) by (auto simp: bind_payload_user_id_def Let_def split: if_splits)
  have b: "bound = (if pget payload ''user_id'' \<in> {PNone, PStr []}
      then dset ''user_id'' (PStr (py_str user)) payload else payload)"
    using assms(2) no by (auto simp: bind_payload_user_id_def PAYLOAD_USER_KEY_def Let_def split: if_splits)
  have f: "pget d ''user_id'' \<in> {PNone, PStr []} \<or> normalize_user (pget d ''user_id'') = normalize_user user"
    if "dget FORWARDED_PAYLOAD_KEYS syscall = Some k" "pget bound k = PDict d" for k d
    using no(2) that key [OF that(1)] b
    by (auto simp: forwarded_user_id_mismatch_def payload_user_id_mismatch_def PAYLOAD_USER_KEY_def
        pget_def Let_def split: if_splits)
  show ?thesis
    using b no(1) f normalize_user_str [OF assms(1)]
    by (auto simp: pget_def payload_user_id_mismatch_def PAYLOAD_USER_KEY_def Let_def split: if_splits)
qed

theorem bound_payload_names_caller_witness:
  "normalize_user (pget (dset ''user_id'' (PStr (uuid_str 7)) [(''x'', PInt 1)]) ''user_id'') =
     normalize_user (PUuid 7)"
proof -
  have "wf_value (PUuid 7)" by (simp add: wf_value_def)
  moreover have "bind_payload_user_id (PDict [(''x'', PInt 1)]) (PUuid 7) ''sys.v1.memory.read'' =
      Inr (dset ''user_id'' (PStr (uuid_str 7)) [(''x'', PInt 1)])"
    by (simp add: bind_payload_user_id_def payload_user_id_mismatch_def forwarded_user_id_mismatch_def
        FORWARDED_PAYLOAD_KEYS_def PAYLOAD_USER_KEY_def pget_def dget_or_def)
  ultimately show ?thesis using bound_payload_names_caller by blast
qed

text \<open>
  The spelling of a UUID does not matter: a payload whose \<^verbatim>\<open>user_id\<close> is any text that Python
  reads as the caller's UUID (upper case, braces, no hyphens, a \<^verbatim>\<open>urn:uuid:\<close> prefix) is no
  mismatch, and one whose text Python reads as another UUID is.
\<close>

theorem uuid_spelling_irrelevant:
  assumes "uuid_parse s = Some n" "s \<noteq> []" "u < 2 ^ 128"
  shows "payload_user_id_mismatch (PDict [(''user_id'', PStr s)]) (PUuid u) \<longleftrightarrow> n \<noteq> u"
proof -
  have "uuid_str n = uuid_str u \<longleftrightarrow> n = u"
    using uuid_parse_str uuid_parse_bound [OF assms(1)] assms(3) by (metis option.inject)
  then show ?thesis
    using assms normalize_user_uuid [OF assms(1,2)]
    by (simp add: payload_user_id_mismatch_def PAYLOAD_USER_KEY_def pget_def dget_or_def
        normalize_user_def parse_user_id_def)
qed

theorem uuid_spelling_irrelevant_witness:
  "\<not> payload_user_id_mismatch
       (PDict [(''user_id'', PStr ''{000000000000000000000000000000FF}'')]) (PUuid 255)"
proof -
  have "uuid_parse ''{000000000000000000000000000000FF}'' = Some 255" by code_simp
  from uuid_spelling_irrelevant [OF this, of 255] show ?thesis by simp
qed

end
