(* ===== verification/Syscall_Outcome.thy ===== *)
theory Syscall_Outcome
  imports Py_Values
begin

text \<open>
  \<^verbatim>\<open>AINDY/kernel/syscall_outcome.py\<close>: the four envelope statuses, the reserved key a handler
  claims a non-binary outcome with, and the wrapper a held ledger row stores.
\<close>

definition OUTCOME_KEY :: string where
  "OUTCOME_KEY = ''_outcome''"

definition ENVELOPE_STATUSES :: "string list" where
  "ENVELOPE_STATUSES = [''success'', ''partial'', ''unknown'', ''error'']"

definition CLAIMABLE_STATUSES :: "string list" where
  "CLAIMABLE_STATUSES = [''partial'', ''unknown'']"

definition LEDGER_STATUS :: "string dict" where
  "LEDGER_STATUS =
     [(''success'', ''success''), (''partial'', ''partial''), (''unknown'', ''unknown''),
      (''error'', ''failed'')]"

record ResolvedOutcome =
  ro_status :: string
  ro_outcome :: "payload option"
  ro_refusal :: "string option"

definition ledger_status :: "ResolvedOutcome \<Rightarrow> py_exc + string" where
  "ledger_status r =
     (case dget LEDGER_STATUS (ro_status r) of None \<Rightarrow> Inl (KeyError (ro_status r)) | Some s \<Rightarrow> Inr s)"

definition opt_detail :: "string option \<Rightarrow> pyval" where
  "opt_detail d = (case d of None \<Rightarrow> PNone | Some t \<Rightarrow> PStr t)"

definition partial :: "pyval list \<Rightarrow> string option \<Rightarrow> payload" where
  "partial units detail =
     [(''status'', PStr ''partial''), (''units'', PList units), (''detail'', opt_detail detail)]"

definition unknown :: "string option \<Rightarrow> pyval list option \<Rightarrow> payload" where
  "unknown detail units =
     [(''status'', PStr ''unknown''),
      (''units'', PList (case units of None \<Rightarrow> [] | Some us \<Rightarrow> us)),
      (''detail'', opt_detail detail)]"

record EffectOutcomeUnknown =
  eou_message :: string
  eou_detail :: "string option"
  eou_units :: "pyval list"

definition new_EffectOutcomeUnknown :: "string option \<Rightarrow> pyval list option \<Rightarrow> EffectOutcomeUnknown" where
  "new_EffectOutcomeUnknown detail units =
     \<lparr>eou_message = (case detail of
          Some d \<Rightarrow> if d \<noteq> [] then d else ''effect dispatched; outcome not observed''
        | None \<Rightarrow> ''effect dispatched; outcome not observed''),
      eou_detail = detail,
      eou_units = (case units of None \<Rightarrow> [] | Some us \<Rightarrow> us)\<rparr>"

definition eou_outcome :: "EffectOutcomeUnknown \<Rightarrow> payload" where
  "eou_outcome e = unknown (eou_detail e) (Some (eou_units e))"

definition HELD_LEDGER_STATUSES :: "string list" where
  "HELD_LEDGER_STATUSES = [''partial'', ''unknown'']"

definition HELD_KEY :: string where
  "HELD_KEY = ''__held_outcome__''"

definition held_record_payload :: "pyval \<Rightarrow> payload option \<Rightarrow> payload" where
  "held_record_payload data outcome =
     [(HELD_KEY, PDict (case outcome of None \<Rightarrow> [] | Some d \<Rightarrow> d)), (''data'', data)]"

record HeldOutcome =
  ho_status :: string
  ho_data :: pyval
  ho_outcome :: pyval

definition reconcile_required :: "HeldOutcome \<Rightarrow> bool" where
  "reconcile_required h \<longleftrightarrow> ho_status h = ''unknown''"

text \<open>\<^verbatim>\<open>{**outcome, "held": True, ...}\<close> raises on a value that is no mapping.\<close>

definition envelope_outcome :: "HeldOutcome \<Rightarrow> py_exc + payload" where
  "envelope_outcome h =
     (if \<not> truthy (ho_outcome h)
      then Inr [(''held'', PBool True), (''reconcile_required'', PBool (reconcile_required h))]
      else case ho_outcome h of
          PDict d \<Rightarrow> Inr (dset ''reconcile_required'' (PBool (reconcile_required h))
                          (dset ''held'' (PBool True) d))
        | v \<Rightarrow> Inl (TypeError (type_name v @ '' object is not a mapping'')))"

definition held_outcome_from_record :: "string \<Rightarrow> pyval \<Rightarrow> HeldOutcome" where
  "held_outcome_from_record status payload =
     (case payload of
        PDict d \<Rightarrow>
          if dget d HELD_KEY \<noteq> None
          then \<lparr>ho_status = status, ho_data = pget d ''data'',
                ho_outcome = (if truthy (pget d HELD_KEY) then pget d HELD_KEY else PNone)\<rparr>
          else \<lparr>ho_status = status, ho_data = payload, ho_outcome = PNone\<rparr>
      | _ \<Rightarrow> \<lparr>ho_status = status, ho_data = payload, ho_outcome = PNone\<rparr>)"

definition refuse :: "payload \<Rightarrow> string \<Rightarrow> payload \<times> ResolvedOutcome" where
  "refuse payload reason =
     (payload, \<lparr>ro_status = ''error'', ro_outcome = None, ro_refusal = Some reason\<rparr>)"

text \<open>
  \<open>accept_claim\<close> checks a claim that is a dictionary. A \<^verbatim>\<open>status\<close> that cannot be hashed makes the
  membership test itself raise.
\<close>

definition accept_claim :: "payload \<Rightarrow> payload \<Rightarrow> py_exc + payload \<times> ResolvedOutcome" where
  "accept_claim payload claim =
     (let status = pget claim ''status''; units = pget claim ''units''; detail = pget claim ''detail'' in
      if \<not> hashable status then Inl (TypeError ''unhashable type'')
      else if status \<notin> PStr ` set CLAIMABLE_STATUSES
      then Inr (refuse payload (OUTCOME_KEY @ ''.status must be one of '' @
             py_repr (PList (map PStr CLAIMABLE_STATUSES)) @ '', got '' @ py_repr status))
      else if units \<noteq> PNone \<and> \<not> py_isinstance units T_list
      then Inr (refuse payload (OUTCOME_KEY @ ''.units must be a list, got '' @ type_name units))
      else if status = PStr ''partial'' \<and> \<not> truthy units
      then Inr (refuse payload
             (''a '' @ repr_str ''partial'' @ '' outcome must name the per-unit results in .units; '' @
              ''a partial that cannot say which units landed is strictly worse than '' @
              repr_str ''failed''))
      else if detail \<noteq> PNone \<and> \<not> py_isinstance detail T_str
      then Inr (refuse payload (OUTCOME_KEY @ ''.detail must be a string, got '' @ type_name detail))
      else Inr (payload, \<lparr>ro_status = py_str status,
             ro_outcome = Some [(''units'', if truthy units then units else PList []), (''detail'', detail)],
             ro_refusal = None\<rparr>))"

definition resolve_outcome :: "payload \<Rightarrow> py_exc + payload \<times> ResolvedOutcome" where
  "resolve_outcome data =
     (if dget data OUTCOME_KEY = None
      then Inr (data, \<lparr>ro_status = ''success'', ro_outcome = None, ro_refusal = None\<rparr>)
      else
        let payload = dpop OUTCOME_KEY data in
        case pget data OUTCOME_KEY of
          PDict claim \<Rightarrow> accept_claim payload claim
        | claim \<Rightarrow> Inr (refuse payload (OUTCOME_KEY @ '' must be a dict, got '' @ type_name claim)))"

lemma refuse_chain:
  assumes "y = (if a then Inl e else if b then Inr (refuse p r1) else if c then Inr (refuse p r2)
    else if d then Inr (refuse p r3) else if f then Inr (refuse p r4) else z)"
  shows "y = Inl e \<or> (\<exists>reason. y = Inr (refuse p reason)) \<or> \<not> b \<and> \<not> c \<and> \<not> d \<and> y = z"
  using assms by auto

lemma accept_claim_cases:
  "accept_claim payload claim = Inl (TypeError ''unhashable type'')
   \<or> (\<exists>reason. accept_claim payload claim = Inr (refuse payload reason))
   \<or> (\<exists>status units detail.
        accept_claim payload claim = Inr (payload, \<lparr>ro_status = status,
          ro_outcome = Some [(''units'', PList units), (''detail'', detail)], ro_refusal = None\<rparr>)
        \<and> (status = ''unknown'' \<or> status = ''partial'' \<and> units \<noteq> []))"
proof -
  let ?s = "pget claim ''status''" and ?u = "pget claim ''units''" and ?d = "pget claim ''detail''"
  let ?ok = "Inr (payload, \<lparr>ro_status = py_str ?s,
    ro_outcome = Some [(''units'', if truthy ?u then ?u else PList []), (''detail'', ?d)],
    ro_refusal = None\<rparr>)"
  consider "accept_claim payload claim = Inl (TypeError ''unhashable type'')"
    | "\<exists>reason. accept_claim payload claim = Inr (refuse payload reason)"
    | (ok) "\<not> ?s \<notin> PStr ` set CLAIMABLE_STATUSES" "\<not> (?u \<noteq> PNone \<and> \<not> py_isinstance ?u T_list)"
      "\<not> (?s = PStr ''partial'' \<and> \<not> truthy ?u)" "accept_claim payload claim = ?ok"
    using refuse_chain [OF accept_claim_def [of payload claim, unfolded Let_def]] by blast
  then show ?thesis
  proof cases
    case ok
    have "\<exists>us. (if truthy v then v else PList []) = PList us \<and> (truthy v \<longrightarrow> us \<noteq> [])"
      if "\<not> (v \<noteq> PNone \<and> \<not> py_isinstance v T_list)" for v
      using that by (cases v) auto
    from this [OF ok(2)] obtain us
      where us: "(if truthy ?u then ?u else PList []) = PList us" "truthy ?u \<longrightarrow> us \<noteq> []"
      by blast
    have "?s = PStr ''partial'' \<or> ?s = PStr ''unknown''"
      using ok(1) by (auto simp: CLAIMABLE_STATUSES_def)
    then show ?thesis using ok(3,4) us by fastforce
  qed simp_all
qed

lemma resolve_outcome_cases:
  assumes "dget data OUTCOME_KEY = Some c"
  shows "(\<exists>e. resolve_outcome data = Inl e)
    \<or> (\<exists>reason. resolve_outcome data = Inr (refuse (dpop OUTCOME_KEY data) reason))
    \<or> (\<exists>status units detail.
        resolve_outcome data = Inr (dpop OUTCOME_KEY data, \<lparr>ro_status = status,
          ro_outcome = Some [(''units'', PList units), (''detail'', detail)], ro_refusal = None\<rparr>)
        \<and> (status = ''unknown'' \<or> status = ''partial'' \<and> units \<noteq> []))"
proof -
  have "resolve_outcome data = (case c of PDict claim \<Rightarrow> accept_claim (dpop OUTCOME_KEY data) claim
      | _ \<Rightarrow> Inr (refuse (dpop OUTCOME_KEY data) (OUTCOME_KEY @ '' must be a dict, got '' @ type_name c)))"
    using assms by (cases c) (simp_all add: resolve_outcome_def pget_def dget_or_def)
  then show ?thesis
    using accept_claim_cases [of "dpop OUTCOME_KEY data"] by (cases c) (simp_all, blast+)
qed


section \<open>Properties\<close>

text \<open>
  What a handler's return value resolves to: the reserved key is gone from the payload in every
  case and every other key is as the handler returned it; the status is one the envelope may hold
  and has a ledger status; a \<open>partial\<close> always names at least one unit; a claim that is refused is
  recorded as \<open>failed\<close>; and without a claim the outcome is success with nothing removed.
\<close>

theorem resolve_outcome_sound:
  assumes "resolve_outcome data = Inr (payload, r)"
  shows "dget payload ''_outcome'' = None
    \<and> (\<forall>k. k \<noteq> ''_outcome'' \<longrightarrow> dget payload k = dget data k)
    \<and> ro_status r \<in> set ENVELOPE_STATUSES
    \<and> (ro_refusal r \<noteq> None \<longleftrightarrow> ledger_status r = Inr ''failed'')
    \<and> (ro_status r = ''success'' \<longleftrightarrow> dget data ''_outcome'' = None)
    \<and> (ro_status r = ''partial'' \<longrightarrow>
         (\<exists>u us d. ro_outcome r = Some [(''units'', PList (u # us)), (''detail'', d)]))"
proof (cases "dget data OUTCOME_KEY")
  case None
  then show ?thesis using assms
    by (auto simp: resolve_outcome_def ENVELOPE_STATUSES_def ledger_status_def LEDGER_STATUS_def
        OUTCOME_KEY_def)
next
  case (Some c)
  then have "payload = dpop OUTCOME_KEY data
      \<and> (ro_status r = ''error'' \<and> ro_refusal r \<noteq> None
         \<or> ro_status r = ''unknown'' \<and> ro_refusal r = None
         \<or> ro_status r = ''partial'' \<and> ro_refusal r = None
           \<and> (\<exists>u us d. ro_outcome r = Some [(''units'', PList (u # us)), (''detail'', d)]))"
    using resolve_outcome_cases [OF Some] assms by (auto simp: refuse_def neq_Nil_conv)
  then show ?thesis
    using Some by (auto simp: ENVELOPE_STATUSES_def ledger_status_def LEDGER_STATUS_def OUTCOME_KEY_def)
qed

theorem resolve_outcome_sound_witness:
  "resolve_outcome [(''n'', PInt 3), (''_outcome'', PDict (partial [] None))] =
     Inr (refuse [(''n'', PInt 3)]
           (''a '' @ repr_str ''partial'' @ '' outcome must name the per-unit results in .units; '' @
            ''a partial that cannot say which units landed is strictly worse than '' @ repr_str ''failed''))
   \<and> dget [(''n'', PInt 3)] ''_outcome'' = None"
proof -
  have *: "resolve_outcome [(''n'', PInt 3), (''_outcome'', PDict (partial [] None))] =
     Inr (refuse [(''n'', PInt 3)]
           (''a '' @ repr_str ''partial'' @ '' outcome must name the per-unit results in .units; '' @
            ''a partial that cannot say which units landed is strictly worse than '' @ repr_str ''failed''))"
    by (simp add: resolve_outcome_def accept_claim_def OUTCOME_KEY_def pget_def dget_or_def partial_def
        opt_detail_def hashable_def CLAIMABLE_STATUSES_def)
  then show ?thesis using resolve_outcome_sound [OF * [unfolded refuse_def]] by simp
qed

text \<open>
  What a held row stores is what a replay reads: the data and the outcome recorded for a
  \<open>partial\<close> or \<open>unknown\<close> effect come back unchanged, and a claim built by \<^verbatim>\<open>partial\<close> (with a unit)
  or \<^verbatim>\<open>unknown\<close> is accepted by \<^verbatim>\<open>resolve_outcome\<close> with those units and that detail.
\<close>

theorem held_round_trip:
  assumes "dget data ''_outcome'' = None"
  shows "held_outcome_from_record status (PDict (held_record_payload (PDict d) outcome)) =
      \<lparr>ho_status = status, ho_data = PDict d,
       ho_outcome = (case outcome of Some (kv # kvs) \<Rightarrow> PDict (kv # kvs) | _ \<Rightarrow> PNone)\<rparr>
    \<and> resolve_outcome (data @ [(''_outcome'', PDict (partial (u # us) detail))]) =
        Inr (data, \<lparr>ro_status = ''partial'',
          ro_outcome = Some [(''units'', PList (u # us)), (''detail'', opt_detail detail)],
          ro_refusal = None\<rparr>)
    \<and> resolve_outcome (data @ [(''_outcome'', PDict (eou_outcome (new_EffectOutcomeUnknown detail units)))]) =
        Inr (data, \<lparr>ro_status = ''unknown'',
          ro_outcome = Some [(''units'', PList (case units of None \<Rightarrow> [] | Some v \<Rightarrow> v)),
                             (''detail'', opt_detail detail)],
          ro_refusal = None\<rparr>)"
proof -
  have pop: "dpop ''_outcome'' (data @ [(''_outcome'', v)]) = data" for v
    using assms by (induction data) (auto split: if_splits)
  have get: "dget (data @ [(''_outcome'', v)]) ''_outcome'' = Some v" for v
    using assms by (simp add: map_add_Some_iff)
  show ?thesis
    using pop get
    by (auto simp: held_outcome_from_record_def held_record_payload_def HELD_KEY_def pget_def dget_or_def
        resolve_outcome_def accept_claim_def OUTCOME_KEY_def partial_def unknown_def eou_outcome_def
        new_EffectOutcomeUnknown_def opt_detail_def hashable_def CLAIMABLE_STATUSES_def Let_def
        split: option.splits list.splits)
qed

theorem held_round_trip_witness:
  "resolve_outcome ([(''n'', PInt 3)] @ [(''_outcome'', PDict (partial [PInt 1] (Some ''late'')))]) =
     Inr ([(''n'', PInt 3)], \<lparr>ro_status = ''partial'',
       ro_outcome = Some [(''units'', PList [PInt 1]), (''detail'', opt_detail (Some ''late''))],
       ro_refusal = None\<rparr>)"
  using held_round_trip [of "[(''n'', PInt 3)]"] by simp

end
