(* ===== verification/Effect_Ledger.thy ===== *)
theory Effect_Ledger
  imports Syscall_Outcome "HOL-Library.Product_Lexorder"
begin

text \<open>
  \<^verbatim>\<open>AINDY/kernel/effect_ledger.py\<close> and \<^verbatim>\<open>AINDY/db/models/effect_record.py\<close>: the table of effect
  records, one row per \<^verbatim>\<open>action_id\<close>, that decides whether an effect runs or its recorded outcome
  is replayed. The table is a dictionary keyed by the unique column; \<open>gate_counts\<close> is the counter
  \<^verbatim>\<open>effect_gate_outcomes_total\<close> as the list of its increments. SHA-256 is the parameter \<open>sha256\<close>.
\<close>

definition STALE_PENDING_THRESHOLD_SECONDS :: int where
  "STALE_PENDING_THRESHOLD_SECONDS = 900"

definition EFFECT_STATUSES :: "string list" where
  "EFFECT_STATUSES = [''pending'', ''success'', ''failed'', ''partial'', ''unknown'']"

definition TERMINAL_EFFECT_STATUSES :: "string list" where
  "TERMINAL_EFFECT_STATUSES = filter (\<lambda>s. s \<noteq> ''pending'') EFFECT_STATUSES"

record EffectRecord =
  er_action_type :: string
  er_input_hash :: string
  er_execution_id :: "nat option"
  er_tenant_id :: "string option"
  er_session_id :: "string option"
  er_status :: string
  er_result_payload :: pyval
  er_created_at :: time
  er_completed_at :: "time option"

record ledger =
  effect_rows :: "EffectRecord dict"
  gate_counts :: "string list"


section \<open>Ambient attribution\<close>

text \<open>The three context variables of the module; a token is the value a variable had before.\<close>

datatype effect_run = No_run | Unlinked | Run string

record effect_ctx =
  cv_attribution :: "string option \<times> string option"
  cv_durable :: bool
  cv_effect_run :: effect_run

definition initial_effect_ctx :: effect_ctx where
  "initial_effect_ctx =
     \<lparr>cv_attribution = (None, None), cv_durable = False, cv_effect_run = No_run\<rparr>"

definition set_effect_attribution ::
  "string option \<Rightarrow> string option \<Rightarrow> effect_ctx \<Rightarrow> (string option \<times> string option) \<times> effect_ctx" where
  "set_effect_attribution tenant_id session_id c =
     (cv_attribution c, c\<lparr>cv_attribution := (tenant_id, session_id)\<rparr>)"

text \<open>A token of another context makes the reset raise, which is swallowed.\<close>

definition reset_effect_attribution ::
  "bool \<Rightarrow> string option \<times> string option \<Rightarrow> effect_ctx \<Rightarrow> effect_ctx" where
  "reset_effect_attribution same_context token c =
     (if same_context then c\<lparr>cv_attribution := token\<rparr> else c)"

definition current_effect_attribution :: "effect_ctx \<Rightarrow> string option \<times> string option" where
  "current_effect_attribution c = cv_attribution c"

text \<open>The \<^verbatim>\<open>with\<close> scopes: \<open>body\<close> is the block, run in the changed context.\<close>

definition durable_effects_scope :: "(effect_ctx \<Rightarrow> 'a \<times> effect_ctx) \<Rightarrow> effect_ctx \<Rightarrow> 'a \<times> effect_ctx" where
  "durable_effects_scope body c =
     (let (r, c1) = body (c\<lparr>cv_durable := True\<rparr>) in (r, c1\<lparr>cv_durable := cv_durable c\<rparr>))"

definition durable_effects_active :: "effect_ctx \<Rightarrow> bool" where
  "durable_effects_active c = cv_durable c"

definition effect_run_scope ::
  "string \<Rightarrow> (effect_ctx \<Rightarrow> 'a \<times> effect_ctx) \<Rightarrow> effect_ctx \<Rightarrow> 'a \<times> effect_ctx" where
  "effect_run_scope run_id body c =
     (if run_id = [] then body c
      else let (r, c1) = body (c\<lparr>cv_effect_run := Run run_id\<rparr>)
           in (r, c1\<lparr>cv_effect_run := cv_effect_run c\<rparr>))"

definition unlinked_effect_scope :: "(effect_ctx \<Rightarrow> 'a \<times> effect_ctx) \<Rightarrow> effect_ctx \<Rightarrow> 'a \<times> effect_ctx" where
  "unlinked_effect_scope body c =
     (let (r, c1) = body (c\<lparr>cv_effect_run := Unlinked\<rparr>) in (r, c1\<lparr>cv_effect_run := cv_effect_run c\<rparr>))"

text \<open>
  \<^verbatim>\<open>_linked_execution_id\<close> against the \<^verbatim>\<open>execution_units\<close> table; \<open>None\<close> for the table is a query
  that fails. \<open>current_run\<close> is \<^verbatim>\<open>cancellation.current_run_id()\<close>.
\<close>

record unit_row =
  ur_id :: nat
  ur_source_type :: string
  ur_source_id :: string
  ur_created_at :: time

definition linked_execution_id ::
  "unit_row list option \<Rightarrow> string option \<Rightarrow> effect_ctx \<Rightarrow> string option \<Rightarrow> nat option" where
  "linked_execution_id units current_run c execution_ref =
     (if cv_effect_run c = Unlinked then None
      else
        let amb = (case cv_effect_run c of Run r \<Rightarrow> Some r | _ \<Rightarrow> None);
            ref = or_text amb (or_text current_run (or_text execution_ref []))
        in if ref = [] then None
           else
             (case units of
                None \<Rightarrow> None
              | Some us \<Rightarrow>
                  let matches = filter (\<lambda>u. ur_source_type u \<in> {''agent_run'', ''flow_run''}
                                    \<and> ur_source_id u = ref \<or> uuid_parse ref = Some (ur_id u)) us
                  in (case sort_key (\<lambda>u. - ur_created_at u) matches of
                        [] \<Rightarrow> None | u # _ \<Rightarrow> Some (ur_id u))))"


section \<open>The gate\<close>

definition count_gate :: "string \<Rightarrow> ledger \<Rightarrow> ledger" where
  "count_gate outcome l = l\<lparr>gate_counts := gate_counts l @ [outcome]\<rparr>"

text \<open>
  The answers of the gate: \<^verbatim>\<open>(True, payload)\<close>, \<^verbatim>\<open>(True, HeldOutcome)\<close>, \<^verbatim>\<open>(False, DEGRADED)\<close> and
  \<^verbatim>\<open>(False, None)\<close>.
\<close>

datatype gate_answer = Replayed pyval | Held HeldOutcome | Degraded | Claimed

text \<open>
  \<open>record\<close> is the row as the SELECT returned it; the UPDATE changes the listed columns of the
  row that is there when it commits.
\<close>

definition resolve_existing_row ::
  "time \<Rightarrow> string \<Rightarrow> EffectRecord \<Rightarrow> string option \<Rightarrow> string option \<Rightarrow> nat option
   \<Rightarrow> ledger \<Rightarrow> gate_answer \<times> ledger" where
  "resolve_existing_row now action_id record eff_tenant eff_session linked l =
     (if er_status record = ''success''
      then (Replayed (er_result_payload record), count_gate ''replayed'' l)
      else if er_status record \<in> set HELD_LEDGER_STATUSES
      then (Held (held_outcome_from_record (er_status record) (er_result_payload record)),
            count_gate (er_status record @ ''_held'') l)
      else if er_status record = ''pending''
              \<and> now - STALE_PENDING_THRESHOLD_SECONDS * secs \<le> er_created_at record
      then (Degraded, count_gate ''degraded'' l)
      else
        let reclaim = (\<lambda>r. r\<lparr>er_status := ''pending'', er_completed_at := None, er_created_at := now,
              er_tenant_id := eff_tenant, er_session_id := eff_session,
              er_execution_id := (if er_execution_id record = None then linked
                                  else er_execution_id r)\<rparr>);
            rows = (case dget (effect_rows l) action_id of
                      Some r \<Rightarrow> dset action_id (reclaim r) (effect_rows l)
                    | None \<Rightarrow> effect_rows l)
        in (Claimed, count_gate ''reclaimed'' (l\<lparr>effect_rows := rows\<rparr>)))"

text \<open>
  \<open>seen\<close> is what the opening SELECT returned; when it saw no row, the INSERT runs against the
  table as it is then, and a row that appeared in between violates the unique index and is read
  again.
\<close>

definition resolve_effect_record ::
  "(string \<Rightarrow> string) \<Rightarrow> time \<Rightarrow> EffectRecord option \<Rightarrow> string \<Rightarrow> string \<Rightarrow> payload
   \<Rightarrow> string option \<Rightarrow> string option \<Rightarrow> nat option \<Rightarrow> effect_ctx \<Rightarrow> ledger
   \<Rightarrow> (py_exc + gate_answer) \<times> ledger" where
  "resolve_effect_record sha256 now seen action_id action_type payload tenant_id session_id linked c l =
     (let (ctx_tenant, ctx_session) = current_effect_attribution c;
          eff_tenant = (if tenant_id \<noteq> None then tenant_id else ctx_tenant);
          eff_session = (if session_id \<noteq> None then session_id else ctx_session)
      in case seen of
           Some record \<Rightarrow>
             (case resolve_existing_row now action_id record eff_tenant eff_session linked l of
                (a, l1) \<Rightarrow> (Inr a, l1))
         | None \<Rightarrow>
             (case json_dumps (PDict payload) of
                None \<Rightarrow> (Inl (TypeError ''Object is not JSON serializable''), l)
              | Some payload_bytes \<Rightarrow>
                  (case dget (effect_rows l) action_id of
                     Some record \<Rightarrow>
                       (case resolve_existing_row now action_id record eff_tenant eff_session linked l of
                          (a, l1) \<Rightarrow> (Inr a, l1))
                   | None \<Rightarrow>
                       (Inr Claimed, count_gate ''reserved'' (l\<lparr>effect_rows :=
                          effect_rows l @ [(action_id,
                            \<lparr>er_action_type = action_type, er_input_hash = sha256 payload_bytes,
                             er_execution_id = linked, er_tenant_id = eff_tenant,
                             er_session_id = eff_session, er_status = ''pending'',
                             er_result_payload = PNone, er_created_at = now,
                             er_completed_at = None\<rparr>)]\<rparr>)))))"

definition complete_effect_record ::
  "time \<Rightarrow> string \<Rightarrow> string \<Rightarrow> pyval \<Rightarrow> ledger \<Rightarrow> py_exc + ledger" where
  "complete_effect_record now action_id status result_payload l =
     (if status \<notin> set TERMINAL_EFFECT_STATUSES
      then Inl (ValueError (''cannot complete effect '' @ repr_str action_id @ '' with status '' @
             repr_str status @ ''. A completed effect must be one of '' @
             py_repr (PList (map PStr (sort TERMINAL_EFFECT_STATUSES))) @
             (if status = ''pending''
              then '' '' @ em_dash @ '' '' @ repr_str ''pending'' @ '' is the initial state, and '' @
                   ''returning a row to it hides it from TTL cleanup and reads as a stuck handler.''
              else ''.'')))
      else case dget (effect_rows l) action_id of
          None \<Rightarrow> Inr l
        | Some r \<Rightarrow> Inr (l\<lparr>effect_rows := dset action_id
            (r\<lparr>er_status := status,
               er_result_payload := (if py_isinstance result_payload T_dict then result_payload else PNone),
               er_completed_at := Some now\<rparr>) (effect_rows l)\<rparr>))"


section \<open>Reconciliation and cleanup\<close>

definition RECONCILE_STATUSES :: "string list" where
  "RECONCILE_STATUSES = [''failed'', ''success'']"

definition count_unknown_effects :: "ledger \<Rightarrow> nat" where
  "count_unknown_effects l = length (filter (\<lambda>e. er_status (snd e) = ''unknown'') (effect_rows l))"

record unknown_effect =
  ue_action_id :: string
  ue_action_type :: string
  ue_tenant_id :: "string option"
  ue_created_at :: time
  ue_completed_at :: "time option"
  ue_detail :: pyval
  ue_units :: pyval

text \<open>\<^verbatim>\<open>held.outcome or {}\<close>, then \<^verbatim>\<open>.get(...)\<close> on it; times stay numbers.\<close>

definition outcome_dict :: "HeldOutcome \<Rightarrow> payload" where
  "outcome_dict h = (case ho_outcome h of PDict d \<Rightarrow> d | _ \<Rightarrow> [])"

text \<open>\<^verbatim>\<open>_cleanup_expired_effect_records\<close> of \<^verbatim>\<open>scheduler_service.py\<close>: one DELETE per batch, oldest first, until a batch is short.\<close>

definition EFFECT_RECORD_TTL_DAYS :: int where
  "EFFECT_RECORD_TTL_DAYS = 90"

definition EFFECT_RECORD_DELETE_BATCH_SIZE :: nat where
  "EFFECT_RECORD_DELETE_BATCH_SIZE = 10000"

definition expired :: "time \<Rightarrow> EffectRecord \<Rightarrow> bool" where
  "expired cutoff r \<longleftrightarrow>
     (case er_completed_at r of None \<Rightarrow> False | Some t \<Rightarrow> t < cutoff)
     \<and> er_status r \<noteq> ''pending'' \<and> er_status r \<noteq> ''unknown''"

definition expired_batch :: "time \<Rightarrow> EffectRecord dict \<Rightarrow> string list" where
  "expired_batch cutoff rows =
     map fst (take EFFECT_RECORD_DELETE_BATCH_SIZE
       (sort_key (\<lambda>e. case er_completed_at (snd e) of Some t \<Rightarrow> t | None \<Rightarrow> 0)
         (filter (\<lambda>e. expired cutoff (snd e)) rows)))"

function delete_expired :: "time \<Rightarrow> EffectRecord dict \<Rightarrow> EffectRecord dict" where
  "delete_expired cutoff rows =
     (let batch = expired_batch cutoff rows;
          rest = filter (\<lambda>e. fst e \<notin> set batch) rows
      in if length batch < EFFECT_RECORD_DELETE_BATCH_SIZE then rest else delete_expired cutoff rest)"
  by pat_completeness auto

termination
proof (relation "measure (\<lambda>(cutoff, rows). length rows)", goal_cases)
  case (2 cutoff rows batch rest)
  then have "batch \<noteq> []" by (auto simp: EFFECT_RECORD_DELETE_BATCH_SIZE_def)
  then obtain k where k: "k \<in> set batch" by (meson list.set_sel(1))
  then obtain r where "(k, r) \<in> set rows"
    using 2(1) by (auto simp: expired_batch_def dest!: in_set_takeD)
  then have "length (filter (\<lambda>e. fst e \<notin> set batch) rows) < length rows"
    using k by (intro length_filter_less [of "(k, r)"]) auto
  then show ?case using 2(2) by simp
qed simp

declare delete_expired.simps [simp del]

definition cleanup_expired_effect_records :: "time \<Rightarrow> ledger \<Rightarrow> ledger" where
  "cleanup_expired_effect_records now l =
     l\<lparr>effect_rows := delete_expired (now - EFFECT_RECORD_TTL_DAYS * 86400 * secs) (effect_rows l)\<rparr>"

definition list_unknown_effects :: "int \<Rightarrow> ledger \<Rightarrow> unknown_effect list" where
  "list_unknown_effects limit l =
     map (\<lambda>(a, r).
       let outcome = outcome_dict (held_outcome_from_record (er_status r) (er_result_payload r)) in
       \<lparr>ue_action_id = a, ue_action_type = er_action_type r, ue_tenant_id = er_tenant_id r,
        ue_created_at = er_created_at r, ue_completed_at = er_completed_at r,
        ue_detail = pget outcome ''detail'',
        ue_units = (if truthy (pget outcome ''units'') then pget outcome ''units'' else PList [])\<rparr>)
     (take (nat (max 1 (min limit 500)))
        (sort_key (\<lambda>(a, r). (case er_completed_at r of Some t \<Rightarrow> (0 :: int, t) | None \<Rightarrow> (1, 0),
                              er_created_at r))
          (filter (\<lambda>e. er_status (snd e) = ''unknown'') (effect_rows l))))"

definition reconcile_effect_record ::
  "time \<Rightarrow> string \<Rightarrow> string \<Rightarrow> ledger \<Rightarrow> py_exc + payload \<times> ledger" where
  "reconcile_effect_record now action_id status l =
     (if status \<notin> set RECONCILE_STATUSES
      then Inl (ValueError (''an unknown effect resolves to one of '' @
             py_repr (PList (map PStr RECONCILE_STATUSES)) @ '', not '' @ repr_str status))
      else case dget (effect_rows l) action_id of
          None \<Rightarrow> Inl (Other_exc ''EffectNotFound'' action_id)
        | Some r \<Rightarrow>
            if er_status r \<noteq> ''unknown''
            then Inl (Other_exc ''EffectNotReconcilable'' (''effect '' @ repr_str action_id @ '' is '' @
                   repr_str (er_status r) @ '', not '' @ repr_str ''unknown''))
            else
              let held = held_outcome_from_record (er_status r) (er_result_payload r);
                  previous_detail = pget (outcome_dict held) ''detail'';
                  r1 = r\<lparr>er_status := status,
                         er_result_payload := (if status = ''success'' then ho_data held else PNone),
                         er_completed_at := Some now\<rparr>
              in Inr ([(''action_id'', PStr action_id), (''action_type'', PStr (er_action_type r)),
                       (''status'', PStr status), (''previous_status'', PStr ''unknown''),
                       (''previous_detail'', previous_detail)],
                      l\<lparr>effect_rows := dset action_id r1 (effect_rows l)\<rparr>))"



section \<open>Lemmas on single operations\<close>

definition landed :: "string \<Rightarrow> bool" where
  "landed status \<longleftrightarrow> status \<in> {''success'', ''partial'', ''unknown''}"

definition settled :: "ledger \<Rightarrow> string \<Rightarrow> bool" where
  "settled l a \<longleftrightarrow> (case dget (effect_rows l) a of Some r \<Rightarrow> landed (er_status r) | None \<Rightarrow> False)"

definition is_pending :: "ledger \<Rightarrow> string \<Rightarrow> bool" where
  "is_pending l a \<longleftrightarrow> (case dget (effect_rows l) a of Some r \<Rightarrow> er_status r = ''pending'' | None \<Rightarrow> False)"

lemma count_gate_rows [simp]:
  "effect_rows (count_gate x l) = effect_rows l"
  "gate_counts (count_gate x l) = gate_counts l @ [x]"
  by (simp_all add: count_gate_def)

text \<open>One call of the gate whose SELECT sees the current table.\<close>

definition gate_call ::
  "(string \<Rightarrow> string) \<Rightarrow> string \<Rightarrow> payload \<Rightarrow> effect_ctx \<Rightarrow> time \<Rightarrow> string \<Rightarrow> ledger
   \<Rightarrow> (py_exc + gate_answer) \<times> ledger" where
  "gate_call sha256 action_type payload c now a l =
     resolve_effect_record sha256 now (dget (effect_rows l) a) a action_type payload None None None c l"

lemma existing_row_cases:
  "resolve_existing_row now a r tn ss linked l =
     (if landed (er_status r)
      then (if er_status r = ''success'' then Replayed (er_result_payload r)
            else Held (held_outcome_from_record (er_status r) (er_result_payload r)),
            count_gate (if er_status r = ''success'' then ''replayed'' else er_status r @ ''_held'') l)
      else if er_status r = ''pending'' \<and> now - 900 * secs \<le> er_created_at r
      then (Degraded, count_gate ''degraded'' l)
      else (Claimed, count_gate ''reclaimed'' (l\<lparr>effect_rows :=
        (case dget (effect_rows l) a of None \<Rightarrow> effect_rows l
         | Some q \<Rightarrow> dset a (q\<lparr>er_status := ''pending'', er_completed_at := None, er_created_at := now,
             er_tenant_id := tn, er_session_id := ss,
             er_execution_id := (if er_execution_id r = None then linked else er_execution_id q)\<rparr>)
             (effect_rows l))\<rparr>)))"
  by (auto simp: resolve_existing_row_def landed_def HELD_LEDGER_STATUSES_def
      STALE_PENDING_THRESHOLD_SECONDS_def Let_def split: option.splits)

lemma gate_call_other:
  assumes "gate_call sha256 ty p c now a l = (res, l')" "b \<noteq> a"
  shows "dget (effect_rows l') b = dget (effect_rows l) b"
  using assms
  by (auto simp: gate_call_def resolve_effect_record_def existing_row_cases map_add_def Let_def
      split: option.splits if_splits prod.splits)

lemma gate_call_settled:
  assumes "settled l a"
  shows "\<exists>ans. fst (gate_call sha256 ty p c now a l) = Inr ans \<and> ans \<noteq> Claimed \<and> ans \<noteq> Degraded"
    and "effect_rows (snd (gate_call sha256 ty p c now a l)) = effect_rows l"
  using assms
  by (auto simp: settled_def gate_call_def resolve_effect_record_def existing_row_cases
      current_effect_attribution_def split: option.splits prod.splits)

lemma gate_call_claimed:
  assumes "gate_call sha256 ty p c now a l = (Inr Claimed, l')"
  shows "\<not> settled l a" and "is_pending l' a"
  using assms
  by (auto simp: settled_def is_pending_def gate_call_def resolve_effect_record_def existing_row_cases
      map_add_def split: option.splits prod.splits if_splits)

lemma gate_call_kept:
  assumes "gate_call sha256 ty p c now a l = (res, l')" "res \<noteq> Inr Claimed"
  shows "effect_rows l' = effect_rows l"
  using assms
  by (auto simp: gate_call_def resolve_effect_record_def existing_row_cases
      split: option.splits prod.splits if_splits)

definition finish :: "time \<Rightarrow> string \<Rightarrow> string \<Rightarrow> pyval \<Rightarrow> ledger \<Rightarrow> ledger" where
  "finish now a status p l = (case complete_effect_record now a status p l of Inl _ \<Rightarrow> l | Inr l' \<Rightarrow> l')"

lemma finish_simps:
  "settled (finish now a s p l) b =
     (if b = a \<and> dget (effect_rows l) a \<noteq> None \<and> s \<in> set TERMINAL_EFFECT_STATUSES then landed s
      else settled l b)"
  "is_pending (finish now a s p l) b =
     (if b = a \<and> dget (effect_rows l) a \<noteq> None \<and> s \<in> set TERMINAL_EFFECT_STATUSES then False
      else is_pending l b)"
  by (auto simp: finish_def complete_effect_record_def settled_def is_pending_def
      TERMINAL_EFFECT_STATUSES_def split: option.splits)

lemma landed_terminal: "landed s \<Longrightarrow> s \<in> set TERMINAL_EFFECT_STATUSES"
  by (auto simp: landed_def TERMINAL_EFFECT_STATUSES_def EFFECT_STATUSES_def)


section \<open>The contract of an effect gate\<close>

text \<open>
  What a caller that runs an effect behind the gate relies on: a settled effect is answered
  without a claim and stays settled; a claim is only given on an unsettled effect and opens its
  slot; finishing an open slot with a landed status settles it.
\<close>

locale effect_gate =
  fixes claim :: "time \<Rightarrow> string \<Rightarrow> 'l \<Rightarrow> (py_exc + gate_answer) \<times> 'l"
    and finish_slot :: "time \<Rightarrow> string \<Rightarrow> string \<Rightarrow> pyval \<Rightarrow> 'l \<Rightarrow> 'l"
    and is_settled :: "'l \<Rightarrow> string \<Rightarrow> bool"
    and slot_open :: "'l \<Rightarrow> string \<Rightarrow> bool"
  assumes no_claim: "is_settled l a \<Longrightarrow> fst (claim t a l) \<noteq> Inr Claimed"
    and stays: "is_settled l a \<Longrightarrow> is_settled (snd (claim t a l)) a"
    and opens: "claim t a l = (Inr Claimed, l') \<Longrightarrow> slot_open l' a"
    and settles: "slot_open l a \<Longrightarrow> landed s \<Longrightarrow> is_settled (finish_slot t a s p l) a"

text \<open>
  The loop of a caller that retries one effect: each attempt asks the gate, runs the effect when
  the slot is claimed (\<open>s\<close> is the status the run ends in), and records it. The result lists the
  statuses of the runs that happened.
\<close>

fun retry_runs ::
  "(time \<Rightarrow> string \<Rightarrow> 'l \<Rightarrow> (py_exc + gate_answer) \<times> 'l)
   \<Rightarrow> (time \<Rightarrow> string \<Rightarrow> string \<Rightarrow> pyval \<Rightarrow> 'l \<Rightarrow> 'l) \<Rightarrow> string
   \<Rightarrow> (time \<times> time \<times> string \<times> pyval) list \<Rightarrow> 'l \<Rightarrow> string list" where
  "retry_runs claim fin a [] l = []"
| "retry_runs claim fin a ((t1, t2, s, p) # rest) l =
     (case claim t1 a l of
        (Inr Claimed, l1) \<Rightarrow> s # retry_runs claim fin a rest (fin t2 a s p l1)
      | (_, l1) \<Rightarrow> retry_runs claim fin a rest l1)"

context effect_gate begin

lemma settled_never_runs:
  "is_settled l a \<Longrightarrow> retry_runs claim finish_slot a atts l = []"
proof (induction atts arbitrary: l)
  case (Cons att atts)
  obtain t1 t2 s p where att: "att = (t1, t2, s, p)" by (cases att)
  obtain r l1 where c: "claim t1 a l = (r, l1)" by (cases "claim t1 a l")
  have "r \<noteq> Inr Claimed" "is_settled l1 a" 
    using no_claim [OF Cons.prems, of t1] stays [OF Cons.prems, of t1] c by simp_all
  then show ?case using Cons.IH att c by (auto split: sum.splits gate_answer.splits)
qed simp

lemma landed_run_is_last:
  "retry_runs claim finish_slot a atts l = pre @ s # post \<Longrightarrow> landed s \<Longrightarrow> post = []"
proof (induction atts arbitrary: l pre)
  case (Cons att atts)
  obtain t1 t2 s' p where att: "att = (t1, t2, s', p)" by (cases att)
  obtain r l1 where c: "claim t1 a l = (r, l1)" by (cases "claim t1 a l")
  show ?case
  proof (cases "r = Inr Claimed")
    case True
    have *: "s' # retry_runs claim finish_slot a atts (finish_slot t2 a s' p l1) = pre @ s # post"
      using Cons.prems(1) att c True by simp
    show ?thesis
    proof (cases pre)
      case Nil
      then have "is_settled (finish_slot t2 a s' p l1) a"
        using * settles opens c True Cons.prems(2) by auto
      then show ?thesis using * Nil settled_never_runs by auto
    next
      case (Cons x xs)
      then show ?thesis using * Cons.IH Cons.prems(2) by auto
    qed
  next
    case False
    then show ?thesis
      using Cons att c by (auto split: sum.splits gate_answer.splits)
  qed
qed simp

end

interpretation ledger_gate: effect_gate "gate_call sha256 ty payload c" finish settled is_pending
proof
  show "fst (gate_call sha256 ty payload c t a l) \<noteq> Inr Claimed" if "settled l a" for l a t
    using gate_call_settled(1) [OF that] by (metis Inr_inject)
  show "settled (snd (gate_call sha256 ty payload c t a l)) a" if "settled l a" for l a t
    using gate_call_settled(2) [OF that] that by (simp add: settled_def)
  show "is_pending l' a" if "gate_call sha256 ty payload c t a l = (Inr Claimed, l')" for t a l l'
    by (rule gate_call_claimed(2) [OF that])
  show "settled (finish t a s p l) a" if "is_pending l a" "landed s" for l a s t p
    using that landed_terminal by (auto simp: finish_simps is_pending_def split: option.splits)
qed



section \<open>Concurrent callers behind the strict lock\<close>

text \<open>
  Any number of \<^verbatim>\<open>AT_MOST_ONCE\<close> callers. Such a caller holds the advisory lock of its action from
  before it asks the gate until its outcome is recorded (\<open>running\<close> lists the actions whose lock is
  held by a running handler); it runs the effect only on \<open>Claimed\<close> and on any other answer replays
  or refuses and unlocks. A crash drops the connection, and with it the lock. \<open>done\<close> is the
  history of recorded outcomes; an operator who reconciles an unknown effect to \<open>failed\<close> has
  established that it did not land.
\<close>

record amo_sys =
  amo_ledger :: ledger
  amo_running :: "string list"
  amo_done :: "(string \<times> string) list"
  amo_clock :: time

definition amo_init :: "amo_sys \<Rightarrow> bool" where
  "amo_init s \<longleftrightarrow> effect_rows (amo_ledger s) = [] \<and> amo_running s = [] \<and> amo_done s = []"

inductive amo_step :: "(string \<Rightarrow> string) \<Rightarrow> amo_sys \<Rightarrow> amo_sys \<Rightarrow> bool" for sha256 where
  amo_tick: "0 \<le> d \<Longrightarrow> amo_step sha256 s (s\<lparr>amo_clock := amo_clock s + d\<rparr>)"
| amo_claim: "a \<notin> set (amo_running s) \<Longrightarrow>
    gate_call sha256 ty p c (amo_clock s) a (amo_ledger s) = (Inr Claimed, l) \<Longrightarrow>
    amo_step sha256 s (s\<lparr>amo_ledger := l, amo_running := a # amo_running s\<rparr>)"
| amo_answer: "a \<notin> set (amo_running s) \<Longrightarrow>
    gate_call sha256 ty p c (amo_clock s) a (amo_ledger s) = (res, l) \<Longrightarrow> res \<noteq> Inr Claimed \<Longrightarrow>
    amo_step sha256 s (s\<lparr>amo_ledger := l\<rparr>)"
| amo_finish: "a \<in> set (amo_running s) \<Longrightarrow>
    complete_effect_record (amo_clock s) a status p (amo_ledger s) = Inr l \<Longrightarrow>
    amo_step sha256 s (s\<lparr>amo_ledger := l, amo_running := remove1 a (amo_running s),
                         amo_done := (a, status) # amo_done s\<rparr>)"
| amo_crash: "a \<in> set (amo_running s) \<Longrightarrow>
    amo_step sha256 s (s\<lparr>amo_running := remove1 a (amo_running s)\<rparr>)"
| amo_reconcile: "reconcile_effect_record (amo_clock s) a status (amo_ledger s) = Inr (info, l) \<Longrightarrow>
    amo_step sha256 s (s\<lparr>amo_ledger := l,
      amo_done := (if status = ''failed'' then filter (\<lambda>d. fst d \<noteq> a) (amo_done s) else amo_done s)\<rparr>)"

definition landed_actions :: "(string \<times> string) list \<Rightarrow> string list" where
  "landed_actions ds = map fst (filter (\<lambda>d. landed (snd d)) ds)"

lemma landed_actions_Cons [simp]:
  "landed_actions ((a, s) # ds) = (if landed s then a # landed_actions ds else landed_actions ds)"
  by (simp add: landed_actions_def)

definition amo_ok :: "amo_sys \<Rightarrow> bool" where
  "amo_ok s \<longleftrightarrow> distinct (amo_running s)
     \<and> (\<forall>a \<in> set (amo_running s). is_pending (amo_ledger s) a)
     \<and> (\<forall>a \<in> set (landed_actions (amo_done s)). settled (amo_ledger s) a)
     \<and> distinct (landed_actions (amo_done s))"

lemma pending_not_settled: "is_pending l a \<Longrightarrow> \<not> settled l a"
  by (auto simp: is_pending_def settled_def landed_def split: option.splits)

lemma gate_call_frame:
  assumes "gate_call sha256 ty p c now a l = (res, l')"
  shows "b \<noteq> a \<Longrightarrow> settled l' b = settled l b" "b \<noteq> a \<Longrightarrow> is_pending l' b = is_pending l b"
  using gate_call_other [OF assms] by (simp_all add: settled_def is_pending_def)

lemma complete_as_finish:
  assumes "complete_effect_record now a s p l = Inr l'"
  shows "l' = finish now a s p l" "s \<in> set TERMINAL_EFFECT_STATUSES"
  using assms by (auto simp: finish_def complete_effect_record_def split: if_splits)

lemma reconcile_effect:
  assumes "reconcile_effect_record now a status l = Inr (info, l')"
  shows "\<not> is_pending l a" "status = ''success'' \<or> status = ''failed''"
    and "settled l' b = (if b = a then status = ''success'' else settled l b)"
    and "is_pending l' b = (if b = a then False else is_pending l b)"
  using assms
  by (auto simp: reconcile_effect_record_def is_pending_def settled_def landed_def RECONCILE_STATUSES_def
      Let_def split: option.splits if_splits)

lemma amo_ok_step:
  assumes "amo_step sha256 s t" "amo_ok s"
  shows "amo_ok t"
  using assms
proof (induction rule: amo_step.induct)
  case (amo_claim a s ty p c l)
  note c = gate_call_claimed [OF amo_claim(2)] and f = gate_call_frame [OF amo_claim(2)]
  then show ?case
    using amo_claim(1,3) unfolding amo_ok_def by (auto; metis)
next
  case (amo_answer a s ty p c res l)
  then show ?case
    using gate_call_kept [OF amo_answer(2,3)] by (simp add: amo_ok_def settled_def is_pending_def)
next
  case (amo_finish a s status p l)
  note l = complete_as_finish [OF amo_finish(2)]
  have p: "is_pending (amo_ledger s) a" using amo_finish(1,3) by (simp add: amo_ok_def)
  then have "a \<notin> set (landed_actions (amo_done s))"
    using amo_finish(3) pending_not_settled by (auto simp: amo_ok_def)
  moreover have "dget (effect_rows (amo_ledger s)) a \<noteq> None"
    using p by (auto simp: is_pending_def split: option.splits)
  ultimately show ?case
    using amo_finish(1,3) l by (auto simp: amo_ok_def finish_simps)
next
  case (amo_reconcile s a status info l)
  note r = reconcile_effect [OF amo_reconcile(1)]
  have "landed_actions (filter (\<lambda>d. fst d \<noteq> a) ds) = filter (\<lambda>x. x \<noteq> a) (landed_actions ds)" for ds
    by (induction ds) (auto simp: landed_actions_def)
  then show ?case
    using amo_reconcile(2) r by (auto simp: amo_ok_def)
qed (auto simp: amo_ok_def)


section \<open>Cleanup in batches\<close>

lemma expired_batch_rows:
  assumes "distinct (dkeys rows)" "(k, r) \<in> set rows" "k \<in> set (expired_batch cutoff rows)"
  shows "expired cutoff r"
proof -
  obtain r' where "(k, r') \<in> set rows" "expired cutoff r'"
    using assms(3) by (auto simp: expired_batch_def dest!: in_set_takeD)
  then show ?thesis using assms(1,2) by (metis eq_key_imp_eq_value)
qed

lemma expired_batch_short:
  assumes "length (expired_batch cutoff rows) < EFFECT_RECORD_DELETE_BATCH_SIZE"
  shows "set (expired_batch cutoff rows) = fst ` {e \<in> set rows. expired cutoff (snd e)}"
proof -
  have "take EFFECT_RECORD_DELETE_BATCH_SIZE xs = xs"
    if "length (take EFFECT_RECORD_DELETE_BATCH_SIZE xs) < EFFECT_RECORD_DELETE_BATCH_SIZE" for xs :: "'a list"
    using that by simp
  then show ?thesis using assms by (simp add: expired_batch_def)
qed

lemma delete_expired_exact:
  "distinct (dkeys rows) \<Longrightarrow> delete_expired cutoff rows = filter (\<lambda>e. \<not> expired cutoff (snd e)) rows"
proof (induction cutoff rows rule: delete_expired.induct)
  case (1 cutoff rows)
  let ?batch = "expired_batch cutoff rows"
  let ?rest = "filter (\<lambda>e. fst e \<notin> set ?batch) rows"
  have sub: "filter (\<lambda>e. \<not> expired cutoff (snd e)) ?rest = filter (\<lambda>e. \<not> expired cutoff (snd e)) rows"
    unfolding filter_filter using expired_batch_rows [OF 1(2)] by (intro filter_cong refl) auto
  show ?case
  proof (cases "length ?batch < EFFECT_RECORD_DELETE_BATCH_SIZE")
    case True
    have "?rest = filter (\<lambda>e. \<not> expired cutoff (snd e)) rows"
      using expired_batch_short [OF True] expired_batch_rows [OF 1(2)]
      by (intro filter_cong refl) force
    then show ?thesis using True by (subst delete_expired.simps) (simp add: Let_def)
  next
    case False
    have "delete_expired cutoff ?rest = filter (\<lambda>e. \<not> expired cutoff (snd e)) ?rest"
      using False 1(2) by (intro 1(1)) auto
    then show ?thesis using False sub by (subst delete_expired.simps) (simp add: Let_def)
  qed
qed



section \<open>Properties\<close>


definition sample_amo :: amo_sys where
  "sample_amo = \<lparr>amo_ledger = \<lparr>effect_rows = [], gate_counts = []\<rparr>, amo_running = [], amo_done = [],
                 amo_clock = 0\<rparr>"

lemma sample_amo_running:
  "\<exists>l. reach amo_init (amo_step (\<lambda>x. x)) (sample_amo\<lparr>amo_ledger := l, amo_running := [''k'']\<rparr>)"
proof -
  have r: "reach amo_init (amo_step (\<lambda>x. x)) sample_amo"
    by (rule reach_init) (simp add: amo_init_def sample_amo_def)
  obtain l where "gate_call (\<lambda>x. x) ''t'' [] initial_effect_ctx (amo_clock sample_amo) ''k''
      (amo_ledger sample_amo) = (Inr Claimed, l)"
    by (simp add: gate_call_def resolve_effect_record_def sample_amo_def json_dumps_def
        current_effect_attribution_def initial_effect_ctx_def)
  moreover have "''k'' \<notin> set (amo_running sample_amo)" by (simp add: sample_amo_def)
  ultimately have "amo_step (\<lambda>x. x) sample_amo
      (sample_amo\<lparr>amo_ledger := l, amo_running := ''k'' # amo_running sample_amo\<rparr>)"
    by (rule amo_claim [rotated])
  then show ?thesis using reach_step [OF r] by (auto simp: sample_amo_def)
qed


text \<open>
  C24. Retrying one effect through the gate: whatever statuses the runs would end in, the runs that
  really happen end with the first one that landed; after a success, a partial or an unknown
  outcome no later attempt runs the handler.
\<close>

theorem retries_stop_at_first_landed:
  assumes "retry_runs (gate_call sha256 ty payload c) finish a attempts l = pre @ s # post" "landed s"
  shows "post = [] \<and> \<not> list_ex landed pre"
proof -
  have "post = []" by (rule ledger_gate.landed_run_is_last [OF assms])
  moreover have "\<not> landed u" if "u \<in> set pre" for u
  proof
    assume u: "landed u"
    from that obtain p1 p2 where "pre = p1 @ u # p2" by (meson split_list)
    then have "p2 @ s # post = []"
      using assms(1) u ledger_gate.landed_run_is_last [of sha256 ty payload c a attempts l p1 u] by simp
    then show False by simp
  qed
  ultimately show ?thesis by (auto simp: list_ex_iff)
qed

definition sample_attempts :: "(time \<times> time \<times> string \<times> pyval) list" where
  "sample_attempts =
     [(0, 1, ''failed'', PNone), (2, 3, ''success'', PDict []), (4, 5, ''success'', PDict [])]"

theorem retries_stop_at_first_landed_witness:
  "retry_runs (gate_call (\<lambda>x. x) ''t'' [] initial_effect_ctx) finish ''k'' sample_attempts
     \<lparr>effect_rows = [], gate_counts = []\<rparr> = [''failed''] @ ''success'' # []
   \<and> \<not> list_ex landed [''failed'']"
proof -
  have *: "retry_runs (gate_call (\<lambda>x. x) ''t'' [] initial_effect_ctx) finish ''k'' sample_attempts
      \<lparr>effect_rows = [], gate_counts = []\<rparr> = [''failed''] @ ''success'' # []"
    by code_simp
  then show ?thesis using retries_stop_at_first_landed [OF *] by (simp add: landed_def)
qed

text \<open>
  C25. What the gate answers on each state of the row, as the SELECT saw it: no row claims a new
  pending slot; a success is replayed and a partial or unknown outcome is held, with the table
  untouched; a pending row younger than 900 seconds degrades the call, with the table untouched; an
  older one and a failed one are reclaimed. Every answer moves the gate counter exactly once and no
  other action's row changes.
\<close>

theorem gate_decision:
  assumes "json_ok (PDict payload)" "gate_call sha256 ty payload c now a l = (res, l')"
  shows "length (gate_counts l') = Suc (length (gate_counts l))
    \<and> (\<forall>b. b \<noteq> a \<longrightarrow> dget (effect_rows l') b = dget (effect_rows l) b)
    \<and> (case dget (effect_rows l) a of
         None \<Rightarrow> res = Inr Claimed \<and> is_pending l' a
       | Some r \<Rightarrow>
           if er_status r = ''success''
           then res = Inr (Replayed (er_result_payload r)) \<and> effect_rows l' = effect_rows l
           else if er_status r = ''partial'' \<or> er_status r = ''unknown''
           then res = Inr (Held (held_outcome_from_record (er_status r) (er_result_payload r)))
             \<and> effect_rows l' = effect_rows l
           else if er_status r = ''pending'' \<and> now - er_created_at r \<le> 900 * secs
           then res = Inr Degraded \<and> effect_rows l' = effect_rows l
           else res = Inr Claimed \<and> is_pending l' a)"
proof -
  have "\<exists>t. json_dumps (PDict payload) = Some t" using assms(1) by (simp add: json_dumps_def)
  then show ?thesis
    using assms(2) gate_call_other [OF assms(2)]
    by (auto simp: gate_call_def resolve_effect_record_def existing_row_cases is_pending_def landed_def
        current_effect_attribution_def map_add_def Let_def algebra_simps
        split: option.splits prod.splits if_splits)
qed

theorem gate_decision_witness:
  "is_pending (snd (gate_call (\<lambda>x. x) ''t'' [] initial_effect_ctx 0 ''k''
     \<lparr>effect_rows = [], gate_counts = []\<rparr>)) ''k''"
  using gate_decision [of "[]" "\<lambda>x. x" "''t''" initial_effect_ctx 0 "''k''"
      "\<lparr>effect_rows = [], gate_counts = []\<rparr>", OF _ surjective_pairing]
  by simp


text \<open>
  Reconciling: an unknown effect that an operator resolves to \<open>success\<close> is afterwards replayed
  with exactly the data its handler returned (the wrapper that held the outcome is gone), and one
  resolved to \<open>failed\<close> is afterwards claimed again; a row in any other status is refused.
\<close>

theorem reconciled_effect_replays:
  assumes "dget (effect_rows l) a = Some r"
    and "er_result_payload r = PDict (held_record_payload (PDict data) outcome)"
  shows "(er_status r = ''unknown'' \<longrightarrow>
      (\<exists>info1 info2 l1 l2. reconcile_effect_record t a ''success'' l = Inr (info1, l1)
        \<and> fst (gate_call sha256 ty payload c now a l1) = Inr (Replayed (PDict data))
        \<and> reconcile_effect_record t a ''failed'' l = Inr (info2, l2)
        \<and> fst (gate_call sha256 ty payload c now a l2) = Inr Claimed))
    \<and> (er_status r \<noteq> ''unknown'' \<longrightarrow>
        (\<exists>m. reconcile_effect_record t a status l \<in>
           {Inl (Other_exc ''EffectNotReconcilable'' m), Inl (ValueError m)}))"
proof -
  have held: "held_outcome_from_record (er_status r) (PDict (held_record_payload (PDict data) outcome)) =
      \<lparr>ho_status = er_status r, ho_data = PDict data,
       ho_outcome = (if truthy (PDict (case outcome of None \<Rightarrow> [] | Some d \<Rightarrow> d))
         then PDict (case outcome of None \<Rightarrow> [] | Some d \<Rightarrow> d) else PNone)\<rparr>"
    by (simp add: held_outcome_from_record_def held_record_payload_def HELD_KEY_def pget_def dget_or_def)
  show ?thesis
    using assms held
    by (auto simp: reconcile_effect_record_def RECONCILE_STATUSES_def gate_call_def
        resolve_effect_record_def existing_row_cases landed_def current_effect_attribution_def Let_def
        split: prod.splits)
qed

definition sample_unknown_row :: EffectRecord where
  "sample_unknown_row =
     \<lparr>er_action_type = ''t'', er_input_hash = [], er_execution_id = None, er_tenant_id = None,
      er_session_id = None, er_status = ''unknown'',
      er_result_payload = PDict (held_record_payload (PDict [(''n'', PInt 1)]) None),
      er_created_at = 0, er_completed_at = Some 1\<rparr>"

theorem reconciled_effect_replays_witness:
  "\<exists>info1 l1. reconcile_effect_record 2 ''k'' ''success''
        \<lparr>effect_rows = [(''k'', sample_unknown_row)], gate_counts = []\<rparr> = Inr (info1, l1)
     \<and> fst (gate_call (\<lambda>x. x) ''t'' [] initial_effect_ctx 3 ''k'' l1) =
         Inr (Replayed (PDict [(''n'', PInt 1)]))"
  using reconciled_effect_replays [of "\<lparr>effect_rows = [(''k'', sample_unknown_row)], gate_counts = []\<rparr>"
      "''k''" sample_unknown_row "[(''n'', PInt 1)]" None 2 "\<lambda>x. x" "''t''" "[]" initial_effect_ctx 3]
  by (simp add: sample_unknown_row_def) blast

text \<open>
  The batched cleanup terminates and deletes exactly the expired rows: those completed before the
  cutoff that are neither pending nor unknown; every other row, an unknown effect of any age
  included, is kept in its place.
\<close>

theorem cleanup_deletes_exactly_expired:
  assumes "distinct (dkeys (effect_rows l))"
  shows "effect_rows (cleanup_expired_effect_records now l) =
    filter (\<lambda>(a, r). \<not> ((\<exists>t. er_completed_at r = Some t \<and> t < now - 90 * 86400 * secs)
      \<and> er_status r \<noteq> ''pending'' \<and> er_status r \<noteq> ''unknown'')) (effect_rows l)"
  using delete_expired_exact [OF assms]
  by (auto simp: cleanup_expired_effect_records_def expired_def EFFECT_RECORD_TTL_DAYS_def case_prod_beta
      intro!: filter_cong split: option.splits)

theorem cleanup_deletes_exactly_expired_witness:
  "effect_rows (cleanup_expired_effect_records (100 * 86400 * secs)
     \<lparr>effect_rows = [(''k'', sample_unknown_row),
        (''j'', sample_unknown_row\<lparr>er_status := ''success''\<rparr>)], gate_counts = []\<rparr>) =
   [(''k'', sample_unknown_row)]"
  by (subst cleanup_deletes_exactly_expired) (simp_all add: sample_unknown_row_def secs_def)

text \<open>
  Without the strict lock the reclaim is a race: two callers whose SELECTs both return the same
  failed row both claim it, so both run the handler, and the counter records two reclaims and no
  degraded call.
\<close>

theorem double_reclaim:
  assumes "dget (effect_rows l) a = Some r" "er_status r = ''failed''"
    and "resolve_effect_record sha256 t1 (Some r) a ty p tn ss lk c l = (res1, l1)"
    and "resolve_effect_record sha256 t2 (Some r) a ty p tn' ss' lk' c' l1 = (res2, l2)"
  shows "res1 = Inr Claimed \<and> res2 = Inr Claimed
    \<and> gate_counts l2 = gate_counts l @ [''reclaimed'', ''reclaimed'']"
  using assms
  by (auto simp: resolve_effect_record_def existing_row_cases landed_def Let_def split: prod.splits)

theorem double_reclaim_witness:
  "\<exists>l2. resolve_effect_record (\<lambda>x. x) 2 (Some (sample_unknown_row\<lparr>er_status := ''failed''\<rparr>)) ''k'' ''t'' []
      None None None initial_effect_ctx
      (snd (resolve_effect_record (\<lambda>x. x) 1 (Some (sample_unknown_row\<lparr>er_status := ''failed''\<rparr>)) ''k''
        ''t'' [] None None None initial_effect_ctx
        \<lparr>effect_rows = [(''k'', sample_unknown_row\<lparr>er_status := ''failed''\<rparr>)], gate_counts = []\<rparr>))
      = (Inr Claimed, l2) \<and> gate_counts l2 = [''reclaimed'', ''reclaimed'']"
  using double_reclaim [OF _ _ surjective_pairing surjective_pairing,
      of "\<lparr>effect_rows = [(''k'', sample_unknown_row\<lparr>er_status := ''failed''\<rparr>)], gate_counts = []\<rparr>"
         "''k''" "sample_unknown_row\<lparr>er_status := ''failed''\<rparr>" "\<lambda>x. x" 1 "''t''" "[]" None None None
         initial_effect_ctx 2 None None None initial_effect_ctx]
  by (simp add: prod_eq_iff)

text \<open>
  A recorded success is not final: when a call that ran beside the winner (degraded, so without a
  slot of its own) fails after the winner's success was recorded, its \<open>failed\<close> replaces the success,
  and the next call for the action claims the slot and runs the effect again.
\<close>

theorem late_failure_reopens_success:
  assumes "is_pending l a"
  shows "settled (finish t1 a ''success'' p1 l) a
    \<and> fst (gate_call sha256 ty payload c now a (finish t2 a ''failed'' p2 (finish t1 a ''success'' p1 l))) =
        Inr Claimed"
  using assms
  by (auto simp: is_pending_def settled_def gate_call_def resolve_effect_record_def existing_row_cases
      landed_def finish_def complete_effect_record_def TERMINAL_EFFECT_STATUSES_def EFFECT_STATUSES_def
      current_effect_attribution_def Let_def split: option.splits prod.splits)

theorem late_failure_reopens_success_witness:
  "fst (gate_call (\<lambda>x. x) ''t'' [] initial_effect_ctx 9 ''k''
     (finish 2 ''k'' ''failed'' PNone (finish 1 ''k'' ''success'' PNone
       \<lparr>effect_rows = [(''k'', sample_unknown_row\<lparr>er_status := ''pending''\<rparr>)], gate_counts = []\<rparr>))) =
   Inr Claimed"
proof -
  have "is_pending \<lparr>effect_rows = [(''k'', sample_unknown_row\<lparr>er_status := ''pending''\<rparr>)],
      gate_counts = []\<rparr> ''k''"
    by (simp add: is_pending_def)
  then show ?thesis using late_failure_reopens_success by blast
qed

end
