(* ===== verification/Redis_Backend.thy ===== *)
theory Redis_Backend
  imports Py_Values
begin

text \<open>
  \<^verbatim>\<open>AINDY/kernel/resource_manager.py\<close>, first half: the quota constants, a small model of Redis
  (integer and hash keys with expiry), and every method of \<^verbatim>\<open>RedisResourceBackend\<close> together with
  the wrapper that calls it.
\<close>


section \<open>Constants\<close>

definition int_env :: "env \<Rightarrow> string \<Rightarrow> int \<Rightarrow> int" where
  "int_env e key dflt =
     (case e key of None \<Rightarrow> dflt
      | Some s \<Rightarrow> (case py_int10 s of None \<Rightarrow> dflt | Some i \<Rightarrow> i))"

record quota_cfg =
  MAX_WALL_TIME_MS :: int
  MAX_MEMORY_BYTES :: int
  MAX_SYSCALLS_PER_EXECUTION :: int
  MAX_CONCURRENT_PER_TENANT :: int
  MAX_TOKENS_PER_EXECUTION :: int
  MAX_TOKENS_PER_TENANT_WINDOW :: int

definition quota_constants :: "env \<Rightarrow> quota_cfg" where
  "quota_constants e =
     \<lparr>MAX_WALL_TIME_MS = int_env e ''AINDY_QUOTA_CPU_MS'' 300000,
      MAX_MEMORY_BYTES = int_env e ''AINDY_QUOTA_MEMORY_BYTES'' (256 * 1024 * 1024),
      MAX_SYSCALLS_PER_EXECUTION = int_env e ''AINDY_QUOTA_MAX_SYSCALLS'' 100,
      MAX_CONCURRENT_PER_TENANT = int_env e ''AINDY_QUOTA_MAX_CONCURRENT'' 5,
      MAX_TOKENS_PER_EXECUTION = int_env e ''AINDY_QUOTA_MAX_TOKENS'' 0,
      MAX_TOKENS_PER_TENANT_WINDOW = int_env e ''AINDY_QUOTA_MAX_TENANT_TOKENS'' 0\<rparr>"

definition GLOBAL_LIMITS :: "quota_cfg \<Rightarrow> int dict" where
  "GLOBAL_LIMITS cfg =
     [(''wall_time_ms'', MAX_WALL_TIME_MS cfg),
      (''syscalls'', MAX_SYSCALLS_PER_EXECUTION cfg),
      (''tokens'', MAX_TOKENS_PER_EXECUTION cfg)]"

definition run_scoped_quota_enabled :: "env \<Rightarrow> bool" where
  "run_scoped_quota_enabled e \<longleftrightarrow>
     env_flag e ''AINDY_RUN_SCOPED_QUOTA'' \<notin> {''0'', ''false'', ''no'', ''off''}"

definition LIMIT_EXCEEDED :: string where
  "LIMIT_EXCEEDED = ''RESOURCE_LIMIT_EXCEEDED''"

definition EU_KEY_TTL_SECONDS :: int where
  "EU_KEY_TTL_SECONDS = 3600"

definition TENANT_KEY_TTL_SECONDS :: int where
  "TENANT_KEY_TTL_SECONDS = 86400"

definition EVICTION_SWEEP_INTERVAL_SECONDS :: int where
  "EVICTION_SWEEP_INTERVAL_SECONDS = 60"

definition REDIS_CHECK_INTERVAL :: int where
  "REDIS_CHECK_INTERVAL = 30"


section \<open>Redis\<close>

text \<open>Integer keys and hash keys, each with the time it expires at.\<close>

record redis_db =
  r_ints :: "(int \<times> time option) dict"
  r_hashes :: "(int dict \<times> time option) dict"

definition r_live :: "time \<Rightarrow> 'a \<times> time option \<Rightarrow> bool" where
  "r_live now v \<longleftrightarrow> (case snd v of None \<Rightarrow> True | Some t \<Rightarrow> now < t)"

definition r_get :: "time \<Rightarrow> string \<Rightarrow> redis_db \<Rightarrow> int option" where
  "r_get now k d =
     (case dget (r_ints d) k of
        Some v \<Rightarrow> if r_live now v then Some (fst v) else None
      | None \<Rightarrow> None)"

definition r_int :: "time \<Rightarrow> string \<Rightarrow> redis_db \<Rightarrow> int" where
  "r_int now k d = (case r_get now k d of None \<Rightarrow> 0 | Some v \<Rightarrow> v)"

text \<open>A new value keeps the expiry of a live key (\<^verbatim>\<open>INCRBY\<close>), or drops it (\<^verbatim>\<open>SET\<close>).\<close>

definition r_incrby :: "time \<Rightarrow> string \<Rightarrow> int \<Rightarrow> redis_db \<Rightarrow> int \<times> redis_db" where
  "r_incrby now k n d =
     (let v = r_int now k d + n;
          ex = (case dget (r_ints d) k of
                  Some w \<Rightarrow> if r_live now w then snd w else None | None \<Rightarrow> None)
      in (v, d\<lparr>r_ints := dset k (v, ex) (r_ints d)\<rparr>))"

definition r_set :: "string \<Rightarrow> int \<Rightarrow> redis_db \<Rightarrow> redis_db" where
  "r_set k v d = d\<lparr>r_ints := dset k (v, None) (r_ints d)\<rparr>"

definition r_expire :: "time \<Rightarrow> string \<Rightarrow> int \<Rightarrow> redis_db \<Rightarrow> redis_db" where
  "r_expire now k ttl d =
     (case r_get now k d of
        None \<Rightarrow> d
      | Some v \<Rightarrow> d\<lparr>r_ints := dset k (v, Some (now + ttl * secs)) (r_ints d)\<rparr>)"

definition r_hgetall :: "time \<Rightarrow> string \<Rightarrow> redis_db \<Rightarrow> int dict" where
  "r_hgetall now k d =
     (case dget (r_hashes d) k of
        Some v \<Rightarrow> if r_live now v then fst v else []
      | None \<Rightarrow> [])"

definition r_hset :: "time \<Rightarrow> string \<Rightarrow> int dict \<Rightarrow> redis_db \<Rightarrow> redis_db" where
  "r_hset now k m d =
     (let ex = (case dget (r_hashes d) k of
                  Some w \<Rightarrow> if r_live now w then snd w else None | None \<Rightarrow> None)
      in d\<lparr>r_hashes := dset k (foldl (\<lambda>h (f, v). dset f v h) (r_hgetall now k d) m, ex) (r_hashes d)\<rparr>)"

definition r_hexpire :: "time \<Rightarrow> string \<Rightarrow> int \<Rightarrow> redis_db \<Rightarrow> redis_db" where
  "r_hexpire now k ttl d =
     (if r_hgetall now k d = [] then d
      else d\<lparr>r_hashes := dset k (r_hgetall now k d, Some (now + ttl * secs)) (r_hashes d)\<rparr>)"

definition r_delete :: "string list \<Rightarrow> redis_db \<Rightarrow> redis_db" where
  "r_delete ks d =
     d\<lparr>r_ints := filter (\<lambda>e. fst e \<notin> set ks) (r_ints d),
       r_hashes := filter (\<lambda>e. fst e \<notin> set ks) (r_hashes d)\<rparr>"


section \<open>RedisResourceBackend\<close>

text \<open>
  One backend call can succeed, fail before it changes anything, or (for the two-command ones) fail
  between the change and the \<^verbatim>\<open>EXPIRE\<close>; both failures surface as \<^verbatim>\<open>RedisError\<close>, which the
  wrappers turn into \<open>None\<close>.
\<close>

datatype r_fault = R_ok | R_down | R_expire_fails

definition tenant_key :: "string \<Rightarrow> string" where
  "tenant_key t = ''aindy:rm:tenant:'' @ t @ '':active''"

definition cpu_key :: "string \<Rightarrow> string" where
  "cpu_key e = ''aindy:rm:eu:'' @ e @ '':cpu_ms''"

definition syscalls_key :: "string \<Rightarrow> string" where
  "syscalls_key e = ''aindy:rm:eu:'' @ e @ '':syscalls''"

definition memory_key :: "string \<Rightarrow> string" where
  "memory_key e = ''aindy:rm:eu:'' @ e @ '':memory_bytes''"

definition tokens_key :: "string \<Rightarrow> string" where
  "tokens_key e = ''aindy:rm:eu:'' @ e @ '':tokens''"

definition tenant_tokens_key :: "string \<Rightarrow> string" where
  "tenant_tokens_key t = ''aindy:rm:tenant:'' @ t @ '':tokens''"

definition limits_key :: "string \<Rightarrow> string" where
  "limits_key e = ''aindy:rm:eu:'' @ e @ '':limits''"

text \<open>\<^verbatim>\<open>INCRBY\<close> followed by \<^verbatim>\<open>EXPIRE\<close>, the shape of every counter of the class.\<close>

definition r_add :: "r_fault \<Rightarrow> time \<Rightarrow> string \<Rightarrow> int \<Rightarrow> int \<Rightarrow> redis_db \<Rightarrow> int option \<times> redis_db" where
  "r_add f now k n ttl d =
     (case f of
        R_down \<Rightarrow> (None, d)
      | R_expire_fails \<Rightarrow> (None, snd (r_incrby now k n d))
      | R_ok \<Rightarrow> (let (v, d1) = r_incrby now k n d in (Some v, r_expire now k ttl d1)))"

definition r_read :: "r_fault \<Rightarrow> time \<Rightarrow> string \<Rightarrow> redis_db \<Rightarrow> int option" where
  "r_read f now k d = (if f = R_ok then Some (r_int now k d) else None)"

definition increment_tenant_active :: "r_fault \<Rightarrow> time \<Rightarrow> string \<Rightarrow> redis_db \<Rightarrow> int option \<times> redis_db" where
  "increment_tenant_active f now t d = r_add f now (tenant_key t) 1 TENANT_KEY_TTL_SECONDS d"

text \<open>The script \<^verbatim>\<open>_DECR_FLOOR_LUA\<close> runs as a whole or not at all.\<close>

definition decrement_tenant_active :: "r_fault \<Rightarrow> time \<Rightarrow> string \<Rightarrow> redis_db \<Rightarrow> int option \<times> redis_db" where
  "decrement_tenant_active f now t d =
     (if f \<noteq> R_ok then (None, d)
      else
        let (value, d1) = r_incrby now (tenant_key t) (-1) d;
            (value, d2) = (if value < 0 then (0, r_set (tenant_key t) 0 d1) else (value, d1))
        in (Some value, r_expire now (tenant_key t) TENANT_KEY_TTL_SECONDS d2))"

definition get_tenant_active_shared :: "r_fault \<Rightarrow> time \<Rightarrow> string \<Rightarrow> redis_db \<Rightarrow> int option" where
  "get_tenant_active_shared f now t d = r_read f now (tenant_key t) d"

definition add_cpu_ms :: "r_fault \<Rightarrow> time \<Rightarrow> string \<Rightarrow> int \<Rightarrow> redis_db \<Rightarrow> int option \<times> redis_db" where
  "add_cpu_ms f now e ms d = r_add f now (cpu_key e) ms EU_KEY_TTL_SECONDS d"

definition get_cpu_ms :: "r_fault \<Rightarrow> time \<Rightarrow> string \<Rightarrow> redis_db \<Rightarrow> int option" where
  "get_cpu_ms f now e d = r_read f now (cpu_key e) d"

definition increment_syscalls :: "r_fault \<Rightarrow> time \<Rightarrow> string \<Rightarrow> redis_db \<Rightarrow> int option \<times> redis_db" where
  "increment_syscalls f now e d = r_add f now (syscalls_key e) 1 EU_KEY_TTL_SECONDS d"

definition get_syscalls :: "r_fault \<Rightarrow> time \<Rightarrow> string \<Rightarrow> redis_db \<Rightarrow> int option" where
  "get_syscalls f now e d = r_read f now (syscalls_key e) d"

definition set_memory_if_greater :: "r_fault \<Rightarrow> time \<Rightarrow> string \<Rightarrow> int \<Rightarrow> redis_db \<Rightarrow> redis_db" where
  "set_memory_if_greater f now e bytes_used d =
     (if f \<noteq> R_ok then d
      else
        let d1 = (case r_get now (memory_key e) d of
                    None \<Rightarrow> r_set (memory_key e) bytes_used d
                  | Some current \<Rightarrow>
                      if current < bytes_used then r_set (memory_key e) bytes_used d else d)
        in r_expire now (memory_key e) EU_KEY_TTL_SECONDS d1)"

definition add_tokens :: "r_fault \<Rightarrow> time \<Rightarrow> string \<Rightarrow> int \<Rightarrow> redis_db \<Rightarrow> int option \<times> redis_db" where
  "add_tokens f now e n d = r_add f now (tokens_key e) n EU_KEY_TTL_SECONDS d"

definition get_tokens :: "r_fault \<Rightarrow> time \<Rightarrow> string \<Rightarrow> redis_db \<Rightarrow> int option" where
  "get_tokens f now e d = r_read f now (tokens_key e) d"

definition add_tenant_tokens :: "r_fault \<Rightarrow> time \<Rightarrow> string \<Rightarrow> int \<Rightarrow> redis_db \<Rightarrow> int option \<times> redis_db" where
  "add_tenant_tokens f now t n d = r_add f now (tenant_tokens_key t) n TENANT_KEY_TTL_SECONDS d"

definition get_tenant_tokens_shared :: "r_fault \<Rightarrow> time \<Rightarrow> string \<Rightarrow> redis_db \<Rightarrow> int option" where
  "get_tenant_tokens_shared f now t d = r_read f now (tenant_tokens_key t) d"

definition set_limits :: "r_fault \<Rightarrow> time \<Rightarrow> string \<Rightarrow> int dict \<Rightarrow> redis_db \<Rightarrow> redis_db" where
  "set_limits f now e limits d =
     (if limits = [] \<or> f = R_down then d
      else
        let d1 = r_hset now (limits_key e) limits d
        in if f = R_expire_fails then d1 else r_hexpire now (limits_key e) EU_KEY_TTL_SECONDS d1)"

definition get_limits :: "r_fault \<Rightarrow> time \<Rightarrow> string \<Rightarrow> redis_db \<Rightarrow> int dict option" where
  "get_limits f now e d = (if f = R_ok then Some (r_hgetall now (limits_key e) d) else None)"

definition delete_eu :: "r_fault \<Rightarrow> string \<Rightarrow> redis_db \<Rightarrow> redis_db" where
  "delete_eu f e d =
     (if f \<noteq> R_ok then d
      else r_delete [cpu_key e, syscalls_key e, memory_key e, tokens_key e, limits_key e] d)"

end
