(* ===== verification/Resource_Manager.thy ===== *)
theory Resource_Manager
  imports Redis_Backend
begin

text \<open>
  \<^verbatim>\<open>AINDY/kernel/resource_manager.py\<close>, second half: the class \<^verbatim>\<open>ResourceManager\<close>. The object and the
  Redis data base its process talks to are one record; what a call meets outside the process (the
  clock, whether the i-th Redis command succeeds) is its \<open>rm_env\<close> argument.
\<close>

record rm_env =
  e_now :: time
  redis_url :: bool
  ping_ok :: bool
  conn_ok :: "nat \<Rightarrow> bool"
  bk :: "nat \<Rightarrow> r_fault"
  is_testing :: bool

record UsageSnapshot =
  us_tenant_id :: string
  us_wall_time_ms :: int
  us_memory_bytes :: int
  us_syscall_count :: int
  us_tokens :: int
  us_limits :: "int dict"
  us_created_at :: time

definition new_snapshot :: "string \<Rightarrow> time \<Rightarrow> UsageSnapshot" where
  "new_snapshot tenant t =
     \<lparr>us_tenant_id = tenant, us_wall_time_ms = 0, us_memory_bytes = 0, us_syscall_count = 0,
      us_tokens = 0, us_limits = [], us_created_at = t\<rparr>"

definition limits_payload :: "int dict \<Rightarrow> payload" where
  "limits_payload ls = map (\<lambda>(k, v). (k, PInt v)) ls"

definition snapshot_to_dict :: "string \<Rightarrow> UsageSnapshot \<Rightarrow> payload" where
  "snapshot_to_dict eid s =
     [(''eu_id'', PStr eid), (''tenant_id'', PStr (us_tenant_id s)),
      (''wall_time_ms'', PInt (us_wall_time_ms s)), (''memory_bytes'', PInt (us_memory_bytes s)),
      (''syscall_count'', PInt (us_syscall_count s)), (''tokens'', PInt (us_tokens s)),
      (''limits'', PDict (limits_payload (us_limits s)))]"

record ResourceManager =
  rm_cfg :: quota_cfg
  rm_has_backend :: bool
  rm_redis :: bool
  rm_redis_last_check :: time
  rm_redis_mode_logged :: "bool option"
  rm_usage :: "UsageSnapshot dict"
  rm_active_counts :: "int dict"
  rm_eu_tenant :: "string dict"
  rm_pending_purge :: "string list"
  rm_last_eviction_sweep :: time
  rm_tenant_tokens :: "(int \<times> time) dict"
  rm_rate_windows :: "(int \<times> int) dict"
  rm_db :: redis_db
  rm_events :: "string list"
  rm_evicted :: nat

definition new_ResourceManager :: "quota_cfg \<Rightarrow> bool \<Rightarrow> time \<Rightarrow> redis_db \<Rightarrow> ResourceManager" where
  "new_ResourceManager cfg has_backend t d =
     \<lparr>rm_cfg = cfg, rm_has_backend = has_backend, rm_redis = False, rm_redis_last_check = 0,
      rm_redis_mode_logged = None, rm_usage = [], rm_active_counts = [], rm_eu_tenant = [],
      rm_pending_purge = [], rm_last_eviction_sweep = t, rm_tenant_tokens = [],
      rm_rate_windows = [], rm_db = d, rm_events = [], rm_evicted = 0\<rparr>"


section \<open>The quota client\<close>

definition concurrency_key :: "string \<Rightarrow> string" where
  "concurrency_key t = ''aindy:quota:concurrent:'' @ t"

text \<open>\<^verbatim>\<open>_get_redis\<close>: whether there is a client, looked at again at most every 30 seconds.\<close>

definition get_redis :: "rm_env \<Rightarrow> ResourceManager \<Rightarrow> bool \<times> ResourceManager" where
  "get_redis e m =
     (if e_now e - rm_redis_last_check m \<le> REDIS_CHECK_INTERVAL * secs then (rm_redis m, m)
      else
        let m1 = m\<lparr>rm_redis_last_check := e_now e\<rparr> in
        if \<not> redis_url e then (False, m1\<lparr>rm_redis := False, rm_redis_mode_logged := None\<rparr>)
        else if ping_ok e then (True, m1\<lparr>rm_redis := True, rm_redis_mode_logged := Some True\<rparr>)
        else (False, m1\<lparr>rm_redis := False, rm_redis_mode_logged := Some False\<rparr>))"

definition drop_redis_client :: "rm_env \<Rightarrow> ResourceManager \<Rightarrow> ResourceManager" where
  "drop_redis_client e m =
     m\<lparr>rm_redis := False, rm_redis_last_check := e_now e, rm_redis_mode_logged := Some False\<rparr>"

definition is_redis_mode :: "rm_env \<Rightarrow> ResourceManager \<Rightarrow> bool \<times> ResourceManager" where
  "is_redis_mode e m = get_redis e m"

definition local_active :: "string \<Rightarrow> ResourceManager \<Rightarrow> int" where
  "local_active tid m = dget_or (rm_active_counts m) tid 0"

definition rate_limit_hit ::
  "rm_env \<Rightarrow> string \<Rightarrow> int \<Rightarrow> int \<Rightarrow> ResourceManager \<Rightarrow> (int \<times> bool) \<times> ResourceManager" where
  "rate_limit_hit e key limit window_secs m =
     (if limit \<le> 0 \<or> window_secs \<le> 0 then ((0, False), m)
      else
        let bucket = e_now e div (window_secs * secs);
            (client, m1) = get_redis e m;
            rkey = ''aindy:rm:rate:'' @ key @ '':'' @ dec_int bucket
        in if client \<and> conn_ok e 0 \<and> conn_ok e 1
           then let (count, d) = r_incrby (e_now e) rkey 1 (rm_db m1)
                in ((count, limit < count),
                    m1\<lparr>rm_db := r_expire (e_now e) rkey (window_secs * 2) d\<rparr>)
           else
             let m2 = (if client
                       then drop_redis_client e
                              (if conn_ok e 0
                               then m1\<lparr>rm_db := snd (r_incrby (e_now e) rkey 1 (rm_db m1))\<rparr> else m1)
                       else m1);
                 count = (case dget (rm_rate_windows m2) key of
                            Some (b, c) \<Rightarrow> if b \<noteq> bucket then 1 else c + 1
                          | None \<Rightarrow> 1);
                 windows = dset key (bucket, count) (rm_rate_windows m2);
                 windows = (if 4096 < length windows
                            then filter (\<lambda>w. \<not> fst (snd w) < bucket) windows else windows)
             in ((count, limit < count), m2\<lparr>rm_rate_windows := windows\<rparr>))"


section \<open>Admission and quota checks\<close>

text \<open>\<^verbatim>\<open>_sweep\<close>: purge what was completed, and once a minute what is older than its key lifetime.\<close>

definition drop_units :: "string list \<Rightarrow> ResourceManager \<Rightarrow> ResourceManager" where
  "drop_units eids m =
     m\<lparr>rm_usage := filter (\<lambda>u. fst u \<notin> set eids) (rm_usage m),
       rm_eu_tenant := filter (\<lambda>u. fst u \<notin> set eids) (rm_eu_tenant m)\<rparr>"

definition sweep :: "rm_env \<Rightarrow> ResourceManager \<Rightarrow> ResourceManager" where
  "sweep e m =
     (let m1 = (if rm_pending_purge m \<noteq> []
                then (drop_units (rm_pending_purge m) m)\<lparr>rm_pending_purge := []\<rparr> else m)
      in if e_now e - rm_last_eviction_sweep m1 < EVICTION_SWEEP_INTERVAL_SECONDS * secs then m1
         else
           let cutoff = e_now e - EU_KEY_TTL_SECONDS * secs;
               tenant_cutoff = e_now e - TENANT_KEY_TTL_SECONDS * secs;
               expired = map fst (filter (\<lambda>u. us_created_at (snd u) < cutoff) (rm_usage m1));
               m2 = drop_units expired (m1\<lparr>rm_last_eviction_sweep := e_now e\<rparr>)
           in m2\<lparr>rm_tenant_tokens :=
                   filter (\<lambda>w. \<not> snd (snd w) < tenant_cutoff) (rm_tenant_tokens m2),
                 rm_evicted := rm_evicted m2 + length expired\<rparr>)"

definition can_execute ::
  "rm_env \<Rightarrow> string \<Rightarrow> ResourceManager \<Rightarrow> (bool \<times> string option) \<times> ResourceManager" where
  "can_execute e tenant_id m =
     (let m1 = sweep e m in
      if is_testing e then ((True, None), m1)
      else
        let (client, m2) = get_redis e m1;
            (active, m3) =
              (if client then
                 if conn_ok e 0 then (r_int (e_now e) (concurrency_key tenant_id) (rm_db m2), m2)
                 else let m3 = drop_redis_client e m2 in (local_active tenant_id m3, m3)
               else (local_active tenant_id m2, m2));
            cap = MAX_CONCURRENT_PER_TENANT (rm_cfg m)
        in if cap \<le> active
           then ((False, Some (LIMIT_EXCEEDED @ '': tenant '' @ repr_str tenant_id @
                    '' at concurrent limit ('' @ dec_int active @ ''/'' @ dec_int cap @ '')'')), m3)
           else ((True, None), m3))"

definition declared_limits ::
  "rm_env \<Rightarrow> nat \<Rightarrow> string \<Rightarrow> ResourceManager \<Rightarrow> int dict \<times> ResourceManager" where
  "declared_limits e i eid m =
     (let own = (case dget (rm_usage m) eid of Some s \<Rightarrow> us_limits s | None \<Rightarrow> []) in
      if own \<noteq> [] then (own, m)
      else
        let shared = (if rm_has_backend m then get_limits (bk e i) (e_now e) eid (rm_db m) else None)
        in (case shared of
              None \<Rightarrow> ([], m)
            | Some ls \<Rightarrow>
                if ls = [] then ([], m)
                else (ls, case dget (rm_usage m) eid of
                            None \<Rightarrow> m
                          | Some s \<Rightarrow> m\<lparr>rm_usage := dset eid
                              (s\<lparr>us_limits := foldl (\<lambda>h (k, v). dset k v h) (us_limits s) ls\<rparr>)
                              (rm_usage m)\<rparr>)))"

definition effective_limit ::
  "rm_env \<Rightarrow> nat \<Rightarrow> string option \<Rightarrow> string \<Rightarrow> ResourceManager \<Rightarrow> int \<times> ResourceManager" where
  "effective_limit e i eu_id dimension m =
     (let global_cap = dget_or (GLOBAL_LIMITS (rm_cfg m)) dimension 0;
          (declared, m1) =
            (if or_text eu_id [] \<noteq> []
             then let (ls, m1) = declared_limits e i (or_text eu_id []) m
                  in (dget_or ls dimension 0, m1)
             else (0, m))
      in if 0 < global_cap \<and> 0 < declared then (min global_cap declared, m1)
         else (if global_cap \<noteq> 0 then global_cap else declared, m1))"

definition check_quota ::
  "rm_env \<Rightarrow> string \<Rightarrow> ResourceManager \<Rightarrow> (bool \<times> string option) \<times> ResourceManager" where
  "check_quota e eid m =
     (let m1 = sweep e m in
      if is_testing e then ((True, None), m1)
      else case dget (rm_usage m1) eid of
          None \<Rightarrow> ((True, None), m1)
        | Some snap \<Rightarrow>
            let shared_wall = (if rm_has_backend m1 then get_cpu_ms (bk e 0) (e_now e) eid (rm_db m1) else None);
                wall = (case shared_wall of None \<Rightarrow> us_wall_time_ms snap | Some v \<Rightarrow> v);
                shared_count = (if rm_has_backend m1 then get_syscalls (bk e 1) (e_now e) eid (rm_db m1) else None);
                count = (case shared_count of None \<Rightarrow> us_syscall_count snap | Some v \<Rightarrow> v);
                (wall_cap, m2) = effective_limit e 2 (Some eid) ''wall_time_ms'' m1;
                (syscall_cap, m3) = effective_limit e 3 (Some eid) ''syscalls'' m2
            in if 0 < wall_cap \<and> wall_cap < wall
               then ((False, Some (LIMIT_EXCEEDED @ '': eu '' @ repr_str eid @
                        '' exceeded wall_time_ms limit ('' @ dec_int wall @ '' > '' @ dec_int wall_cap @ '')'')), m3)
               else if 0 < syscall_cap \<and> syscall_cap < count
               then ((False, Some (LIMIT_EXCEEDED @ '': eu '' @ repr_str eid @
                        '' exceeded syscall_count limit ('' @ dec_int count @ '' > '' @ dec_int syscall_cap @ '')'')), m3)
               else ((True, None), m3))"



section \<open>Life cycle\<close>

definition bump_local :: "string \<Rightarrow> ResourceManager \<Rightarrow> ResourceManager" where
  "bump_local tid m = m\<lparr>rm_active_counts := dset tid (local_active tid m + 1) (rm_active_counts m)\<rparr>"

definition mark_started :: "rm_env \<Rightarrow> string \<Rightarrow> string option \<Rightarrow> ResourceManager \<Rightarrow> ResourceManager" where
  "mark_started e tid eu_id m =
     (let (client, m1) = get_redis e m;
          m2 = (if client then
                  if conn_ok e 0
                  then m1\<lparr>rm_db := snd (r_incrby (e_now e) (concurrency_key tid) 1 (rm_db m1))\<rparr>
                  else bump_local tid (drop_redis_client e m1)
                else bump_local tid m1);
          eid = or_text eu_id []
      in if eid = [] then m2
         else
           let m3 = (if dget (rm_usage m2) eid = None
                     then m2\<lparr>rm_usage := dset eid (new_snapshot tid (e_now e)) (rm_usage m2)\<rparr> else m2)
           in m3\<lparr>rm_eu_tenant := dset eid tid (rm_eu_tenant m3)\<rparr>)"

definition reset_tenant_quota :: "rm_env \<Rightarrow> nat \<Rightarrow> string \<Rightarrow> ResourceManager \<Rightarrow> ResourceManager" where
  "reset_tenant_quota e i tid m =
     (let (client, m1) = get_redis e m in
      if client \<and> conn_ok e i then m1\<lparr>rm_db := r_set (concurrency_key tid) 0 (rm_db m1)\<rparr>
      else
        let m2 = (if client then drop_redis_client e m1 else m1)
        in m2\<lparr>rm_active_counts := dset tid 0 (rm_active_counts m2)\<rparr>)"

text \<open>The scan visits every key present throughout it; \<open>deleted\<close> counts them once.\<close>

definition reset_all_concurrency_counters :: "rm_env \<Rightarrow> ResourceManager \<Rightarrow> nat \<times> ResourceManager" where
  "reset_all_concurrency_counters e m =
     (let m1 = m\<lparr>rm_active_counts := []\<rparr>;
          (client, m2) = get_redis e m1;
          keys = filter (prefix ''aindy:quota:concurrent:'') (dkeys (r_ints (rm_db m2)))
      in if client \<and> conn_ok e 0 then (length keys, m2\<lparr>rm_db := r_delete keys (rm_db m2)\<rparr>)
         else (0, m2))"

text \<open>
  \<^verbatim>\<open>_release_slot\<close>: \<^verbatim>\<open>GET\<close>, \<^verbatim>\<open>DECR\<close> and, below zero, a reset, each of which may fail; a failure of
  one of the first two falls back to the local counter. The result is \<open>(before, after)\<close>.
\<close>

definition release_local :: "string \<Rightarrow> ResourceManager \<Rightarrow> (int \<times> int) \<times> ResourceManager" where
  "release_local tid m =
     (let count = local_active tid m;
          m1 = (if 0 < count then m\<lparr>rm_active_counts := dset tid (count - 1) (rm_active_counts m)\<rparr> else m)
      in ((count, local_active tid m1), m1))"

definition release_slot :: "rm_env \<Rightarrow> string \<Rightarrow> ResourceManager \<Rightarrow> (int \<times> int) \<times> ResourceManager" where
  "release_slot e tid m =
     (let (client, m1) = get_redis e m in
      if client \<and> conn_ok e 0 \<and> conn_ok e 1 then
        let current = r_int (e_now e) (concurrency_key tid) (rm_db m1);
            (new_active, d) = r_incrby (e_now e) (concurrency_key tid) (-1) (rm_db m1);
            m2 = m1\<lparr>rm_db := d\<rparr>
        in if new_active < 0 then ((current, 0), reset_tenant_quota e 2 tid m2)
           else ((current, new_active), m2)
      else release_local tid (if client then drop_redis_client e m1 else m1))"

definition publish_capacity_freed :: "int \<Rightarrow> int \<Rightarrow> ResourceManager \<Rightarrow> ResourceManager" where
  "publish_capacity_freed current new_active m =
     (let cap = MAX_CONCURRENT_PER_TENANT (rm_cfg m) in
      if cap \<le> current \<and> new_active < cap
      then m\<lparr>rm_events := rm_events m @ [''resource_available'']\<rparr> else m)"

definition mark_waiting :: "rm_env \<Rightarrow> string \<Rightarrow> ResourceManager \<Rightarrow> ResourceManager" where
  "mark_waiting e tid m =
     (let ((current, new_active), m1) = release_slot e tid m
      in publish_capacity_freed current new_active m1)"

definition mark_completed :: "rm_env \<Rightarrow> string \<Rightarrow> string option \<Rightarrow> ResourceManager \<Rightarrow> ResourceManager" where
  "mark_completed e tid eu_id m =
     (let ((current, new_active), m1) = release_slot e tid m;
          eid = or_text eu_id [];
          m2 = (if eid \<noteq> [] then m1\<lparr>rm_pending_purge := List.insert eid (rm_pending_purge m1)\<rparr> else m1)
      in publish_capacity_freed current new_active m2)"

text \<open>
  \<^verbatim>\<open>owned_execution\<close>: \<open>fresh\<close> is the identifier drawn when none is given, \<open>body\<close> the block, and
  \<open>e1\<close>, \<open>e2\<close>, \<open>e3\<close> what the check, the start and the completion meet.
\<close>

definition owned_execution ::
  "rm_env \<Rightarrow> rm_env \<Rightarrow> rm_env \<Rightarrow> string \<Rightarrow> string \<Rightarrow> string option
   \<Rightarrow> (string \<Rightarrow> ResourceManager \<Rightarrow> 'a \<times> ResourceManager) \<Rightarrow> ResourceManager
   \<Rightarrow> (py_exc + 'a) \<times> ResourceManager" where
  "owned_execution e1 e2 e3 fresh tenant_id eu_id body m =
     (let eid = or_text eu_id fresh;
          ((ok, reason), m1) = can_execute e1 tenant_id m
      in if \<not> ok then (Inl (Other_exc ''ResourceLimitError'' (or_text reason LIMIT_EXCEEDED)), m1)
         else
           let m2 = mark_started e2 tenant_id (Some eid) m1;
               (r, m3) = body eid m2
           in (Inr r, mark_completed e3 tenant_id (Some eid) m3))"

definition purge_eu :: "rm_env \<Rightarrow> string \<Rightarrow> ResourceManager \<Rightarrow> ResourceManager" where
  "purge_eu e eid m =
     (let m1 = m\<lparr>rm_usage := dpop eid (rm_usage m), rm_eu_tenant := dpop eid (rm_eu_tenant m)\<rparr>
      in if rm_has_backend m1 then m1\<lparr>rm_db := delete_eu (bk e 0) eid (rm_db m1)\<rparr> else m1)"

definition observed_unit ::
  "rm_env \<Rightarrow> rm_env \<Rightarrow> string \<Rightarrow> string \<Rightarrow> (ResourceManager \<Rightarrow> 'a \<times> ResourceManager)
   \<Rightarrow> ResourceManager \<Rightarrow> 'a \<times> ResourceManager" where
  "observed_unit e1 e2 tid eid body m =
     (let m1 = (case dget (rm_usage m) eid of
                  None \<Rightarrow> m\<lparr>rm_usage := dset eid (new_snapshot tid (e_now e1)) (rm_usage m)\<rparr>
                | Some s \<Rightarrow>
                    if tid \<noteq> [] \<and> us_tenant_id s = []
                    then m\<lparr>rm_usage := dset eid (s\<lparr>us_tenant_id := tid\<rparr>) (rm_usage m)\<rparr> else m);
          (r, m2) = body m1
      in (r, purge_eu e2 eid m2))"


section \<open>Recording usage\<close>

text \<open>Make sure a unit has a snapshot, then change it.\<close>

definition with_snapshot ::
  "rm_env \<Rightarrow> string \<Rightarrow> string \<Rightarrow> (UsageSnapshot \<Rightarrow> UsageSnapshot) \<Rightarrow> ResourceManager \<Rightarrow> ResourceManager" where
  "with_snapshot e tenant eid f m =
     m\<lparr>rm_usage := dset eid (f (dget_or (rm_usage m) eid (new_snapshot tenant (e_now e)))) (rm_usage m)\<rparr>"

definition record_cpu :: "rm_env \<Rightarrow> string \<Rightarrow> int \<Rightarrow> ResourceManager \<Rightarrow> ResourceManager" where
  "record_cpu e eid delta m =
     (let m1 = with_snapshot e [] eid (\<lambda>s. s\<lparr>us_wall_time_ms := us_wall_time_ms s + delta\<rparr>) m
      in if rm_has_backend m1 then m1\<lparr>rm_db := snd (add_cpu_ms (bk e 0) (e_now e) eid delta (rm_db m1))\<rparr> else m1)"

definition record_memory :: "rm_env \<Rightarrow> string \<Rightarrow> int \<Rightarrow> ResourceManager \<Rightarrow> ResourceManager" where
  "record_memory e eid bytes_used m =
     (let m1 = with_snapshot e [] eid (\<lambda>s. s\<lparr>us_memory_bytes := max (us_memory_bytes s) bytes_used\<rparr>) m
      in if rm_has_backend m1
         then m1\<lparr>rm_db := set_memory_if_greater (bk e 0) (e_now e) eid bytes_used (rm_db m1)\<rparr> else m1)"

fun shared_syscalls :: "rm_env \<Rightarrow> string \<Rightarrow> nat \<Rightarrow> redis_db \<Rightarrow> redis_db" where
  "shared_syscalls e eid 0 d = d"
| "shared_syscalls e eid (Suc n) d =
     shared_syscalls e eid n (snd (increment_syscalls (bk e n) (e_now e) eid d))"

definition record_syscall :: "rm_env \<Rightarrow> string \<Rightarrow> int \<Rightarrow> ResourceManager \<Rightarrow> ResourceManager" where
  "record_syscall e eid count m =
     (let steps = max 0 count in
      if steps = 0 then m
      else
        let m1 = with_snapshot e [] eid (\<lambda>s. s\<lparr>us_syscall_count := us_syscall_count s + steps\<rparr>) m
        in if rm_has_backend m1 then m1\<lparr>rm_db := shared_syscalls e eid (nat steps) (rm_db m1)\<rparr> else m1)"

definition record_tokens ::
  "rm_env \<Rightarrow> string \<Rightarrow> int \<Rightarrow> string option \<Rightarrow> ResourceManager \<Rightarrow> ResourceManager" where
  "record_tokens e eid delta tenant m =
     (if delta \<le> 0 then m
      else
        let m1 = with_snapshot e (or_text tenant []) eid (\<lambda>s. s\<lparr>us_tokens := us_tokens s + delta\<rparr>) m
        in if rm_has_backend m1 then m1\<lparr>rm_db := snd (add_tokens (bk e 0) (e_now e) eid delta (rm_db m1))\<rparr> else m1)"

definition add_window :: "rm_env \<Rightarrow> string \<Rightarrow> int \<Rightarrow> ResourceManager \<Rightarrow> ResourceManager" where
  "add_window e tid delta m =
     (let (current, started) = dget_or (rm_tenant_tokens m) tid (0, e_now e)
      in m\<lparr>rm_tenant_tokens := dset tid (current + delta, started) (rm_tenant_tokens m)\<rparr>)"

definition record_tenant_tokens :: "rm_env \<Rightarrow> string \<Rightarrow> int \<Rightarrow> ResourceManager \<Rightarrow> ResourceManager" where
  "record_tenant_tokens e tid delta m =
     (if tid = [] \<or> delta \<le> 0 then m
      else
        let m1 = add_window e tid delta m
        in if rm_has_backend m1
           then m1\<lparr>rm_db := snd (add_tenant_tokens (bk e 0) (e_now e) tid delta (rm_db m1))\<rparr> else m1)"

definition get_tenant_tokens :: "rm_env \<Rightarrow> string \<Rightarrow> ResourceManager \<Rightarrow> int" where
  "get_tenant_tokens e tid m =
     (case (if rm_has_backend m then get_tenant_tokens_shared (bk e 0) (e_now e) tid (rm_db m) else None) of
        Some v \<Rightarrow> v
      | None \<Rightarrow> fst (dget_or (rm_tenant_tokens m) tid (0, 0)))"

definition record_usage ::
  "rm_env \<Rightarrow> rm_env \<Rightarrow> rm_env \<Rightarrow> rm_env \<Rightarrow> string \<Rightarrow> int \<Rightarrow> int \<Rightarrow> int \<Rightarrow> int
   \<Rightarrow> ResourceManager \<Rightarrow> ResourceManager" where
  "record_usage e1 e2 e3 e4 eid wall_time_ms memory_bytes syscall_count tokens m =
     record_tokens e4 eid tokens None (record_syscall e3 eid syscall_count
       (record_memory e2 eid memory_bytes (record_cpu e1 eid wall_time_ms m)))"

definition declare_limits ::
  "rm_env \<Rightarrow> string \<Rightarrow> int option \<Rightarrow> int option \<Rightarrow> int option \<Rightarrow> int option \<Rightarrow> string option
   \<Rightarrow> ResourceManager \<Rightarrow> ResourceManager" where
  "declare_limits e eid wall_time_ms syscalls tokens memory_bytes tenant m =
     (let limits = concat (map (\<lambda>(k, v). case v of Some n \<Rightarrow> if 0 < n then [(k, n)] else [] | None \<Rightarrow> [])
            [(''wall_time_ms'', wall_time_ms), (''syscalls'', syscalls), (''tokens'', tokens),
             (''memory_bytes'', memory_bytes)])
      in if limits = [] then m
         else
           let m1 = with_snapshot e (or_text tenant []) eid
                 (\<lambda>s. s\<lparr>us_limits := foldl (\<lambda>h (k, v). dset k v h) (us_limits s) limits\<rparr>) m
           in if rm_has_backend m1
              then m1\<lparr>rm_db := set_limits (bk e 0) (e_now e) eid limits (rm_db m1)\<rparr> else m1)"


section \<open>Token reservation\<close>

definition reserve_tokens ::
  "rm_env \<Rightarrow> string \<Rightarrow> int \<Rightarrow> int \<Rightarrow> string option \<Rightarrow> ResourceManager \<Rightarrow> bool \<times> ResourceManager" where
  "reserve_tokens e eid delta cap tenant m =
     (if cap \<le> 0 \<or> delta \<le> 0 then (True, m)
      else
        let tid = or_text tenant [];
            (shared, d) = (if rm_has_backend m then add_tokens (bk e 0) (e_now e) eid delta (rm_db m)
                           else (None, rm_db m));
            m1 = m\<lparr>rm_db := d\<rparr>;
            grant = (\<lambda>m. with_snapshot e tid eid (\<lambda>s. s\<lparr>us_tokens := us_tokens s + delta\<rparr>) m)
        in (case shared of
              Some v \<Rightarrow>
                if cap < v
                then (False, m1\<lparr>rm_db := snd (add_tokens (bk e 1) (e_now e) eid (- delta) (rm_db m1))\<rparr>)
                else (True, grant m1)
            | None \<Rightarrow>
                let m2 = with_snapshot e tid eid (\<lambda>s. s) m1
                in if cap < us_tokens (dget_or (rm_usage m2) eid (new_snapshot tid (e_now e))) + delta
                   then (False, m2) else (True, grant m2)))"

definition release_tokens :: "rm_env \<Rightarrow> string \<Rightarrow> int \<Rightarrow> ResourceManager \<Rightarrow> ResourceManager" where
  "release_tokens e eid delta m =
     (if delta \<le> 0 then m
      else
        let m1 = (case dget (rm_usage m) eid of
                    None \<Rightarrow> m
                  | Some s \<Rightarrow> m\<lparr>rm_usage := dset eid (s\<lparr>us_tokens := max 0 (us_tokens s - delta)\<rparr>) (rm_usage m)\<rparr>)
        in if rm_has_backend m1
           then m1\<lparr>rm_db := snd (add_tokens (bk e 0) (e_now e) eid (- delta) (rm_db m1))\<rparr> else m1)"

definition reserve_tenant_tokens ::
  "rm_env \<Rightarrow> string \<Rightarrow> int \<Rightarrow> int \<Rightarrow> ResourceManager \<Rightarrow> bool \<times> ResourceManager" where
  "reserve_tenant_tokens e tid delta cap m =
     (if cap \<le> 0 \<or> delta \<le> 0 \<or> tid = [] then (True, m)
      else
        let (shared, d) = (if rm_has_backend m then add_tenant_tokens (bk e 0) (e_now e) tid delta (rm_db m)
                           else (None, rm_db m));
            m1 = m\<lparr>rm_db := d\<rparr>
        in (case shared of
              Some v \<Rightarrow>
                if cap < v
                then (False, m1\<lparr>rm_db := snd (add_tenant_tokens (bk e 1) (e_now e) tid (- delta) (rm_db m1))\<rparr>)
                else (True, add_window e tid delta m1)
            | None \<Rightarrow>
                if cap < fst (dget_or (rm_tenant_tokens m1) tid (0, e_now e)) + delta then (False, m1)
                else (True, add_window e tid delta m1)))"

definition release_tenant_tokens :: "rm_env \<Rightarrow> string \<Rightarrow> int \<Rightarrow> ResourceManager \<Rightarrow> ResourceManager" where
  "release_tenant_tokens e tid delta m =
     (if delta \<le> 0 \<or> tid = [] then m
      else
        let (current, started) = dget_or (rm_tenant_tokens m) tid (0, e_now e);
            m1 = m\<lparr>rm_tenant_tokens := dset tid (max 0 (current - delta), started) (rm_tenant_tokens m)\<rparr>
        in if rm_has_backend m1
           then m1\<lparr>rm_db := snd (add_tenant_tokens (bk e 0) (e_now e) tid (- delta) (rm_db m1))\<rparr> else m1)"


section \<open>Queries\<close>

definition get_usage :: "string \<Rightarrow> ResourceManager \<Rightarrow> payload" where
  "get_usage eid m =
     (case dget (rm_usage m) eid of
        None \<Rightarrow> [(''eu_id'', PStr eid), (''wall_time_ms'', PInt 0), (''memory_bytes'', PInt 0),
                 (''syscall_count'', PInt 0), (''tokens'', PInt 0)]
      | Some s \<Rightarrow> snapshot_to_dict eid s)"

definition get_tenant_active :: "rm_env \<Rightarrow> string \<Rightarrow> ResourceManager \<Rightarrow> int \<times> ResourceManager" where
  "get_tenant_active e tid m =
     (let (client, m1) = get_redis e m in
      if client \<and> conn_ok e 0 then (r_int (e_now e) (concurrency_key tid) (rm_db m1), m1)
      else
        let m2 = (if client then drop_redis_client e m1 else m1)
        in (local_active tid m2, m2))"

definition get_tenant_summary :: "rm_env \<Rightarrow> string \<Rightarrow> ResourceManager \<Rightarrow> payload \<times> ResourceManager" where
  "get_tenant_summary e tid m =
     (let (active, m1) = get_tenant_active e tid m;
          snaps = filter (\<lambda>s. us_tenant_id s = tid) (map snd (rm_usage m1));
          cfg = rm_cfg m1
      in ([(''tenant_id'', PStr tid),
           (''active_executions'', PInt active),
           (''execution_count'', PInt (int (length snaps))),
           (''total_wall_time_ms'', PInt (sum_list (map us_wall_time_ms snaps))),
           (''peak_memory_bytes'', PInt (case map us_memory_bytes snaps of [] \<Rightarrow> 0 | v # vs \<Rightarrow> foldl max v vs)),
           (''total_syscalls'', PInt (sum_list (map us_syscall_count snaps))),
           (''total_tokens'', PInt (sum_list (map us_tokens snaps))),
           (''window_tokens'', PInt (fst (dget_or (rm_tenant_tokens m1) tid (0, 0)))),
           (''quota_limits'', PDict
             [(''max_wall_time_ms'', PInt (MAX_WALL_TIME_MS cfg)),
              (''max_memory_bytes'', PInt (MAX_MEMORY_BYTES cfg)),
              (''max_syscalls_per_execution'', PInt (MAX_SYSCALLS_PER_EXECUTION cfg)),
              (''max_concurrent_executions'', PInt (MAX_CONCURRENT_PER_TENANT cfg)),
              (''max_tokens_per_execution'', PInt (MAX_TOKENS_PER_EXECUTION cfg)),
              (''max_tokens_per_tenant_window'', PInt (MAX_TOKENS_PER_TENANT_WINDOW cfg))])], m1))"

definition has_shared_backend :: "ResourceManager \<Rightarrow> bool" where
  "has_shared_backend m = rm_has_backend m"

definition seed_usage :: "rm_env \<Rightarrow> string \<Rightarrow> int \<Rightarrow> ResourceManager \<Rightarrow> ResourceManager" where
  "seed_usage e eid syscalls m =
     with_snapshot e [] eid (\<lambda>s. s\<lparr>us_syscall_count := max 0 syscalls\<rparr>) m"

definition reset_manager :: "rm_env \<Rightarrow> ResourceManager \<Rightarrow> ResourceManager" where
  "reset_manager e m =
     m\<lparr>rm_usage := [], rm_active_counts := [], rm_eu_tenant := [], rm_pending_purge := [],
       rm_tenant_tokens := [], rm_last_eviction_sweep := e_now e\<rparr>"


section \<open>Concrete surroundings\<close>

definition sample_env :: rm_env where
  "sample_env = \<lparr>e_now = 0, redis_url = False, ping_ok = False, conn_ok = (\<lambda>_. False), bk = (\<lambda>_. R_ok),
                is_testing = False\<rparr>"

definition empty_db :: redis_db where
  "empty_db = \<lparr>r_ints = [], r_hashes = []\<rparr>"

definition sample_cfg :: quota_cfg where
  "sample_cfg = (quota_constants (\<lambda>_. None))\<lparr>MAX_CONCURRENT_PER_TENANT := 1\<rparr>"

end
