(* ===== verification/Resource_Quota.thy ===== *)
theory Resource_Quota
  imports Resource_Manager "HOL-Library.Multiset"
begin

text \<open>
  What the resource manager guarantees: the concurrency limit of a tenant, the token caps, the
  effective ceilings, the rate window, and where each of these ends. The two counter interfaces are
  locales, interpreted on the in-memory counters and on the Redis counters.
\<close>


section \<open>Frames\<close>

lemma sweep_frame [frame_simps]:
  "rm_cfg (sweep e m) = rm_cfg m" "rm_redis (sweep e m) = rm_redis m"
  "rm_active_counts (sweep e m) = rm_active_counts m" "rm_db (sweep e m) = rm_db m"
  "rm_redis_last_check (sweep e m) = rm_redis_last_check m"
  "rm_has_backend (sweep e m) = rm_has_backend m" "rm_pending_purge (sweep e m) = []"
  by (simp_all add: sweep_def drop_units_def Let_def)

lemma get_redis_frame [frame_simps]:
  "get_redis e m = (c, m1) \<Longrightarrow> rm_cfg m1 = rm_cfg m"
  "get_redis e m = (c, m1) \<Longrightarrow> rm_active_counts m1 = rm_active_counts m"
  "get_redis e m = (c, m1) \<Longrightarrow> rm_db m1 = rm_db m"
  "get_redis e m = (c, m1) \<Longrightarrow> rm_redis m1 = c"
  "get_redis e m = (c, m1) \<Longrightarrow> rm_usage m1 = rm_usage m"
  "get_redis e m = (c, m1) \<Longrightarrow> rm_pending_purge m1 = rm_pending_purge m"
  "get_redis e m = (c, m1) \<Longrightarrow> rm_events m1 = rm_events m"
  by (auto simp: get_redis_def Let_def split: if_splits)

lemma publish_frame [frame_simps]:
  "rm_cfg (publish_capacity_freed a b m) = rm_cfg m"
  "rm_redis (publish_capacity_freed a b m) = rm_redis m"
  "rm_active_counts (publish_capacity_freed a b m) = rm_active_counts m"
  "rm_db (publish_capacity_freed a b m) = rm_db m"
  "rm_usage (publish_capacity_freed a b m) = rm_usage m"
  "rm_pending_purge (publish_capacity_freed a b m) = rm_pending_purge m"
  by (simp_all add: publish_capacity_freed_def Let_def)


section \<open>The contract of a concurrency counter\<close>

locale slot_counter =
  fixes inv :: "'m \<Rightarrow> bool"
    and active :: "'m \<Rightarrow> string \<Rightarrow> int"
    and cap :: "'m \<Rightarrow> int"
    and admit :: "'e \<Rightarrow> string \<Rightarrow> 'm \<Rightarrow> bool \<times> 'm"
    and start :: "'e \<Rightarrow> string \<Rightarrow> 'm \<Rightarrow> 'm"
    and stop :: "'e \<Rightarrow> string \<Rightarrow> 'm \<Rightarrow> 'm"
  assumes admit_answer: "inv m \<Longrightarrow> fst (admit e t m) = (active m t < cap m)"
    and admit_keeps: "inv m \<Longrightarrow> inv (snd (admit e t m)) \<and> active (snd (admit e t m)) = active m
      \<and> cap (snd (admit e t m)) = cap m"
    and start_adds: "inv m \<Longrightarrow> inv (start e t m) \<and> active (start e t m) = (active m)(t := active m t + 1)
      \<and> cap (start e t m) = cap m"
    and stop_takes: "inv m \<Longrightarrow> 0 < active m t \<Longrightarrow>
      inv (stop e t m) \<and> active (stop e t m) = (active m)(t := active m t - 1) \<and> cap (stop e t m) = cap m"

text \<open>
  The callers of a counter: each one asks for admission and starts when it is given, each running
  execution ends once. The second component lists the tenants of the running executions.
\<close>

datatype 'e slot_cmd = Begin_exec 'e 'e string | End_exec 'e string

fun run_slots ::
  "('e \<Rightarrow> string \<Rightarrow> 'm \<Rightarrow> bool \<times> 'm) \<Rightarrow> ('e \<Rightarrow> string \<Rightarrow> 'm \<Rightarrow> 'm) \<Rightarrow> ('e \<Rightarrow> string \<Rightarrow> 'm \<Rightarrow> 'm)
   \<Rightarrow> 'e slot_cmd list \<Rightarrow> 'm \<Rightarrow> string list \<Rightarrow> 'm \<times> string list" where
  "run_slots admit start stop [] m running = (m, running)"
| "run_slots admit start stop (Begin_exec e e' t # cmds) m running =
     (let (ok, m1) = admit e t m in
      if ok then run_slots admit start stop cmds (start e' t m1) (t # running)
      else run_slots admit start stop cmds m1 running)"
| "run_slots admit start stop (End_exec e t # cmds) m running =
     (if t \<in> set running then run_slots admit start stop cmds (stop e t m) (remove1 t running)
      else run_slots admit start stop cmds m running)"

context slot_counter begin

lemma slots_bounded:
  assumes "inv m" "\<And>t. active m t = int (count (mset running) t)"
    and "\<And>t. t \<in> set running \<Longrightarrow> active m t \<le> cap m"
    and "run_slots admit start stop cmds m running = (m', running')"
  shows "inv m' \<and> cap m' = cap m \<and> (\<forall>t. active m' t = int (count (mset running') t))
    \<and> (\<forall>t \<in> set running'. active m' t \<le> cap m')"
  using assms
proof (induction cmds arbitrary: m running)
  case (Cons cmd cmds)
  show ?case
  proof (cases cmd)
    case (Begin_exec e e' t)
    obtain ok m1 where a: "admit e t m = (ok, m1)" by (cases "admit e t m")
    have m1: "inv m1" "active m1 = active m" "cap m1 = cap m" "ok = (active m t < cap m)"
      using admit_keeps [OF Cons.prems(1), of e t] admit_answer [OF Cons.prems(1), of e t] a by auto
    show ?thesis
    proof (cases ok)
      case True
      have s: "inv (start e' t m1)" "active (start e' t m1) = (active m)(t := active m t + 1)"
        "cap (start e' t m1) = cap m"
        using start_adds [OF m1(1)] m1 by auto
      have "inv m' \<and> cap m' = cap (start e' t m1) \<and> (\<forall>t. active m' t = int (count (mset running') t))
          \<and> (\<forall>t \<in> set running'. active m' t \<le> cap m')"
        using Cons.prems Begin_exec a True s m1(4)
        by (intro Cons.IH [of "start e' t m1" "t # running"]) auto
      then show ?thesis unfolding s(3) .
    next
      case False
      have "inv m' \<and> cap m' = cap m1 \<and> (\<forall>t. active m' t = int (count (mset running') t))
          \<and> (\<forall>t \<in> set running'. active m' t \<le> cap m')"
        using Cons.prems Begin_exec a False m1 by (intro Cons.IH [of m1 running]) auto
      then show ?thesis unfolding m1(3) .
    qed
  next
    case (End_exec e t)
    show ?thesis
    proof (cases "t \<in> set running")
      case True
      then have pos: "0 < active m t" using Cons.prems(2) by simp
      have s: "inv (stop e t m)" "active (stop e t m) = (active m)(t := active m t - 1)" "cap (stop e t m) = cap m"
        using stop_takes [OF Cons.prems(1) pos] by auto
      have c: "0 < count (mset running) t" using True by simp
      have count: "active (stop e t m) u = int (count (mset (remove1 t running)) u)" for u
        using s(2) Cons.prems(2) c by auto
      have bound: "active (stop e t m) u \<le> cap (stop e t m)" if "u \<in> set (remove1 t running)" for u
      proof -
        have "active m u \<le> cap m" using that Cons.prems(3) by (meson set_remove1_subset subsetD)
        then show ?thesis using s(2,3) by (cases "u = t") auto
      qed
      have run: "run_slots admit start stop cmds (stop e t m) (remove1 t running) = (m', running')"
        using Cons.prems(4) End_exec True by simp
      have "inv m' \<and> cap m' = cap (stop e t m) \<and> (\<forall>t. active m' t = int (count (mset running') t))
          \<and> (\<forall>t \<in> set running'. active m' t \<le> cap m')"
        by (rule Cons.IH [OF s(1) count bound run])
      then show ?thesis unfolding s(3) .
    next
      case False
      then show ?thesis using Cons.prems End_exec by (intro Cons.IH [of m running]) auto
    qed
  qed
qed simp

end



section \<open>Both counters meet the contract\<close>

text \<open>
  A process without Redis (\<open>local_env\<close>) counts in its own memory; a process whose Redis answers
  (\<open>shared_env\<close>) counts in the shared key, which has no expiry. An execution ends by completing or,
  when \<open>w\<close>, by parking.
\<close>

definition local_env :: "rm_env \<Rightarrow> rm_env" where
  "local_env e = e\<lparr>redis_url := False, is_testing := False\<rparr>"

definition shared_env :: "rm_env \<Rightarrow> rm_env" where
  "shared_env e = e\<lparr>redis_url := True, ping_ok := True, conn_ok := (\<lambda>_. True), is_testing := False\<rparr>"

type_synonym slot_call = "rm_env \<times> string option \<times> bool"

definition slot_admit :: "(rm_env \<Rightarrow> rm_env) \<Rightarrow> slot_call \<Rightarrow> string \<Rightarrow> ResourceManager \<Rightarrow> bool \<times> ResourceManager" where
  "slot_admit g c t m = (let ((ok, reason), m1) = can_execute (g (fst c)) t m in (ok, m1))"

definition slot_start :: "(rm_env \<Rightarrow> rm_env) \<Rightarrow> slot_call \<Rightarrow> string \<Rightarrow> ResourceManager \<Rightarrow> ResourceManager" where
  "slot_start g c t m = mark_started (g (fst c)) t (fst (snd c)) m"

definition slot_stop :: "(rm_env \<Rightarrow> rm_env) \<Rightarrow> slot_call \<Rightarrow> string \<Rightarrow> ResourceManager \<Rightarrow> ResourceManager" where
  "slot_stop g c t m =
     (if snd (snd c) then mark_waiting (g (fst c)) t m else mark_completed (g (fst c)) t (fst (snd c)) m)"

definition tenant_cap :: "ResourceManager \<Rightarrow> int" where
  "tenant_cap m = MAX_CONCURRENT_PER_TENANT (rm_cfg m)"

definition shared_active :: "ResourceManager \<Rightarrow> string \<Rightarrow> int" where
  "shared_active m t = r_int 0 (concurrency_key t) (rm_db m)"

definition shared_inv :: "ResourceManager \<Rightarrow> bool" where
  "shared_inv m \<longleftrightarrow> rm_redis m
     \<and> (\<forall>t v. dget (r_ints (rm_db m)) (concurrency_key t) = Some v \<longrightarrow> snd v = None)"

lemma concurrency_key_inj [simp]: "concurrency_key t = concurrency_key u \<longleftrightarrow> t = u"
  by (simp add: concurrency_key_def)

lemma local_get_redis:
  "\<not> rm_redis m \<Longrightarrow> get_redis (local_env e) m = (c, m1) \<Longrightarrow> \<not> c \<and> \<not> rm_redis m1"
  by (auto simp: get_redis_def local_env_def Let_def split: if_splits)

lemma shared_get_redis:
  "rm_redis m \<Longrightarrow> get_redis (shared_env e) m = (c, m1) \<Longrightarrow> c \<and> rm_redis m1"
  by (auto simp: get_redis_def shared_env_def Let_def split: if_splits)

definition local_actives :: "ResourceManager \<Rightarrow> string \<Rightarrow> int" where
  "local_actives m t = local_active t m"

lemma local_admit:
  assumes "\<not> rm_redis m"
  shows "\<exists>m1. slot_admit local_env c t m = (local_active t m < tenant_cap m, m1) \<and> \<not> rm_redis m1
    \<and> rm_cfg m1 = rm_cfg m \<and> rm_active_counts m1 = rm_active_counts m"
proof -
  let ?e = "local_env (fst c)"
  obtain cl m1 where g: "get_redis ?e (sweep ?e m) = (cl, m1)" by (cases "get_redis ?e (sweep ?e m)")
  have "\<not> cl" "\<not> rm_redis m1" using local_get_redis [OF _ g] assms by (simp_all add: frame_simps)
  moreover have "\<not> is_testing ?e" by (simp add: local_env_def)
  moreover have "rm_cfg m1 = rm_cfg m" "rm_active_counts m1 = rm_active_counts m"
    using get_redis_frame [OF g] by (simp_all add: frame_simps)
  ultimately show ?thesis
    using g by (simp add: slot_admit_def can_execute_def local_active_def tenant_cap_def Let_def)
qed

lemma local_start:
  assumes "\<not> rm_redis m"
  shows "\<not> rm_redis (slot_start local_env c t m) \<and> rm_cfg (slot_start local_env c t m) = rm_cfg m
    \<and> rm_active_counts (slot_start local_env c t m) = dset t (local_active t m + 1) (rm_active_counts m)"
proof -
  obtain cl m1 where g: "get_redis (local_env (fst c)) m = (cl, m1)" by (cases "get_redis (local_env (fst c)) m")
  show ?thesis
    using local_get_redis [OF assms g] get_redis_frame [OF g] g
    by (simp add: slot_start_def mark_started_def bump_local_def local_active_def Let_def)
qed

lemma local_stop:
  assumes "\<not> rm_redis m" "0 < local_active t m"
  shows "\<not> rm_redis (slot_stop local_env c t m) \<and> rm_cfg (slot_stop local_env c t m) = rm_cfg m
    \<and> rm_active_counts (slot_stop local_env c t m) = dset t (local_active t m - 1) (rm_active_counts m)"
proof -
  obtain cl m1 where g: "get_redis (local_env (fst c)) m = (cl, m1)" by (cases "get_redis (local_env (fst c)) m")
  show ?thesis
    using local_get_redis [OF assms(1) g] get_redis_frame [OF g] g assms(2)
    by (simp add: slot_stop_def mark_waiting_def mark_completed_def release_slot_def release_local_def
        local_active_def frame_simps Let_def)
qed

interpretation local_slots: slot_counter "\<lambda>m. \<not> rm_redis m" local_actives tenant_cap
  "slot_admit local_env" "slot_start local_env" "slot_stop local_env"
proof
  fix m :: ResourceManager and c :: slot_call and t :: string
  assume inv: "\<not> rm_redis m"
  show "fst (slot_admit local_env c t m) = (local_actives m t < tenant_cap m)"
    using local_admit [OF inv, of c t] by (auto simp: local_actives_def)
  show "\<not> rm_redis (snd (slot_admit local_env c t m))
      \<and> local_actives (snd (slot_admit local_env c t m)) = local_actives m
      \<and> tenant_cap (snd (slot_admit local_env c t m)) = tenant_cap m"
    using local_admit [OF inv, of c t] by (auto simp: local_actives_def local_active_def tenant_cap_def)
  show "\<not> rm_redis (slot_start local_env c t m)
      \<and> local_actives (slot_start local_env c t m) = (local_actives m)(t := local_actives m t + 1)
      \<and> tenant_cap (slot_start local_env c t m) = tenant_cap m"
    using local_start [OF inv, of c t] by (auto simp: local_actives_def local_active_def tenant_cap_def)
  show "\<not> rm_redis (slot_stop local_env c t m)
      \<and> local_actives (slot_stop local_env c t m) = (local_actives m)(t := local_actives m t - 1)
      \<and> tenant_cap (slot_stop local_env c t m) = tenant_cap m" if "0 < local_actives m t"
    using local_stop [OF inv, of t c] that by (auto simp: local_actives_def local_active_def tenant_cap_def)
qed

lemma shared_r_int:
  "shared_inv m \<Longrightarrow> r_int now (concurrency_key t) (rm_db m) = shared_active m t"
  by (auto simp: shared_inv_def shared_active_def r_int_def r_get_def r_live_def split: option.splits)

text \<open>\<^verbatim>\<open>INCR\<close> and \<^verbatim>\<open>DECR\<close> on a key without expiry.\<close>

lemma shared_incrby:
  assumes "shared_inv m" "r_incrby now (concurrency_key t) n (rm_db m) = (v, d)" "rm_db m' = d" "rm_redis m'"
  shows "v = shared_active m t + n" "shared_inv m'" "shared_active m' = (shared_active m)(t := v)"
proof -
  show v: "v = shared_active m t + n"
    using assms(2) shared_r_int [OF assms(1)] by (simp add: r_incrby_def Let_def)
  have ex: "(case dget (r_ints (rm_db m)) (concurrency_key t) of
      Some w \<Rightarrow> if r_live now w then snd w else None | None \<Rightarrow> None) = None"
    using assms(1) by (auto simp: shared_inv_def split: option.splits)
  have d: "d = (rm_db m)\<lparr>r_ints := dset (concurrency_key t) (v, None) (r_ints (rm_db m))\<rparr>"
    using assms(2) ex by (auto simp: r_incrby_def Let_def)
  show "shared_inv m'" using assms(1,3,4) d by (auto simp: shared_inv_def)
  show "shared_active m' = (shared_active m)(t := v)"
    using assms(3) d by (auto simp: shared_active_def r_int_def r_get_def r_live_def)
qed

lemma shared_admit:
  assumes "shared_inv m"
  shows "\<exists>m1. slot_admit shared_env c t m = (shared_active m t < tenant_cap m, m1) \<and> rm_redis m1
    \<and> rm_cfg m1 = rm_cfg m \<and> rm_db m1 = rm_db m"
proof -
  let ?e = "shared_env (fst c)"
  obtain cl m1 where g: "get_redis ?e (sweep ?e m) = (cl, m1)" by (cases "get_redis ?e (sweep ?e m)")
  have "cl" "rm_redis m1"
    using shared_get_redis [OF _ g] assms by (simp_all add: frame_simps shared_inv_def)
  moreover have "\<not> is_testing ?e" "conn_ok ?e 0" by (simp_all add: shared_env_def)
  moreover have "rm_cfg m1 = rm_cfg m" "rm_db m1 = rm_db m"
    using get_redis_frame [OF g] by (simp_all add: frame_simps)
  ultimately show ?thesis
    using g shared_r_int [OF assms] by (simp add: slot_admit_def can_execute_def tenant_cap_def Let_def)
qed

lemma shared_start:
  assumes "shared_inv m"
  shows "shared_inv (slot_start shared_env c t m) \<and> rm_cfg (slot_start shared_env c t m) = rm_cfg m
    \<and> shared_active (slot_start shared_env c t m) = (shared_active m)(t := shared_active m t + 1)"
proof -
  let ?e = "shared_env (fst c)" and ?m = "slot_start shared_env c t m"
  obtain cl m1 where g: "get_redis ?e m = (cl, m1)" by (cases "get_redis ?e m")
  have c: "cl" "rm_redis m1" "conn_ok ?e 0"
    using shared_get_redis [OF _ g] assms by (simp_all add: shared_inv_def shared_env_def)
  obtain v d where i: "r_incrby (e_now ?e) (concurrency_key t) 1 (rm_db m) = (v, d)"
    by (cases "r_incrby (e_now ?e) (concurrency_key t) 1 (rm_db m)")
  have m: "rm_db ?m = d" "rm_redis ?m" "rm_cfg ?m = rm_cfg m"
    using g c i get_redis_frame [OF g] by (simp_all add: slot_start_def mark_started_def Let_def)
  show ?thesis using shared_incrby [OF assms i m(1,2)] m(3) by simp
qed

lemma shared_stop:
  assumes "shared_inv m" "0 < shared_active m t"
  shows "shared_inv (slot_stop shared_env c t m) \<and> rm_cfg (slot_stop shared_env c t m) = rm_cfg m
    \<and> shared_active (slot_stop shared_env c t m) = (shared_active m)(t := shared_active m t - 1)"
proof -
  let ?e = "shared_env (fst c)" and ?m = "slot_stop shared_env c t m"
  obtain cl m1 where g: "get_redis ?e m = (cl, m1)" by (cases "get_redis ?e m")
  have c: "cl" "rm_redis m1" "conn_ok ?e 0" "conn_ok ?e 1"
    using shared_get_redis [OF _ g] assms by (simp_all add: shared_inv_def shared_env_def)
  obtain v d where i: "r_incrby (e_now ?e) (concurrency_key t) (-1) (rm_db m) = (v, d)"
    by (cases "r_incrby (e_now ?e) (concurrency_key t) (-1) (rm_db m)")
  have "v = shared_active m t - 1" using i shared_r_int [OF assms(1)] by (simp add: r_incrby_def Let_def)
  then have v: "\<not> v < 0" using assms(2) by simp
  have m: "rm_db ?m = d" "rm_redis ?m" "rm_cfg ?m = rm_cfg m"
    using g c i v get_redis_frame [OF g]
    by (simp_all add: slot_stop_def mark_waiting_def mark_completed_def release_slot_def frame_simps Let_def)
  show ?thesis using shared_incrby [OF assms(1) i m(1,2)] m(3) by simp
qed

interpretation shared_slots: slot_counter shared_inv shared_active tenant_cap
  "slot_admit shared_env" "slot_start shared_env" "slot_stop shared_env"
proof
  fix m :: ResourceManager and c :: slot_call and t :: string
  assume inv: "shared_inv m"
  show "fst (slot_admit shared_env c t m) = (shared_active m t < tenant_cap m)"
    using shared_admit [OF inv, of c t] by auto
  show "shared_inv (snd (slot_admit shared_env c t m))
      \<and> shared_active (snd (slot_admit shared_env c t m)) = shared_active m
      \<and> tenant_cap (snd (slot_admit shared_env c t m)) = tenant_cap m"
    using shared_admit [OF inv, of c t] inv
    by (auto simp: shared_inv_def shared_active_def fun_eq_iff tenant_cap_def)
  show "shared_inv (slot_start shared_env c t m)
      \<and> shared_active (slot_start shared_env c t m) = (shared_active m)(t := shared_active m t + 1)
      \<and> tenant_cap (slot_start shared_env c t m) = tenant_cap m"
    using shared_start [OF inv, of c t] by (simp add: tenant_cap_def)
  show "shared_inv (slot_stop shared_env c t m)
      \<and> shared_active (slot_stop shared_env c t m) = (shared_active m)(t := shared_active m t - 1)
      \<and> tenant_cap (slot_stop shared_env c t m) = tenant_cap m" if "0 < shared_active m t"
    using shared_stop [OF inv that, of c] by (simp add: tenant_cap_def)
qed



section \<open>The contract of a token counter\<close>

text \<open>
  Reserving pre-fills the counter when the cap allows it and leaves it alone when not; releasing
  takes a reservation back out.
\<close>

locale token_counter =
  fixes tok_ok :: "'m \<Rightarrow> bool"
    and valid :: "string \<Rightarrow> bool"
    and used :: "'m \<Rightarrow> string \<Rightarrow> int"
    and reserve :: "string \<Rightarrow> int \<Rightarrow> int \<Rightarrow> 'm \<Rightarrow> bool \<times> 'm"
    and release :: "string \<Rightarrow> int \<Rightarrow> 'm \<Rightarrow> 'm"
  assumes granted: "tok_ok m \<Longrightarrow> valid k \<Longrightarrow> 0 < n \<Longrightarrow> 0 < cap \<Longrightarrow> used m k + n \<le> cap \<Longrightarrow>
      fst (reserve k n cap m) \<and> tok_ok (snd (reserve k n cap m))
      \<and> used (snd (reserve k n cap m)) = (used m)(k := used m k + n)"
    and refused: "tok_ok m \<Longrightarrow> valid k \<Longrightarrow> 0 < n \<Longrightarrow> 0 < cap \<Longrightarrow> cap < used m k + n \<Longrightarrow>
      \<not> fst (reserve k n cap m) \<and> tok_ok (snd (reserve k n cap m)) \<and> used (snd (reserve k n cap m)) = used m"
    and released: "tok_ok m \<Longrightarrow> valid k \<Longrightarrow> 0 < n \<Longrightarrow> n \<le> used m k \<Longrightarrow>
      tok_ok (release k n m) \<and> used (release k n m) = (used m)(k := used m k - n)"

datatype token_cmd = Take string int | Give string int

text \<open>Callers that reserve and give back what they were granted; \<open>held\<close> lists the open reservations.\<close>

fun run_tokens ::
  "(string \<Rightarrow> int \<Rightarrow> int \<Rightarrow> 'm \<Rightarrow> bool \<times> 'm) \<Rightarrow> (string \<Rightarrow> int \<Rightarrow> 'm \<Rightarrow> 'm) \<Rightarrow> (string \<Rightarrow> int)
   \<Rightarrow> token_cmd list \<Rightarrow> 'm \<Rightarrow> (string \<times> int) list \<Rightarrow> 'm \<times> (string \<times> int) list" where
  "run_tokens reserve release cap [] m held = (m, held)"
| "run_tokens reserve release cap (Take k n # cmds) m held =
     (let (ok, m1) = reserve k n (cap k) m in
      run_tokens reserve release cap cmds m1 (if ok then (k, n) # held else held))"
| "run_tokens reserve release cap (Give k n # cmds) m held =
     (if (k, n) \<in> set held then run_tokens reserve release cap cmds (release k n m) (remove1 (k, n) held)
      else run_tokens reserve release cap cmds m held)"

definition held_sum :: "(string \<times> int) list \<Rightarrow> string \<Rightarrow> int" where
  "held_sum held k = sum_list (map snd (filter (\<lambda>h. fst h = k) held))"

lemma held_sum_simps [simp]:
  "held_sum [] k = 0"
  "held_sum ((j, n) # held) k = (if j = k then n else 0) + held_sum held k"
  by (simp_all add: held_sum_def)

lemma held_sum_remove1: "(j, n) \<in> set held \<Longrightarrow> held_sum (remove1 (j, n) held) k = held_sum held k - (if j = k then n else 0)"
  by (induction held) auto

lemma held_sum_nonneg: "\<forall>h \<in> set held. 0 < snd h \<Longrightarrow> 0 \<le> held_sum held k"
  by (induction held) auto

lemma held_sum_ge:
  assumes "\<forall>h \<in> set held. 0 < snd h" "(k, n) \<in> set held"
  shows "n \<le> held_sum held k"
  using assms
proof (induction held)
  case (Cons h held)
  have "0 \<le> held_sum held k" using Cons.prems(1) held_sum_nonneg by simp
  then show ?case using Cons by (cases h) auto
qed simp

definition good_cmd :: "(string \<Rightarrow> bool) \<Rightarrow> token_cmd \<Rightarrow> bool" where
  "good_cmd valid c \<longleftrightarrow> (case c of Take k n \<Rightarrow> valid k \<and> 0 < n | Give k n \<Rightarrow> True)"

text \<open>
  What the callers are promised, with no counter at all: a reservation is granted when the open ones
  and the base leave room for it.
\<close>

fun spec_tokens ::
  "(string \<Rightarrow> int) \<Rightarrow> (string \<Rightarrow> int) \<Rightarrow> token_cmd list \<Rightarrow> (string \<times> int) list \<Rightarrow> (string \<times> int) list" where
  "spec_tokens cap base [] held = held"
| "spec_tokens cap base (Take k n # cmds) held =
     spec_tokens cap base cmds (if base k + held_sum held k + n \<le> cap k then (k, n) # held else held)"
| "spec_tokens cap base (Give k n # cmds) held = spec_tokens cap base cmds (remove1 (k, n) held)"

context token_counter begin

lemma tokens_bounded:
  assumes "tok_ok m" "\<And>k. 0 < cap k" "list_all (good_cmd valid) cmds" "\<And>k. 0 \<le> base k"
    and "\<And>k. used m k = base k + held_sum held k" "\<forall>h \<in> set held. 0 < snd h \<and> valid (fst h)"
    and "run_tokens reserve release cap cmds m held = (m', held')"
  shows "tok_ok m' \<and> (\<forall>k. used m' k = base k + held_sum held' k)
    \<and> (\<forall>k. used m k \<le> cap k \<longrightarrow> used m' k \<le> cap k) \<and> held' = spec_tokens cap base cmds held"
  using assms
proof (induction cmds arbitrary: m held)
  case (Cons cmd cmds)
  show ?case
  proof (cases cmd)
    case (Take k n)
    have kn: "valid k" "0 < n" using Cons.prems(3) Take by (simp_all add: good_cmd_def)
    obtain ok m1 where r: "reserve k n (cap k) m = (ok, m1)" by (cases "reserve k n (cap k) m")
    have s: "tok_ok m1 \<and> used m1 = (if ok then (used m)(k := used m k + n) else used m)
        \<and> ok = (used m k + n \<le> cap k)"
    proof (cases "used m k + n \<le> cap k")
      case True
      then show ?thesis using granted [OF Cons.prems(1) kn Cons.prems(2) [of k] True] r by simp
    next
      case False
      then have "cap k < used m k + n" by simp
      from refused [OF Cons.prems(1) kn Cons.prems(2) [of k] this] show ?thesis using r False by simp
    qed
    note s = conjunct1 [OF s] conjunct1 [OF conjunct2 [OF s]] conjunct2 [OF conjunct2 [OF s]]
    let ?held = "if ok then (k, n) # held else held"
    have u: "used m1 j = base j + held_sum ?held j" for j
      using Cons.prems(5) [of j] s(2) by (cases "j = k") auto
    have h: "\<forall>h \<in> set ?held. 0 < snd h \<and> valid (fst h)" using Cons.prems(6) kn by simp
    have l: "list_all (good_cmd valid) cmds" using Cons.prems(3) by simp
    have run: "run_tokens reserve release cap cmds m1 ?held = (m', held')"
      using Cons.prems(7) Take r by simp
    have *: "tok_ok m' \<and> (\<forall>k. used m' k = base k + held_sum held' k)
        \<and> (\<forall>k. used m1 k \<le> cap k \<longrightarrow> used m' k \<le> cap k) \<and> held' = spec_tokens cap base cmds ?held"
      by (rule Cons.IH [OF s(1) Cons.prems(2) l Cons.prems(4) u h run])
    have "used m1 j \<le> cap j" if "used m j \<le> cap j" for j using that s(2,3) by simp
    moreover have "spec_tokens cap base (cmd # cmds) held = spec_tokens cap base cmds ?held"
      using Take s(3) Cons.prems(5) [of k] by simp
    ultimately show ?thesis using * by metis
  next
    case (Give k n)
    show ?thesis
    proof (cases "(k, n) \<in> set held")
      case True
      have kn: "valid k" "0 < n" using Cons.prems(6) True by auto
      have "n \<le> held_sum held k" using held_sum_ge [OF _ True] Cons.prems(6) by blast
      then have "n \<le> used m k" using Cons.prems(4) [of k] Cons.prems(5) [of k] by linarith
      then have s: "tok_ok (release k n m)" "used (release k n m) = (used m)(k := used m k - n)"
        using released [OF Cons.prems(1) kn] by auto
      have u: "used (release k n m) j = base j + held_sum (remove1 (k, n) held) j" for j
        using Cons.prems(5) [of j] s(2) held_sum_remove1 [OF True, of j] by (cases "j = k") auto
      have h: "\<forall>h \<in> set (remove1 (k, n) held). 0 < snd h \<and> valid (fst h)"
        using Cons.prems(6) set_remove1_subset by fast
      have l: "list_all (good_cmd valid) cmds" using Cons.prems(3) by simp
      have run: "run_tokens reserve release cap cmds (release k n m) (remove1 (k, n) held) = (m', held')"
        using Cons.prems(7) Give True by simp
      have *: "tok_ok m' \<and> (\<forall>k. used m' k = base k + held_sum held' k)
          \<and> (\<forall>j. used (release k n m) j \<le> cap j \<longrightarrow> used m' j \<le> cap j)
          \<and> held' = spec_tokens cap base cmds (remove1 (k, n) held)"
        by (rule Cons.IH [OF s(1) Cons.prems(2) l Cons.prems(4) u h run])
      have "used (release k n m) j \<le> cap j" if "used m j \<le> cap j" for j
        using that s(2) kn(2) by (cases "j = k") auto
      then show ?thesis using * Give by auto
    next
      case False
      have l: "list_all (good_cmd valid) cmds" using Cons.prems(3) by simp
      have "run_tokens reserve release cap cmds m held = (m', held')" using Cons.prems(7) Give False by simp
      note * = Cons.IH [OF Cons.prems(1,2) l Cons.prems(4,5,6) this]
      have "spec_tokens cap base (cmd # cmds) held = spec_tokens cap base cmds held"
        using Give False by (simp add: remove1_idem)
      with * show ?thesis by metis
    qed
  qed
qed simp

end



section \<open>All four token counters meet the contract\<close>

definition redis_ok :: "rm_env \<Rightarrow> rm_env" where
  "redis_ok e = e\<lparr>bk := (\<lambda>_. R_ok)\<rparr>"

definition unit_tokens :: "ResourceManager \<Rightarrow> string \<Rightarrow> int" where
  "unit_tokens m k = (case dget (rm_usage m) k of Some s \<Rightarrow> us_tokens s | None \<Rightarrow> 0)"

definition window_tokens :: "ResourceManager \<Rightarrow> string \<Rightarrow> int" where
  "window_tokens m k = fst (dget_or (rm_tenant_tokens m) k (0, 0))"

definition shared_unit_tokens :: "time \<Rightarrow> ResourceManager \<Rightarrow> string \<Rightarrow> int" where
  "shared_unit_tokens t m k = r_int t (tokens_key k) (rm_db m)"

definition shared_tenant_tokens :: "time \<Rightarrow> ResourceManager \<Rightarrow> string \<Rightarrow> int" where
  "shared_tenant_tokens t m k = r_int t (tenant_tokens_key k) (rm_db m)"

lemma token_keys_inj [simp]:
  "tokens_key j = tokens_key k \<longleftrightarrow> j = k" "tenant_tokens_key j = tenant_tokens_key k \<longleftrightarrow> j = k"
  by (simp_all add: tokens_key_def tenant_tokens_key_def)

lemma r_add_ok:
  assumes "0 < ttl"
  shows "fst (r_add R_ok t k n ttl d) = Some (r_int t k d + n)"
    and "r_int t j (snd (r_add R_ok t k n ttl d)) = (if j = k then r_int t k d + n else r_int t j d)"
proof -
  have "0 < ttl * secs" using assms by simp
  then show "fst (r_add R_ok t k n ttl d) = Some (r_int t k d + n)"
    and "r_int t j (snd (r_add R_ok t k n ttl d)) = (if j = k then r_int t k d + n else r_int t j d)"
    by (auto simp: r_add_def r_incrby_def r_expire_def r_int_def r_get_def r_live_def Let_def
        split: option.splits)
qed

lemma add_tokens_ok:
  "fst (add_tokens R_ok t k n d) = Some (r_int t (tokens_key k) d + n)"
  "r_int t (tokens_key j) (snd (add_tokens R_ok t k n d)) =
     (if j = k then r_int t (tokens_key k) d + n else r_int t (tokens_key j) d)"
  by (simp_all add: add_tokens_def r_add_ok EU_KEY_TTL_SECONDS_def)

lemma add_tenant_tokens_ok:
  "fst (add_tenant_tokens R_ok t k n d) = Some (r_int t (tenant_tokens_key k) d + n)"
  "r_int t (tenant_tokens_key j) (snd (add_tenant_tokens R_ok t k n d)) =
     (if j = k then r_int t (tenant_tokens_key k) d + n else r_int t (tenant_tokens_key j) d)"
  by (simp_all add: add_tenant_tokens_def r_add_ok TENANT_KEY_TTL_SECONDS_def)

lemma with_snapshot_frame [frame_simps]:
  "rm_has_backend (with_snapshot e t k f m) = rm_has_backend m" "rm_db (with_snapshot e t k f m) = rm_db m"
  by (simp_all add: with_snapshot_def)

lemma with_snapshot_tokens:
  assumes "\<And>s. us_tokens (f s) = us_tokens s + n"
  shows "unit_tokens (with_snapshot e t k f m) = (unit_tokens m)(k := unit_tokens m k + n)"
  using assms by (auto simp: unit_tokens_def with_snapshot_def dget_or_def new_snapshot_def split: option.splits)

lemma add_window_frame [frame_simps]:
  "rm_has_backend (add_window e k n m) = rm_has_backend m" "rm_db (add_window e k n m) = rm_db m"
  by (simp_all add: add_window_def case_prod_beta)

lemma add_window_tokens: "window_tokens (add_window e k n m) = (window_tokens m)(k := window_tokens m k + n)"
  by (auto simp: window_tokens_def add_window_def dget_or_def split: option.splits)

interpretation unit_local: token_counter "\<lambda>m. \<not> rm_has_backend m" "\<lambda>k. True" unit_tokens
  "\<lambda>k n cap. reserve_tokens e k n cap tenant" "release_tokens e"
proof
  fix m :: ResourceManager and k :: string and n cap :: int
  assume ok: "\<not> rm_has_backend m" and n: "0 < n" "0 < cap"
  let ?t = "or_text tenant []"
  let ?m = "with_snapshot e ?t k (\<lambda>s. s) m"
  have m0: "m\<lparr>rm_db := rm_db m\<rparr> = m" by simp
  have u: "unit_tokens ?m = unit_tokens m" using with_snapshot_tokens [of "\<lambda>s. s" 0 e ?t k m] by simp
  have us: "us_tokens (dget_or (rm_usage ?m) k (new_snapshot ?t (e_now e))) = unit_tokens m k"
    by (auto simp: with_snapshot_def unit_tokens_def dget_or_def new_snapshot_def split: option.splits)
  have res: "reserve_tokens e k n cap tenant m =
      (if cap < unit_tokens m k + n then (False, ?m)
       else (True, with_snapshot e ?t k (\<lambda>s. s\<lparr>us_tokens := us_tokens s + n\<rparr>) ?m))"
    using ok n us m0 by (simp add: reserve_tokens_def Let_def del: dget_or_dset)
  have g: "unit_tokens (with_snapshot e ?t k (\<lambda>s. s\<lparr>us_tokens := us_tokens s + n\<rparr>) ?m) =
      (unit_tokens m)(k := unit_tokens m k + n)"
    using with_snapshot_tokens [of "\<lambda>s. s\<lparr>us_tokens := us_tokens s + n\<rparr>" n e ?t k ?m] u by simp
  show "fst (reserve_tokens e k n cap tenant m) \<and> \<not> rm_has_backend (snd (reserve_tokens e k n cap tenant m))
      \<and> unit_tokens (snd (reserve_tokens e k n cap tenant m)) = (unit_tokens m)(k := unit_tokens m k + n)"
    if "unit_tokens m k + n \<le> cap"
    using that ok g by (simp add: res frame_simps)
  show "\<not> fst (reserve_tokens e k n cap tenant m) \<and> \<not> rm_has_backend (snd (reserve_tokens e k n cap tenant m))
      \<and> unit_tokens (snd (reserve_tokens e k n cap tenant m)) = unit_tokens m"
    if "cap < unit_tokens m k + n"
    using that ok u by (simp add: res frame_simps)
next
  fix m :: ResourceManager and k :: string and n :: int
  assume "\<not> rm_has_backend m" "0 < n" "n \<le> unit_tokens m k"
  then show "\<not> rm_has_backend (release_tokens e k n m)
      \<and> unit_tokens (release_tokens e k n m) = (unit_tokens m)(k := unit_tokens m k - n)"
    by (auto simp: release_tokens_def unit_tokens_def Let_def split: option.splits)
qed

interpretation tenant_local: token_counter "\<lambda>m. \<not> rm_has_backend m" "\<lambda>k. k \<noteq> []" window_tokens
  "reserve_tenant_tokens e" "release_tenant_tokens e"
proof
  fix m :: ResourceManager and k :: string and n cap :: int
  assume ok: "\<not> rm_has_backend m" and k: "k \<noteq> []" and n: "0 < n" "0 < cap"
  have w: "fst (dget_or (rm_tenant_tokens m) k (0, e_now e)) = window_tokens m k"
    by (auto simp: window_tokens_def dget_or_def split: option.splits)
  have res: "reserve_tenant_tokens e k n cap m =
      (if cap < window_tokens m k + n then (False, m) else (True, add_window e k n m))"
    using ok k n w by (simp add: reserve_tenant_tokens_def Let_def)
  show "fst (reserve_tenant_tokens e k n cap m) \<and> \<not> rm_has_backend (snd (reserve_tenant_tokens e k n cap m))
      \<and> window_tokens (snd (reserve_tenant_tokens e k n cap m)) = (window_tokens m)(k := window_tokens m k + n)"
    if "window_tokens m k + n \<le> cap"
    using that ok by (simp add: res frame_simps add_window_tokens)
  show "\<not> fst (reserve_tenant_tokens e k n cap m) \<and> \<not> rm_has_backend (snd (reserve_tenant_tokens e k n cap m))
      \<and> window_tokens (snd (reserve_tenant_tokens e k n cap m)) = window_tokens m"
    if "cap < window_tokens m k + n"
    using that ok by (simp add: res)
next
  fix m :: ResourceManager and k :: string and n :: int
  assume "\<not> rm_has_backend m" "k \<noteq> []" "0 < n" "n \<le> window_tokens m k"
  then show "\<not> rm_has_backend (release_tenant_tokens e k n m)
      \<and> window_tokens (release_tenant_tokens e k n m) = (window_tokens m)(k := window_tokens m k - n)"
    by (auto simp: release_tenant_tokens_def window_tokens_def dget_or_def Let_def split: option.splits prod.splits)
qed

interpretation unit_shared: token_counter rm_has_backend "\<lambda>k. True" "shared_unit_tokens (e_now e)"
  "\<lambda>k n cap. reserve_tokens (redis_ok e) k n cap tenant" "release_tokens (redis_ok e)"
proof
  fix m :: ResourceManager and k :: string and n cap :: int
  assume ok: "rm_has_backend m" and n: "0 < n" "0 < cap"
  let ?u = "shared_unit_tokens (e_now e)" and ?r = "reserve_tokens (redis_ok e) k n cap tenant m"
  obtain d where a: "add_tokens R_ok (e_now e) k n (rm_db m) = (Some (?u m k + n), d)"
    using add_tokens_ok(1) [of "e_now e" k n "rm_db m"]
    by (cases "add_tokens R_ok (e_now e) k n (rm_db m)") (auto simp: shared_unit_tokens_def)
  have d: "r_int (e_now e) (tokens_key j) d = (if j = k then ?u m k + n else ?u m j)" for j
    using add_tokens_ok(2) [of "e_now e" j k n "rm_db m"] a by (simp add: shared_unit_tokens_def)
  show "fst ?r \<and> rm_has_backend (snd ?r) \<and> ?u (snd ?r) = (?u m)(k := ?u m k + n)" if "?u m k + n \<le> cap"
    using that ok n a d
    by (auto simp: reserve_tokens_def redis_ok_def frame_simps shared_unit_tokens_def fun_eq_iff Let_def)
  show "\<not> fst ?r \<and> rm_has_backend (snd ?r) \<and> ?u (snd ?r) = ?u m" if "cap < ?u m k + n"
    using that ok n a d
    by (auto simp: reserve_tokens_def redis_ok_def shared_unit_tokens_def fun_eq_iff add_tokens_ok Let_def)
next
  fix m :: ResourceManager and k :: string and n :: int
  assume "rm_has_backend m" "0 < n"
  then show "rm_has_backend (release_tokens (redis_ok e) k n m)
      \<and> shared_unit_tokens (e_now e) (release_tokens (redis_ok e) k n m) =
        (shared_unit_tokens (e_now e) m)(k := shared_unit_tokens (e_now e) m k - n)"
    by (auto simp: release_tokens_def redis_ok_def shared_unit_tokens_def fun_eq_iff add_tokens_ok Let_def
        split: option.splits)
qed

interpretation tenant_shared: token_counter rm_has_backend "\<lambda>k. k \<noteq> []" "shared_tenant_tokens (e_now e)"
  "reserve_tenant_tokens (redis_ok e)" "release_tenant_tokens (redis_ok e)"
proof
  fix m :: ResourceManager and k :: string and n cap :: int
  assume ok: "rm_has_backend m" and k: "k \<noteq> []" and n: "0 < n" "0 < cap"
  let ?u = "shared_tenant_tokens (e_now e)" and ?r = "reserve_tenant_tokens (redis_ok e) k n cap m"
  obtain d where a: "add_tenant_tokens R_ok (e_now e) k n (rm_db m) = (Some (?u m k + n), d)"
    using add_tenant_tokens_ok(1) [of "e_now e" k n "rm_db m"]
    by (cases "add_tenant_tokens R_ok (e_now e) k n (rm_db m)") (auto simp: shared_tenant_tokens_def)
  have d: "r_int (e_now e) (tenant_tokens_key j) d = (if j = k then ?u m k + n else ?u m j)" for j
    using add_tenant_tokens_ok(2) [of "e_now e" j k n "rm_db m"] a by (simp add: shared_tenant_tokens_def)
  show "fst ?r \<and> rm_has_backend (snd ?r) \<and> ?u (snd ?r) = (?u m)(k := ?u m k + n)" if "?u m k + n \<le> cap"
    using that ok k n a d
    by (auto simp: reserve_tenant_tokens_def redis_ok_def frame_simps shared_tenant_tokens_def fun_eq_iff Let_def)
  show "\<not> fst ?r \<and> rm_has_backend (snd ?r) \<and> ?u (snd ?r) = ?u m" if "cap < ?u m k + n"
    using that ok k n a d
    by (auto simp: reserve_tenant_tokens_def redis_ok_def shared_tenant_tokens_def fun_eq_iff
        add_tenant_tokens_ok Let_def)
next
  fix m :: ResourceManager and k :: string and n :: int
  assume "rm_has_backend m" "k \<noteq> []" "0 < n"
  then show "rm_has_backend (release_tenant_tokens (redis_ok e) k n m)
      \<and> shared_tenant_tokens (e_now e) (release_tenant_tokens (redis_ok e) k n m) =
        (shared_tenant_tokens (e_now e) m)(k := shared_tenant_tokens (e_now e) m k - n)"
    by (auto simp: release_tenant_tokens_def redis_ok_def shared_tenant_tokens_def fun_eq_iff
        add_tenant_tokens_ok Let_def split: prod.splits)
qed



section \<open>Concurrent reservations on Redis\<close>

text \<open>
  Many processes reserve on one unit. The two Redis commands of \<^verbatim>\<open>reserve_tokens\<close> are separate
  steps: \<^verbatim>\<open>INCRBY\<close> (\<open>tk_waiting\<close> keeps the amount and the value it returned), then the comparison,
  which grants, or refuses and takes the amount back out. The key does not expire while time passes.
\<close>

record tok_sys =
  tk_db :: redis_db
  tk_clock :: time
  tk_waiting :: "(int \<times> int) list"
  tk_granted :: "int list"
  tk_recorded :: int

definition tk_value :: "string \<Rightarrow> tok_sys \<Rightarrow> int" where
  "tk_value eid s = r_int (tk_clock s) (tokens_key eid) (tk_db s)"

definition tk_init :: "string \<Rightarrow> tok_sys \<Rightarrow> bool" where
  "tk_init eid s \<longleftrightarrow> tk_value eid s = 0 \<and> tk_waiting s = [] \<and> tk_granted s = [] \<and> tk_recorded s = 0"

inductive tk_step :: "string \<Rightarrow> int \<Rightarrow> tok_sys \<Rightarrow> tok_sys \<Rightarrow> bool" for eid cap where
  tk_tick: "tk_value eid (s\<lparr>tk_clock := t\<rparr>) = tk_value eid s \<Longrightarrow> tk_step eid cap s (s\<lparr>tk_clock := t\<rparr>)"
| tk_incr: "0 < n \<Longrightarrow> add_tokens R_ok (tk_clock s) eid n (tk_db s) = (Some v, d) \<Longrightarrow>
    tk_step eid cap s (s\<lparr>tk_db := d, tk_waiting := (n, v) # tk_waiting s\<rparr>)"
| tk_grant: "(n, v) \<in> set (tk_waiting s) \<Longrightarrow> \<not> cap < v \<Longrightarrow>
    tk_step eid cap s (s\<lparr>tk_waiting := remove1 (n, v) (tk_waiting s), tk_granted := n # tk_granted s\<rparr>)"
| tk_refuse: "(n, v) \<in> set (tk_waiting s) \<Longrightarrow> cap < v \<Longrightarrow>
    add_tokens R_ok (tk_clock s) eid (- n) (tk_db s) = (Some w, d) \<Longrightarrow>
    tk_step eid cap s (s\<lparr>tk_db := d, tk_waiting := remove1 (n, v) (tk_waiting s)\<rparr>)"
| tk_release: "n \<in> set (tk_granted s) \<Longrightarrow>
    add_tokens R_ok (tk_clock s) eid (- n) (tk_db s) = (Some w, d) \<Longrightarrow>
    tk_step eid cap s (s\<lparr>tk_db := d, tk_granted := remove1 n (tk_granted s)\<rparr>)"
| tk_record: "0 < n \<Longrightarrow> add_tokens R_ok (tk_clock s) eid n (tk_db s) = (Some v, d) \<Longrightarrow>
    tk_step eid cap s (s\<lparr>tk_db := d, tk_recorded := tk_recorded s + n\<rparr>)"

definition waiting_sum :: "(int \<times> int) list \<Rightarrow> int" where
  "waiting_sum ws = sum_list (map fst ws)"

definition passing_sum :: "int \<Rightarrow> (int \<times> int) list \<Rightarrow> int" where
  "passing_sum cap ws = sum_list (map fst (filter (\<lambda>w. snd w \<le> cap) ws))"

definition tk_ok :: "string \<Rightarrow> int \<Rightarrow> tok_sys \<Rightarrow> bool" where
  "tk_ok eid cap s \<longleftrightarrow>
     tk_value eid s = waiting_sum (tk_waiting s) + sum_list (tk_granted s) + tk_recorded s
     \<and> passing_sum cap (tk_waiting s) + sum_list (tk_granted s) \<le> cap
     \<and> (\<forall>w \<in> set (tk_waiting s). 0 < fst w) \<and> (\<forall>n \<in> set (tk_granted s). 0 < n) \<and> 0 \<le> tk_recorded s"

lemma waiting_simps [simp]:
  "waiting_sum ((n, v) # ws) = n + waiting_sum ws"
  "passing_sum cap ((n, v) # ws) = (if v \<le> cap then n else 0) + passing_sum cap ws"
  by (simp_all add: waiting_sum_def passing_sum_def)

lemma waiting_remove1:
  "(n, v) \<in> set ws \<Longrightarrow> waiting_sum (remove1 (n, v) ws) = waiting_sum ws - n"
  "(n, v) \<in> set ws \<Longrightarrow> passing_sum cap (remove1 (n, v) ws) = passing_sum cap ws - (if v \<le> cap then n else 0)"
  by (induction ws) (auto simp: waiting_sum_def passing_sum_def)

lemma sum_remove1: "n \<in> set ns \<Longrightarrow> sum_list (remove1 n ns) = sum_list ns - (n :: int)"
  by (induction ns) auto

lemma passing_le: "\<forall>w \<in> set ws. 0 < fst w \<Longrightarrow> passing_sum cap ws \<le> waiting_sum ws"
  by (induction ws) (auto simp: waiting_sum_def passing_sum_def)

lemma tk_add:
  assumes "add_tokens R_ok (tk_clock s) eid n (tk_db s) = (Some v, d)"
  shows "v = tk_value eid s + n" "r_int (tk_clock s) (tokens_key eid) d = tk_value eid s + n"
  using add_tokens_ok(1) [of "tk_clock s" eid n "tk_db s"] add_tokens_ok(2) [of "tk_clock s" eid eid n "tk_db s"] assms
  by (simp_all add: tk_value_def)

lemma tk_ok_step:
  assumes "tk_step eid cap s t" "tk_ok eid cap s"
  shows "tk_ok eid cap t"
  using assms
proof (induction rule: tk_step.induct)
  case (tk_incr n s v d)
  have "passing_sum cap (tk_waiting s) \<le> waiting_sum (tk_waiting s)"
    using tk_incr(3) passing_le by (simp add: tk_ok_def)
  then show ?case
    using tk_add [OF tk_incr(2)] tk_incr(1,3) by (auto simp: tk_ok_def tk_value_def)
next
  case (tk_grant n v s)
  then show ?case
    by (auto simp: tk_ok_def tk_value_def waiting_remove1 dest: subsetD [OF set_remove1_subset])
next
  case (tk_refuse n v s w d)
  have "\<forall>x \<in> set (remove1 (n, v) (tk_waiting s)). 0 < fst x"
    using tk_refuse(4) set_remove1_subset by (fastforce simp: tk_ok_def)
  then show ?case
    using tk_add [OF tk_refuse(3)] tk_refuse(1,2,4) by (simp add: tk_ok_def tk_value_def waiting_remove1)
next
  case (tk_release n s w d)
  have "\<forall>x \<in> set (remove1 n (tk_granted s)). 0 < x"
    using tk_release(3) set_remove1_subset by (fastforce simp: tk_ok_def)
  then show ?case
    using tk_add [OF tk_release(2)] tk_release(1,3) by (auto simp: tk_ok_def tk_value_def sum_remove1)
next
  case (tk_record n s v d)
  then show ?case
    using tk_add [OF tk_record(2)] by (auto simp: tk_ok_def tk_value_def)
qed (simp add: tk_ok_def tk_value_def)



section \<open>Checks on one unit\<close>

lemma effective_limit_local:
  assumes "\<not> rm_has_backend m" "eid \<noteq> []"
  shows "effective_limit e i (Some eid) dim m =
    (let g = dget_or (GLOBAL_LIMITS (rm_cfg m)) dim 0;
         d = dget_or (case dget (rm_usage m) eid of Some s \<Rightarrow> us_limits s | None \<Rightarrow> []) dim 0
     in (if 0 < g \<and> 0 < d then min g d else if g \<noteq> 0 then g else d, m))"
  using assms
  by (auto simp: effective_limit_def declared_limits_def or_text_def dget_or_def Let_def split: option.splits)

lemma check_quota_local:
  assumes "\<not> rm_has_backend m" "\<not> is_testing e" "eid \<noteq> []" "dget (rm_usage (sweep e m)) eid = Some s"
  shows "fst (fst (check_quota e eid m)) \<longleftrightarrow>
    \<not> (0 < fst (effective_limit e 2 (Some eid) ''wall_time_ms'' (sweep e m))
        \<and> fst (effective_limit e 2 (Some eid) ''wall_time_ms'' (sweep e m)) < us_wall_time_ms s)
    \<and> \<not> (0 < fst (effective_limit e 3 (Some eid) ''syscalls'' (sweep e m))
        \<and> fst (effective_limit e 3 (Some eid) ''syscalls'' (sweep e m)) < us_syscall_count s)"
    and "snd (check_quota e eid m) = sweep e m"
proof -
  have b: "\<not> rm_has_backend (sweep e m)" using assms(1) by (simp add: frame_simps)
  have l: "effective_limit e i (Some eid) dim (sweep e m) =
      (fst (effective_limit e i (Some eid) dim (sweep e m)), sweep e m)" for i dim
    using effective_limit_local [OF b assms(3)] by (simp add: Let_def)
  show "fst (fst (check_quota e eid m)) \<longleftrightarrow>
    \<not> (0 < fst (effective_limit e 2 (Some eid) ''wall_time_ms'' (sweep e m))
        \<and> fst (effective_limit e 2 (Some eid) ''wall_time_ms'' (sweep e m)) < us_wall_time_ms s)
    \<and> \<not> (0 < fst (effective_limit e 3 (Some eid) ''syscalls'' (sweep e m))
        \<and> fst (effective_limit e 3 (Some eid) ''syscalls'' (sweep e m)) < us_syscall_count s)"
    and "snd (check_quota e eid m) = sweep e m"
    using assms(2,4) b l [of 2 "''wall_time_ms''"] l [of 3 "''syscalls''"]
    by (auto simp: check_quota_def Let_def split: prod.splits)
qed

text \<open>
  A caller that checks the quota before each syscall and records the syscall when it was let
  through; the result counts the calls let through.
\<close>

fun guarded_calls :: "rm_env \<Rightarrow> string \<Rightarrow> nat \<Rightarrow> ResourceManager \<Rightarrow> nat" where
  "guarded_calls e eid 0 m = 0"
| "guarded_calls e eid (Suc n) m =
     (let ((ok, reason), m1) = check_quota e eid m in
      if ok then Suc (guarded_calls e eid n (record_syscall e eid 1 m1)) else guarded_calls e eid n m1)"

text \<open>A unit that only its syscall count can stop, in a process that has nothing to sweep.\<close>

definition counting_unit :: "rm_env \<Rightarrow> string \<Rightarrow> int \<Rightarrow> int \<Rightarrow> ResourceManager \<Rightarrow> bool" where
  "counting_unit e eid cap k m \<longleftrightarrow>
     \<not> rm_has_backend m \<and> \<not> is_testing e \<and> eid \<noteq> [] \<and> rm_pending_purge m = []
     \<and> e_now e - rm_last_eviction_sweep m < EVICTION_SWEEP_INTERVAL_SECONDS * secs
     \<and> MAX_SYSCALLS_PER_EXECUTION (rm_cfg m) = cap \<and> 0 < cap \<and> 0 \<le> MAX_WALL_TIME_MS (rm_cfg m)
     \<and> (\<exists>s. dget (rm_usage m) eid = Some s \<and> us_syscall_count s = k \<and> us_wall_time_ms s = 0 \<and> us_limits s = [])"

lemma counting_unit_check:
  assumes "counting_unit e eid cap k m"
  shows "\<exists>r. check_quota e eid m = ((k \<le> cap, r), m)"
proof -
  obtain s where s: "dget (rm_usage m) eid = Some s" "us_syscall_count s = k" "us_wall_time_ms s = 0"
      "us_limits s = []"
    using assms by (auto simp: counting_unit_def)
  have sw: "sweep e m = m" using assms by (simp add: counting_unit_def sweep_def)
  have c: "\<not> rm_has_backend m" "\<not> is_testing e" "eid \<noteq> []" "dget (rm_usage (sweep e m)) eid = Some s"
    using assms s sw by (simp_all add: counting_unit_def)
  have w: "fst (effective_limit e 2 (Some eid) ''wall_time_ms'' m) = MAX_WALL_TIME_MS (rm_cfg m)"
    and n: "fst (effective_limit e 3 (Some eid) ''syscalls'' m) = cap"
    using assms s by (simp_all add: effective_limit_local c GLOBAL_LIMITS_def dget_or_def counting_unit_def Let_def)
  have "0 \<le> MAX_WALL_TIME_MS (rm_cfg m)" "0 < cap" using assms by (simp_all add: counting_unit_def)
  then have "fst (fst (check_quota e eid m)) = (k \<le> cap)"
    using check_quota_local(1) [OF c] unfolding sw w n s by auto
  then show ?thesis using check_quota_local(2) [OF c] sw
    by (intro exI [of _ "snd (fst (check_quota e eid m))"]) (simp add: prod_eq_iff)
qed

lemma counting_unit_record:
  assumes "counting_unit e eid cap k m"
  shows "counting_unit e eid cap (k + 1) (record_syscall e eid 1 m)"
  using assms by (auto simp: counting_unit_def record_syscall_def with_snapshot_def dget_or_def Let_def)

lemma guarded_calls_stopped:
  "counting_unit e eid cap k m \<Longrightarrow> cap < k \<Longrightarrow> guarded_calls e eid n m = 0"
  by (induction n) (use counting_unit_check in \<open>fastforce+\<close>)

lemma guarded_calls_count:
  assumes "counting_unit e eid cap k m" "k \<le> cap + 1"
  shows "int (guarded_calls e eid n m) = min (int n) (cap + 1 - k)"
  using assms
proof (induction n arbitrary: m k)
  case (Suc n)
  obtain r where c: "check_quota e eid m = ((k \<le> cap, r), m)" using counting_unit_check [OF Suc.prems(1)] ..
  show ?case
  proof (cases "k \<le> cap")
    case True
    have "int (guarded_calls e eid n (record_syscall e eid 1 m)) = min (int n) (cap + 1 - (k + 1))"
      by (rule Suc.IH [OF counting_unit_record [OF Suc.prems(1)]]) (use True in simp)
    moreover have "guarded_calls e eid (Suc n) m = Suc (guarded_calls e eid n (record_syscall e eid 1 m))"
      using c True by simp
    ultimately show ?thesis by linarith
  next
    case False
    then show ?thesis using guarded_calls_stopped [OF Suc.prems(1), of "Suc n"] Suc.prems(2) by simp
  qed
qed simp



section \<open>Properties\<close>

text \<open>
  The tenant concurrency limit, counted in process memory: after any sequence of executions that
  ask \<^verbatim>\<open>can_execute\<close>, start when it admits them and end once (by completing or by parking), each
  tenant's counter is exactly the number of its running executions, and no tenant runs more than
  \<^verbatim>\<open>MAX_CONCURRENT_PER_TENANT\<close>.
\<close>

theorem concurrency_limit_local:
  assumes "run_slots (slot_admit local_env) (slot_start local_env) (slot_stop local_env) cmds
      (new_ResourceManager cfg has_backend t0 d) [] = (m, running)"
  shows "local_active t m = int (count (mset running) t)
    \<and> int (count (mset running) t) \<le> max 0 (MAX_CONCURRENT_PER_TENANT cfg)"
proof -
  let ?m0 = "new_ResourceManager cfg has_backend t0 d"
  have r: "\<not> rm_redis ?m0" and z: "local_actives ?m0 u = int (count (mset []) u)" for u
    by (simp_all add: new_ResourceManager_def local_actives_def local_active_def dget_or_def)
  have "tenant_cap m = tenant_cap ?m0 \<and> (\<forall>t. local_actives m t = int (count (mset running) t))
      \<and> (\<forall>t \<in> set running. local_actives m t \<le> tenant_cap m)"
    using local_slots.slots_bounded [OF r z _ assms] by (metis empty_iff list.set(1))
  then have l: "local_active t m = int (count (mset running) t)"
    and b: "t \<in> set running \<Longrightarrow> int (count (mset running) t) \<le> MAX_CONCURRENT_PER_TENANT cfg"
    by (auto simp: local_actives_def tenant_cap_def new_ResourceManager_def)
  have "t \<notin> set running \<Longrightarrow> count (mset running) t = 0" by simp
  then show ?thesis using l b by linarith
qed

definition sample_cmds :: "slot_call slot_cmd list" where
  "sample_cmds =
     [Begin_exec (sample_env, None, False) (sample_env, Some ''e1'', False) ''t'',
      Begin_exec (sample_env, None, False) (sample_env, Some ''e2'', False) ''t'']"

theorem concurrency_limit_local_witness:
  "snd (run_slots (slot_admit local_env) (slot_start local_env) (slot_stop local_env) sample_cmds
      (new_ResourceManager sample_cfg False 0 empty_db) []) = [''t'']
   \<and> local_active ''t'' (fst (run_slots (slot_admit local_env) (slot_start local_env) (slot_stop local_env)
      sample_cmds (new_ResourceManager sample_cfg False 0 empty_db) [])) = 1"
proof -
  let ?r = "run_slots (slot_admit local_env) (slot_start local_env) (slot_stop local_env) sample_cmds
      (new_ResourceManager sample_cfg False 0 empty_db) []"
  have "snd ?r = [''t'']" by code_simp
  moreover have "local_active ''t'' (fst ?r) = int (count (mset (snd ?r)) ''t'')"
    using concurrency_limit_local [of sample_cmds sample_cfg False 0 empty_db "fst ?r" "snd ?r" "''t''"] by simp
  ultimately show ?thesis by simp
qed


definition sample_shared :: ResourceManager where
  "sample_shared = (new_ResourceManager sample_cfg True 0 empty_db)\<lparr>rm_redis := True\<rparr>"


text \<open>
  Token reservations on Redis are safe under contention: however the \<^verbatim>\<open>INCRBY\<close>s, comparisons and
  compensations of concurrent callers interleave with releases and with recorded usage, the open
  granted reservations of a unit never exceed its cap.
\<close>

theorem granted_tokens_within_cap:
  assumes "reach (tk_init eid) (tk_step eid cap) s" "0 \<le> cap"
  shows "sum_list (tk_granted s) \<le> cap
    \<and> tk_value eid s = waiting_sum (tk_waiting s) + sum_list (tk_granted s) + tk_recorded s"
proof -
  have ok: "tk_ok eid cap s" using assms(1)
  proof (induction rule: reach_invariant)
    case (init s)
    then show ?case using assms(2) by (simp add: tk_init_def tk_ok_def waiting_sum_def passing_sum_def)
  qed (rule tk_ok_step)
  have "0 \<le> passing_sum cap ws" if "\<forall>w \<in> set ws. 0 < fst w" for ws
    using that by (induction ws) (auto simp: passing_sum_def)
  then have "0 \<le> passing_sum cap (tk_waiting s)" using ok by (simp add: tk_ok_def)
  then show ?thesis using ok by (auto simp: tk_ok_def)
qed

theorem granted_tokens_within_cap_witness:
  "\<exists>s. reach (tk_init ''u'') (tk_step ''u'' 10) s \<and> tk_waiting s = [(7, 7)]
     \<and> tk_value ''u'' s = 7 \<and> sum_list (tk_granted s) \<le> 10"
proof -
  let ?s = "\<lparr>tk_db = empty_db, tk_clock = 0, tk_waiting = [], tk_granted = [], tk_recorded = 0\<rparr>"
  obtain d where d: "add_tokens R_ok (tk_clock ?s) ''u'' 7 (tk_db ?s) = (Some 7, d)"
    using add_tokens_ok(1) [of 0 "''u''" 7 empty_db]
    by (cases "add_tokens R_ok 0 ''u'' 7 empty_db") (simp add: empty_db_def r_int_def r_get_def)
  have "reach (tk_init ''u'') (tk_step ''u'' 10) ?s"
    by (rule reach_init) (simp add: tk_init_def tk_value_def empty_db_def r_int_def r_get_def)
  from reach_step [OF this, OF tk_incr [OF _ d]]
  have r: "reach (tk_init ''u'') (tk_step ''u'' 10) (?s\<lparr>tk_db := d, tk_waiting := [(7, 7)]\<rparr>)" by simp
  from granted_tokens_within_cap [OF r] r show ?thesis
    by (intro exI [of _ "?s\<lparr>tk_db := d, tk_waiting := [(7, 7)]\<rparr>"]) (simp add: waiting_sum_def)
qed

text \<open>
  A declared ceiling narrows the global one and never widens it: when both are set the smaller
  one applies, when one is set it applies, and only when neither is set is the dimension unlimited.
\<close>

theorem effective_limit_narrows:
  assumes "\<not> rm_has_backend m" "eid \<noteq> []" "dget (rm_usage m) eid = Some s"
    and "dget_or (GLOBAL_LIMITS (rm_cfg m)) dim 0 = g" "0 \<le> g" "dget_or (us_limits s) dim 0 = d" "0 \<le> d"
    and "effective_limit e i (Some eid) dim m = (r, m')"
  shows "m' = m \<and> 0 \<le> r \<and> (0 < g \<longrightarrow> 0 < r \<and> r \<le> g) \<and> (0 < d \<longrightarrow> 0 < r \<and> r \<le> d) \<and> (r = 0 \<longleftrightarrow> g = 0 \<and> d = 0)
    \<and> r \<in> {g, d}"
  using assms by (auto simp: effective_limit_local Let_def min_def split: if_splits)

theorem effective_limit_narrows_witness:
  "fst (effective_limit sample_env 0 (Some ''u'') ''syscalls''
     ((new_ResourceManager (quota_constants (\<lambda>_. None)) False 0 empty_db)\<lparr>rm_usage :=
        [(''u'', (new_snapshot ''t'' 0)\<lparr>us_limits := [(''syscalls'', 500)]\<rparr>)]\<rparr>)) \<le> 100"
proof -
  let ?m = "(new_ResourceManager (quota_constants (\<lambda>_. None)) False 0 empty_db)\<lparr>rm_usage :=
        [(''u'', (new_snapshot ''t'' 0)\<lparr>us_limits := [(''syscalls'', 500)]\<rparr>)]\<rparr>"
  have "\<not> rm_has_backend ?m" by (simp add: new_ResourceManager_def)
  moreover have "dget_or (GLOBAL_LIMITS (rm_cfg ?m)) ''syscalls'' 0 = 100"
    by (simp add: new_ResourceManager_def GLOBAL_LIMITS_def quota_constants_def int_env_def dget_or_def)
  moreover obtain r m' where "effective_limit sample_env 0 (Some ''u'') ''syscalls'' ?m = (r, m')"
    by (cases "effective_limit sample_env 0 (Some ''u'') ''syscalls'' ?m")
  ultimately show ?thesis
    using effective_limit_narrows [of ?m "''u''" "(new_snapshot ''t'' 0)\<lparr>us_limits := [(''syscalls'', 500)]\<rparr>"
        "''syscalls''" 100 500 sample_env 0 r m']
    by (simp add: dget_or_def)
qed

text \<open>
  The syscall cap lets one call more through than it names: of \<open>n\<close> calls that each check the
  quota first and are recorded when let through, exactly \<open>cap + 1\<close> pass before every later one is
  refused.
\<close>

theorem syscall_cap_admits_one_more:
  assumes "counting_unit e eid cap 0 m"
  shows "int (guarded_calls e eid n m) = min (int n) (cap + 1)"
proof -
  have "0 < cap" using assms by (simp add: counting_unit_def)
  then show ?thesis using guarded_calls_count [OF assms, of n] by simp
qed

theorem syscall_cap_admits_one_more_witness:
  "guarded_calls sample_env ''u'' 150
     ((new_ResourceManager (quota_constants (\<lambda>_. None)) False 0 empty_db)\<lparr>rm_usage :=
        [(''u'', new_snapshot ''t'' 0)]\<rparr>) = 101"
proof -
  let ?m = "(new_ResourceManager (quota_constants (\<lambda>_. None)) False 0 empty_db)\<lparr>rm_usage :=
        [(''u'', new_snapshot ''t'' 0)]\<rparr>"
  have "counting_unit sample_env ''u'' 100 0 ?m"
    by (simp add: counting_unit_def new_ResourceManager_def sample_env_def quota_constants_def int_env_def
        EVICTION_SWEEP_INTERVAL_SECONDS_def new_snapshot_def)
  from syscall_cap_admits_one_more [OF this, of 150] show ?thesis by simp
qed

text \<open>
  The capacity event fires exactly on the transition from full to available: a completion appends
  \<^verbatim>\<open>resource_available\<close> when, and only when, the tenant was exactly at its limit, so a queue of
  completions above or below the limit never floods the scheduler.
\<close>

theorem capacity_event_on_transition:
  assumes "\<not> rm_redis m" "0 < tenant_cap m"
  shows "rm_events (mark_completed (local_env e) t eu m) =
    rm_events m @ (if local_active t m = tenant_cap m then [''resource_available''] else [])"
proof -
  obtain c m1 where g: "get_redis (local_env e) m = (c, m1)" by (cases "get_redis (local_env e) m")
  have f: "rm_cfg m1 = rm_cfg m" "rm_active_counts m1 = rm_active_counts m" "rm_events m1 = rm_events m" "\<not> c"
    using get_redis_frame [OF g] local_get_redis [OF assms(1) g] by simp_all
  then show ?thesis
    using g assms(2)
    by (auto simp: mark_completed_def release_slot_def release_local_def publish_capacity_freed_def
        local_active_def tenant_cap_def Let_def)
qed

theorem capacity_event_on_transition_witness:
  "rm_events (mark_completed (local_env sample_env) ''t'' None
     ((new_ResourceManager (quota_constants (\<lambda>_. None)) False 0 empty_db)\<lparr>rm_active_counts := [(''t'', 5)]\<rparr>)) =
   [''resource_available'']"
  by (subst capacity_event_on_transition)
     (simp_all add: new_ResourceManager_def tenant_cap_def quota_constants_def int_env_def local_active_def
       dget_or_def)




lemma r_int_deleted: "k \<in> set ks \<Longrightarrow> r_int now k (r_delete ks d) = 0"
proof -
  assume "k \<in> set ks"
  then have "dget (filter (\<lambda>e. fst e \<notin> set ks) (r_ints d)) k = None" by (auto simp: map_of_eq_None_iff)
  then show ?thesis by (simp add: r_int_def r_get_def r_delete_def)
qed

text \<open>
  Releasing a reservation after the unit was purged credits the unit on Redis: the purge deletes
  the counter, the release then takes the amount out of an absent one, and the unit may afterwards
  reserve that much more than its cap.
\<close>

theorem release_after_purge_credits:
  assumes "rm_has_backend m" "0 < n" "0 < cap"
  shows "shared_unit_tokens (e_now e) (release_tokens (redis_ok e) eid n (purge_eu (redis_ok e) eid m)) eid = - n
    \<and> fst (reserve_tokens (redis_ok e) eid (cap + n) cap tenant
        (release_tokens (redis_ok e) eid n (purge_eu (redis_ok e) eid m)))"
proof -
  let ?p = "purge_eu (redis_ok e) eid m" and ?m = "release_tokens (redis_ok e) eid n (purge_eu (redis_ok e) eid m)"
  have b: "rm_has_backend ?p" "rm_has_backend ?m"
    using assms(1) by (simp_all add: purge_eu_def release_tokens_def redis_ok_def Let_def split: option.splits)
  have "shared_unit_tokens (e_now e) ?p eid = 0"
    using assms(1)
    by (simp add: purge_eu_def redis_ok_def delete_eu_def shared_unit_tokens_def r_int_deleted)
  then have u: "shared_unit_tokens (e_now e) ?m eid = - n"
    using assms(2) b(1)
    by (auto simp: release_tokens_def redis_ok_def shared_unit_tokens_def add_tokens_ok Let_def split: option.splits)
  then show ?thesis using unit_shared.granted [OF b(2), where k = eid and n = "cap + n" and cap = cap and e = e and tenant = tenant]
      assms(2,3) by simp
qed

theorem release_after_purge_credits_witness:
  "fst (reserve_tokens (redis_ok sample_env) ''u'' 15 10 None
     (release_tokens (redis_ok sample_env) ''u'' 5 (purge_eu (redis_ok sample_env) ''u'' sample_shared)))"
proof -
  have "rm_has_backend sample_shared" by (simp add: sample_shared_def new_ResourceManager_def)
  from release_after_purge_credits [OF this, of 5 10 sample_env "''u''" None] show ?thesis by simp
qed

text \<open>
  Admission and start are two steps: two callers of a tenant with one free slot that both ask
  before either starts are both admitted, and the tenant then runs one execution more than its
  limit.
\<close>

theorem admission_race:
  assumes "\<not> rm_redis m" "local_active t m = tenant_cap m - 1"
    and "slot_admit local_env c1 t m = (ok1, m1)" "slot_admit local_env c2 t m1 = (ok2, m2)"
  shows "ok1 \<and> ok2 \<and>
    local_active t (slot_start local_env c4 t (slot_start local_env c3 t m2)) = tenant_cap m + 1"
proof -
  have 1: "ok1" "\<not> rm_redis m1" "local_actives m1 = local_actives m" "tenant_cap m1 = tenant_cap m"
    using local_slots.admit_answer [OF assms(1), of c1 t] local_slots.admit_keeps [OF assms(1), of c1 t] assms(2,3)
    by (simp_all add: local_actives_def)
  have 2: "ok2" "\<not> rm_redis m2" "local_actives m2 = local_actives m1"
    using local_slots.admit_answer [OF 1(2), of c2 t] local_slots.admit_keeps [OF 1(2), of c2 t] assms(2,4) 1(3,4)
    by (simp_all add: local_actives_def fun_eq_iff)
  have "local_actives (slot_start local_env c4 t (slot_start local_env c3 t m2)) t = local_actives m t + 2"
    using local_slots.start_adds [of "slot_start local_env c3 t m2" c4 t] local_slots.start_adds [OF 2(2), of c3 t]
      1(3) 2(3) by simp
  then show ?thesis using 1(1) 2(1) assms(2) by (simp add: local_actives_def)
qed

theorem admission_race_witness:
  "local_active ''t'' (slot_start local_env (sample_env, None, False) ''t''
     (slot_start local_env (sample_env, None, False) ''t''
       (snd (slot_admit local_env (sample_env, None, False) ''t''
         (snd (slot_admit local_env (sample_env, None, False) ''t''
           (new_ResourceManager sample_cfg False 0 empty_db))))))) = 2"
proof -
  have "\<not> rm_redis (new_ResourceManager sample_cfg False 0 empty_db)"
    and "local_active ''t'' (new_ResourceManager sample_cfg False 0 empty_db) =
      tenant_cap (new_ResourceManager sample_cfg False 0 empty_db) - 1"
    by (simp_all add: new_ResourceManager_def local_active_def tenant_cap_def sample_cfg_def dget_or_def)
  from admission_race [OF this, OF surjective_pairing surjective_pairing]
  show ?thesis by (simp add: new_ResourceManager_def tenant_cap_def sample_cfg_def)
qed

end
