(* ===== verification/Wait_Condition.thy ===== *)
theory Wait_Condition
  imports Py_Values
begin

text \<open>
  Wait conditions (\<^verbatim>\<open>core/wait_condition.py\<close>): the typed value that says what a suspended
  execution unit waits for, its dictionary form in JSONB, and the UTC reading of trigger times.
\<close>


section \<open>Times with an optional zone\<close>

text \<open>
  A \<^verbatim>\<open>datetime\<close> is its local reading in microseconds and the offset of its zone, \<open>None\<close> for a
  naive one. \<open>replace(tzinfo=timezone.utc)\<close> on a naive value keeps the reading.
\<close>

type_synonym datetime = "int \<times> int option"

definition aware :: "datetime \<Rightarrow> datetime" where
  "aware d = (case snd d of None \<Rightarrow> (fst d, Some 0) | Some _ \<Rightarrow> d)"

definition instant :: "datetime \<Rightarrow> time" where
  "instant d = fst d - (case snd d of None \<Rightarrow> 0 | Some o' \<Rightarrow> o')"

text \<open>
  What a stored \<^verbatim>\<open>trigger_at\<close> can hold besides \<^verbatim>\<open>None\<close>: ISO text, a \<^verbatim>\<open>datetime\<close>, or another
  object, by its \<^verbatim>\<open>str()\<close>. The text parser \<^verbatim>\<open>datetime.fromisoformat\<close> and the printer
  \<^verbatim>\<open>isoformat\<close> are arguments.
\<close>

datatype raw_trigger = Iso_text string | Datetime datetime | Other_trigger string


section \<open>The condition\<close>

definition WAIT_TYPE_EVENT :: string where "WAIT_TYPE_EVENT = ''event''"
definition WAIT_TYPE_TIME :: string where "WAIT_TYPE_TIME = ''time''"
definition WAIT_TYPE_EXTERNAL :: string where "WAIT_TYPE_EXTERNAL = ''external''"

definition VALID_TYPES :: "string list" where
  "VALID_TYPES = [WAIT_TYPE_EVENT, WAIT_TYPE_TIME, WAIT_TYPE_EXTERNAL]"

record WaitCondition =
  wc_type :: string
  wc_trigger_at :: "datetime option"
  wc_event_name :: "string option"
  wc_correlation_id :: "string option"

text \<open>The dictionary form; a missing key reads as \<open>None\<close>.\<close>

record wait_dict =
  wd_type :: "string option"
  wd_trigger_at :: "raw_trigger option"
  wd_event_name :: "string option"
  wd_correlation_id :: "string option"

definition empty_wait_dict :: wait_dict where
  "empty_wait_dict = \<lparr>wd_type = None, wd_trigger_at = None, wd_event_name = None, wd_correlation_id = None\<rparr>"

definition new_WaitCondition ::
  "string \<Rightarrow> datetime option \<Rightarrow> string option \<Rightarrow> string option \<Rightarrow> py_exc + WaitCondition" where
  "new_WaitCondition ty trigger event corr =
     (if ty \<notin> set VALID_TYPES
      then Inl (ValueError (''WaitCondition.type must be one of '' @
             py_repr (PList (map PStr [WAIT_TYPE_EVENT, WAIT_TYPE_EXTERNAL, WAIT_TYPE_TIME])) @
             '', got '' @ repr_str ty))
      else Inr \<lparr>wc_type = ty, wc_trigger_at = trigger, wc_event_name = event, wc_correlation_id = corr\<rparr>)"

definition wait_to_dict :: "(datetime \<Rightarrow> string) \<Rightarrow> WaitCondition \<Rightarrow> wait_dict" where
  "wait_to_dict isoformat w =
     \<lparr>wd_type = Some (wc_type w),
      wd_trigger_at = map_option (\<lambda>d. Iso_text (isoformat d)) (wc_trigger_at w),
      wd_event_name = wc_event_name w,
      wd_correlation_id = wc_correlation_id w\<rparr>"

definition parse_iso_text :: "(string \<Rightarrow> datetime option) \<Rightarrow> string \<Rightarrow> datetime option" where
  "parse_iso_text fromiso t = map_option aware (fromiso (py_replace ''Z'' ''+00:00'' t))"

definition parse_utc_datetime :: "(string \<Rightarrow> datetime option) \<Rightarrow> raw_trigger option \<Rightarrow> datetime option" where
  "parse_utc_datetime fromiso v =
     (case v of
        None \<Rightarrow> None
      | Some (Datetime d) \<Rightarrow> Some (aware d)
      | Some (Iso_text t) \<Rightarrow> parse_iso_text fromiso t
      | Some (Other_trigger t) \<Rightarrow> parse_iso_text fromiso t)"

text \<open>\<^verbatim>\<open>x or None\<close> on an optional text.\<close>

definition or_none :: "string option \<Rightarrow> string option" where
  "or_none x = (if x = Some [] then None else x)"

definition wait_from_dict ::
  "(string \<Rightarrow> datetime option) \<Rightarrow> wait_dict \<Rightarrow> py_exc + WaitCondition" where
  "wait_from_dict fromiso data =
     (if data = empty_wait_dict then new_WaitCondition WAIT_TYPE_EVENT None None None
      else new_WaitCondition (or_text (wd_type data) WAIT_TYPE_EVENT)
             (parse_utc_datetime fromiso (wd_trigger_at data))
             (or_none (wd_event_name data)) (or_none (wd_correlation_id data)))"

definition for_event :: "string \<Rightarrow> string option \<Rightarrow> py_exc + WaitCondition" where
  "for_event event corr = new_WaitCondition WAIT_TYPE_EVENT None (Some event) corr"

definition for_time :: "datetime \<Rightarrow> string option \<Rightarrow> py_exc + WaitCondition" where
  "for_time trigger corr = new_WaitCondition WAIT_TYPE_TIME (Some (aware trigger)) None corr"

definition for_external :: "string \<Rightarrow> string option \<Rightarrow> py_exc + WaitCondition" where
  "for_external event corr = new_WaitCondition WAIT_TYPE_EXTERNAL None (Some event) corr"

definition is_time_based :: "WaitCondition \<Rightarrow> bool" where
  "is_time_based w \<longleftrightarrow> wc_type w = WAIT_TYPE_TIME"

definition is_event_based :: "WaitCondition \<Rightarrow> bool" where
  "is_event_based w \<longleftrightarrow> wc_type w \<in> {WAIT_TYPE_EVENT, WAIT_TYPE_EXTERNAL}"

definition resume_event :: "WaitCondition \<Rightarrow> string option" where
  "resume_event w = (if is_event_based w then wc_event_name w else None)"

lemma instant_aware [simp]: "instant (aware d) = instant d"
  by (simp add: instant_def aware_def split: option.splits)

lemma aware_idem [simp]: "aware (aware d) = aware d"
  by (simp add: aware_def split: option.splits)


lemma py_replace_char_absent: "c \<notin> set s \<Longrightarrow> py_replace [c] new s = s"
  by (induction s) auto

lemma new_WaitCondition_Inr:
  "new_WaitCondition ty t e c = Inr w \<longleftrightarrow>
     ty \<in> set VALID_TYPES \<and> w = \<lparr>wc_type = ty, wc_trigger_at = t, wc_event_name = e, wc_correlation_id = c\<rparr>"
  by (auto simp: new_WaitCondition_def)

lemma valid_type_nonempty: "ty \<in> set VALID_TYPES \<Longrightarrow> ty \<noteq> []"
  by (auto simp: VALID_TYPES_def WAIT_TYPE_EVENT_def WAIT_TYPE_TIME_def WAIT_TYPE_EXTERNAL_def)

text \<open>
  A wait condition survives its dictionary form: whatever the constructor accepts is written by
  \<^verbatim>\<open>to_dict\<close> and read back by \<^verbatim>\<open>from_dict\<close> as the same condition, a naive trigger time as the same
  reading in UTC, so that the instant it fires at does not change; a dictionary with any other
  type is refused, and an empty one reads as a wait for an unnamed event. The ISO printer and
  parser are inverse, and the printed text has no \<^verbatim>\<open>Z\<close>, as documented for \<^verbatim>\<open>datetime\<close>.
\<close>

theorem wait_dict_round_trip:
  assumes iso: "\<And>d. trigger = Some d \<Longrightarrow> fromiso (isoformat d) = Some d"
      "\<And>d. trigger = Some d \<Longrightarrow> CHR ''Z'' \<notin> set (isoformat d)"
    and made: "new_WaitCondition ty trigger event corr = Inr w" "event \<noteq> Some []" "corr \<noteq> Some []"
  shows "wait_from_dict fromiso (wait_to_dict isoformat w) = Inr (w\<lparr>wc_trigger_at := map_option aware (wc_trigger_at w)\<rparr>)
    \<and> map_option instant (map_option aware (wc_trigger_at w)) = map_option instant (wc_trigger_at w)
    \<and> (\<forall>d. isl (wait_from_dict fromiso d) \<longleftrightarrow> or_text (wd_type d) WAIT_TYPE_EVENT \<notin> set VALID_TYPES)
    \<and> wait_from_dict fromiso empty_wait_dict = new_WaitCondition WAIT_TYPE_EVENT None None None"
proof -
  have w: "ty \<in> set VALID_TYPES"
    "w = \<lparr>wc_type = ty, wc_trigger_at = trigger, wc_event_name = event, wc_correlation_id = corr\<rparr>"
    using made(1) by (simp_all add: new_WaitCondition_Inr)
  have "parse_utc_datetime fromiso (map_option (\<lambda>d. Iso_text (isoformat d)) trigger) = map_option aware trigger"
    using iso by (cases trigger) (simp_all add: parse_utc_datetime_def parse_iso_text_def py_replace_char_absent)
  then have "wait_from_dict fromiso (wait_to_dict isoformat w) = Inr (w\<lparr>wc_trigger_at := map_option aware (wc_trigger_at w)\<rparr>)"
    using w made(2,3) valid_type_nonempty [OF w(1)]
    by (simp add: wait_from_dict_def wait_to_dict_def empty_wait_dict_def new_WaitCondition_def or_none_def or_text_def)
  moreover have "isl (wait_from_dict fromiso d) \<longleftrightarrow> or_text (wd_type d) WAIT_TYPE_EVENT \<notin> set VALID_TYPES" for d
    by (auto simp: wait_from_dict_def new_WaitCondition_def empty_wait_dict_def or_text_def VALID_TYPES_def)
  ultimately show ?thesis
    by (simp add: option.map_comp comp_def wait_from_dict_def)
qed


definition sample_isoformat :: "datetime \<Rightarrow> string" where
  "sample_isoformat d = (if d = (0, None) then ''1970-01-01T00:00:00'' else ''1970-01-01T00:00:00+00:00'')"

definition sample_fromiso :: "string \<Rightarrow> datetime option" where
  "sample_fromiso t =
     (if t = ''1970-01-01T00:00:00'' then Some (0, None)
      else if t = ''1970-01-01T00:00:00+00:00'' then Some (0, Some 0) else None)"

theorem wait_dict_round_trip_witness:
  "wait_from_dict sample_fromiso (wait_to_dict sample_isoformat
     \<lparr>wc_type = ''time'', wc_trigger_at = Some (0, None), wc_event_name = None, wc_correlation_id = Some ''c''\<rparr>)
   = Inr \<lparr>wc_type = ''time'', wc_trigger_at = Some (0, Some 0), wc_event_name = None, wc_correlation_id = Some ''c''\<rparr>"
proof -
  have "new_WaitCondition ''time'' (Some (0, None)) None (Some ''c'') =
      Inr \<lparr>wc_type = ''time'', wc_trigger_at = Some (0, None), wc_event_name = None, wc_correlation_id = Some ''c''\<rparr>"
    by code_simp
  from wait_dict_round_trip [OF _ _ this, of sample_fromiso sample_isoformat] show ?thesis
    by (simp add: sample_isoformat_def sample_fromiso_def aware_def)
qed

end
