(* ===== verification/Scheduler_Core.thy ===== *)
theory Scheduler_Core
  imports Wait_Condition Redis_Backend "HOL-Library.Multiset"
begin

text \<open>
  The scheduler engine (\<^verbatim>\<open>kernel/scheduler/common.py\<close>, \<^verbatim>\<open>core.py\<close>): scheduled items, the state of
  \<^verbatim>\<open>SchedulerEngine\<close>, the three priority lanes with their round-robin cursors, and the stores the
  engine shares with other processes (the Redis wait registry of
  \<^verbatim>\<open>kernel/redis_wait_registry.py\<close>, the \<^verbatim>\<open>waiting_flow_runs\<close> table, the event bus). The queue
  contract is the locale \<open>work_queue\<close>.
\<close>


section \<open>Items\<close>

definition PRIORITY_HIGH :: string where "PRIORITY_HIGH = ''high''"
definition PRIORITY_NORMAL :: string where "PRIORITY_NORMAL = ''normal''"
definition PRIORITY_LOW :: string where "PRIORITY_LOW = ''low''"

definition PRIORITY_ORDER :: "string list" where
  "PRIORITY_ORDER = [PRIORITY_HIGH, PRIORITY_NORMAL, PRIORITY_LOW]"

definition MAX_PER_SCHEDULE_CYCLE :: nat where "MAX_PER_SCHEDULE_CYCLE = 10"

definition MAX_PRE_REHYDRATION_BUFFER :: "env \<Rightarrow> int" where
  "MAX_PRE_REHYDRATION_BUFFER ev = int_env ev ''AINDY_SCHEDULER_PRE_REHYDRATION_BUFFER'' 1000"

text \<open>What another instance needs to rebuild a resume (\<^verbatim>\<open>kernel/resume_spec.py\<close>).\<close>

definition RESUME_HANDLER_EU :: string where "RESUME_HANDLER_EU = ''execution_unit.resume''"

record ResumeSpec =
  rs_handler :: string
  rs_eu_id :: string
  rs_tenant_id :: string
  rs_run_id :: string
  rs_eu_type :: "string option"

text \<open>
  A callback is a closure the registering caller handed over, known by a number, one that
  \<^verbatim>\<open>build_callback_from_spec\<close> rebuilt from a spec, or the closure of
  \<^verbatim>\<open>build_flow_resume_callback\<close>, which captures the run, its flow, its user, the workflow type and
  the execution unit.
\<close>

datatype callback =
    Local_callback nat
  | Resume_callback ResumeSpec
  | Flow_callback string string "string option" string string

definition build_callback_from_spec :: "ResumeSpec \<Rightarrow> py_exc + callback" where
  "build_callback_from_spec spec =
     (if rs_handler spec = RESUME_HANDLER_EU then Inr (Resume_callback spec)
      else Inl (ValueError (''Unknown resume handler: '' @ rs_handler spec)))"

record ScheduledItem =
  si_eu_id :: string
  si_tenant_id :: string
  si_priority :: string
  si_callback :: callback
  si_run_id :: "string option"
  si_eu_type :: string
  si_seq :: nat
  si_enqueued_at :: time
  si_retry_count :: int
  si_max_retries :: int

definition new_ScheduledItem ::
  "env \<Rightarrow> string \<Rightarrow> string \<Rightarrow> string \<Rightarrow> callback \<Rightarrow> string option \<Rightarrow> string \<Rightarrow> py_exc + ScheduledItem" where
  "new_ScheduledItem ev eu_id tenant_id priority cb run_id eu_type =
     (if priority \<notin> set PRIORITY_ORDER
      then Inl (ValueError (''Invalid priority '' @ repr_str priority @ ''; must be one of ('' @
             py_join '', '' (map repr_str PRIORITY_ORDER) @ '')''))
      else Inr \<lparr>si_eu_id = eu_id, si_tenant_id = tenant_id, si_priority = priority, si_callback = cb,
                si_run_id = run_id, si_eu_type = eu_type, si_seq = 0, si_enqueued_at = 0, si_retry_count = 0,
                si_max_retries = int_env ev ''AINDY_SCHEDULER_MAX_DISPATCH_RETRIES'' 2\<rparr>)"

definition correlation_admits :: "string option \<Rightarrow> string option \<Rightarrow> bool \<Rightarrow> bool" where
  "correlation_admits wait_correlation emit_correlation run_scoped =
     (if run_scoped then True
      else
        let wait_corr = or_none wait_correlation; emit_corr = or_none emit_correlation
        in \<not> (wait_corr \<noteq> None \<and> emit_corr \<noteq> None \<and> wait_corr \<noteq> emit_corr))"


section \<open>Engine state\<close>

record wait_entry =
  we_wait_for :: "string option"
  we_tenant_id :: string
  we_eu_id :: string
  we_callback :: callback
  we_priority :: string
  we_correlation_id :: "string option"
  we_trace_id :: "string option"
  we_eu_type :: string
  we_condition :: "wait_dict option"

text \<open>A row of \<^verbatim>\<open>waiting_flow_runs\<close> (\<^verbatim>\<open>db/models/waiting_flow_run.py\<close>).\<close>

record WaitingFlowRun =
  wf_event_type :: string
  wf_correlation_id :: "string option"
  wf_waited_since :: time
  wf_max_wait_seconds :: "int option"
  wf_timeout_at :: "time option"
  wf_eu_id :: "string option"
  wf_priority :: string
  wf_instance_id :: string

text \<open>
  The columns of \<^verbatim>\<open>flow_runs\<close> (\<^verbatim>\<open>db/models/flow_run.py\<close>) that waiting and resuming read, with the
  two trigger keys of its JSON state.
\<close>

record FlowRun =
  fr_flow_name :: string
  fr_workflow_type :: "string option"
  fr_status :: string
  fr_waiting_for :: "string option"
  fr_wait_deadline :: "time option"
  fr_trace_id :: "string option"
  fr_user_id :: "string option"
  fr_trigger_at :: "raw_trigger option"
  fr_wait_until :: "raw_trigger option"

text \<open>
  The fields \<open>se_\<close> are the attributes of the engine object; the fields \<open>sw_\<close> are the stores outside
  the process: the Redis keys of the wait registry with their expiry, the table of wait backups, the
  flow runs, the execution units by flow run (unit and priority), the events published on the bus,
  the items handed straight to the dispatcher and the runs handed to the flow runner.
\<close>

record scheduler =
  se_queues :: "ScheduledItem list dict"
  se_rr_cursor :: "string option dict"
  se_waiting :: "wait_entry dict"
  se_seq :: nat
  se_total_enqueued :: int
  se_total_dispatched :: int
  se_total_dropped :: int
  se_last_stale_check :: time
  se_rehydrated :: bool
  se_buffer :: "(string \<times> string option \<times> string option) list"
  sw_redis :: "(ResumeSpec \<times> time) dict"
  sw_backups :: "WaitingFlowRun dict"
  sw_flow_runs :: "FlowRun dict"
  sw_units :: "(string \<times> string option) dict"
  sw_bus :: "(string \<times> string option \<times> string option) list"
  sw_forwarded :: "ScheduledItem list"
  sw_resumed :: "string list"

text \<open>
  What one call sees of its surroundings: environment variables, both clocks, whether this process
  runs the scheduler heartbeat, whether a forwarded dispatch succeeds, whether there is a Redis
  client and the Redis and database operations for a run succeed, the watchdog interval, and the
  printer and parser of ISO times.
\<close>

record sched_env =
  sv_env :: env
  sv_now :: time
  sv_mono :: time
  sv_drainer :: bool
  sv_dispatch_ok :: "ScheduledItem \<Rightarrow> bool"
  sv_redis :: bool
  sv_redis_ok :: "string \<Rightarrow> bool"
  sv_scan_ok :: bool
  sv_db_ok :: "string \<Rightarrow> bool"
  sv_query_ok :: bool
  sv_watchdog_minutes :: int
  sv_isoformat :: "datetime \<Rightarrow> string"
  sv_fromiso :: "string \<Rightarrow> datetime option"
  sv_bus_ok :: bool

definition new_scheduler :: scheduler where
  "new_scheduler = \<lparr>se_queues = map (\<lambda>p. (p, [])) PRIORITY_ORDER,
     se_rr_cursor = map (\<lambda>p. (p, None)) PRIORITY_ORDER, se_waiting = [], se_seq = 0,
     se_total_enqueued = 0, se_total_dispatched = 0, se_total_dropped = 0, se_last_stale_check = 0,
     se_rehydrated = False, se_buffer = [], sw_redis = [], sw_backups = [],
     sw_flow_runs = [], sw_units = [], sw_bus = [], sw_forwarded = [], sw_resumed = []\<rparr>"

abbreviation lane :: "string \<Rightarrow> scheduler \<Rightarrow> ScheduledItem list" where
  "lane p s \<equiv> dget_or (se_queues s) p []"

abbreviation cursor :: "string \<Rightarrow> scheduler \<Rightarrow> string option" where
  "cursor p s \<equiv> dget_or (se_rr_cursor s) p None"

definition set_lane :: "string \<Rightarrow> ScheduledItem list \<Rightarrow> scheduler \<Rightarrow> scheduler" where
  "set_lane p q s = s\<lparr>se_queues := dset p q (se_queues s)\<rparr>"


section \<open>The wait registry in Redis\<close>

definition WAIT_KEY_TTL :: int where "WAIT_KEY_TTL = 86400"

text \<open>\<^verbatim>\<open>SETEX\<close> replaces the value and its expiry; the key is \<^verbatim>\<open>aindy:wait:<run_id>\<close>.\<close>

definition wait_live :: "time \<Rightarrow> ResumeSpec \<times> time \<Rightarrow> bool" where
  "wait_live now v \<longleftrightarrow> now < snd v"

definition redis_usable :: "sched_env \<Rightarrow> string \<Rightarrow> bool" where
  "redis_usable e run_id \<longleftrightarrow> sv_redis e \<and> sv_redis_ok e run_id"

definition register_spec :: "sched_env \<Rightarrow> string \<Rightarrow> ResumeSpec \<Rightarrow> scheduler \<Rightarrow> bool \<times> scheduler" where
  "register_spec e run_id spec s =
     (if redis_usable e run_id
      then (True, s\<lparr>sw_redis := dset run_id (spec, sv_now e + WAIT_KEY_TTL * secs) (sw_redis s)\<rparr>)
      else (False, s))"

definition get_spec :: "sched_env \<Rightarrow> string \<Rightarrow> scheduler \<Rightarrow> ResumeSpec option" where
  "get_spec e run_id s =
     (if redis_usable e run_id
      then case dget (sw_redis s) run_id of
             None \<Rightarrow> None | Some v \<Rightarrow> if wait_live (sv_now e) v then Some (fst v) else None
      else None)"

definition get_all_specs :: "sched_env \<Rightarrow> scheduler \<Rightarrow> ResumeSpec dict" where
  "get_all_specs e s =
     (if sv_redis e \<and> sv_scan_ok e
      then map (\<lambda>(k, v). (k, fst v)) (filter (\<lambda>kv. wait_live (sv_now e) (snd kv)) (sw_redis s))
      else [])"

definition unregister_wait :: "sched_env \<Rightarrow> string \<Rightarrow> scheduler \<Rightarrow> scheduler" where
  "unregister_wait e run_id s =
     (if redis_usable e run_id then s\<lparr>sw_redis := dpop run_id (sw_redis s)\<rparr> else s)"

text \<open>\<^verbatim>\<open>DEL\<close> answers whether the key was there: the claim of a wait by one instance.\<close>

definition unregister_if_exists :: "sched_env \<Rightarrow> string \<Rightarrow> scheduler \<Rightarrow> bool \<times> scheduler" where
  "unregister_if_exists e run_id s =
     (if redis_usable e run_id
      then (case dget (sw_redis s) run_id of None \<Rightarrow> False | Some v \<Rightarrow> wait_live (sv_now e) v,
            s\<lparr>sw_redis := dpop run_id (sw_redis s)\<rparr>)
      else (False, s))"


section \<open>Lanes\<close>

definition enqueue :: "sched_env \<Rightarrow> ScheduledItem \<Rightarrow> scheduler \<Rightarrow> scheduler" where
  "enqueue e item s =
     (let s1 = s\<lparr>se_seq := se_seq s + 1\<rparr>;
          item1 = item\<lparr>si_seq := se_seq s1, si_enqueued_at := sv_mono e\<rparr>;
          s2 = set_lane (si_priority item1) (lane (si_priority item1) s1 @ [item1]) s1
      in s2\<lparr>se_total_enqueued := se_total_enqueued s2 + 1\<rparr>)"

text \<open>\<^verbatim>\<open>q.rotate(-1)\<close> moves the head of a deque to its end.\<close>

definition rotate_past :: "string option \<Rightarrow> ScheduledItem list \<Rightarrow> ScheduledItem list" where
  "rotate_past last_tenant q =
     (if last_tenant \<noteq> None \<and> 1 < length q \<and> Some (si_tenant_id (hd q)) = last_tenant then rotate1 q else q)"

fun dequeue_from :: "string list \<Rightarrow> scheduler \<Rightarrow> ScheduledItem option \<times> scheduler" where
  "dequeue_from [] s = (None, s)"
| "dequeue_from (p # ps) s =
     (if lane p s = [] then dequeue_from ps s
      else
        let q = rotate_past (cursor p s) (lane p s); item = hd q; s1 = set_lane p (tl q) s
        in (Some item, s1\<lparr>se_rr_cursor := dset p (Some (si_tenant_id item)) (se_rr_cursor s1),
                          se_total_dispatched := se_total_dispatched s1 + 1\<rparr>))"

definition dequeue_next :: "scheduler \<Rightarrow> ScheduledItem option \<times> scheduler" where
  "dequeue_next = dequeue_from PRIORITY_ORDER"

definition queue_depth :: "scheduler \<Rightarrow> nat dict" where
  "queue_depth s = map (\<lambda>(p, q). (p, length q)) (se_queues s)"

definition queue_size :: "scheduler \<Rightarrow> nat" where
  "queue_size s = sum_list (map (\<lambda>(p, q). length q) (se_queues s))"

definition get_metrics_snapshot :: "scheduler \<Rightarrow> nat dict \<times> nat" where
  "get_metrics_snapshot s = (map (\<lambda>p. (p, length (lane p s))) PRIORITY_ORDER, length (se_waiting s))"

definition stats :: "scheduler \<Rightarrow> nat dict \<times> nat \<times> int \<times> int \<times> int" where
  "stats s = (queue_depth s, length (se_waiting s), se_total_enqueued s, se_total_dispatched s, se_total_dropped s)"

definition reset_scheduler :: "sched_env \<Rightarrow> scheduler \<Rightarrow> scheduler" where
  "reset_scheduler e s =
     (let cleared = dkeys (se_waiting s);
          s1 = s\<lparr>se_queues := map (\<lambda>(p, q). (p, [])) (se_queues s), se_waiting := [],
                 se_rr_cursor := map (\<lambda>p. (p, None)) PRIORITY_ORDER, se_seq := 0,
                 se_total_enqueued := 0, se_total_dispatched := 0, se_total_dropped := 0,
                 se_last_stale_check := 0, se_buffer := [], se_rehydrated := False\<rparr>
      in fold (unregister_wait e) cleared s1)"

definition is_rehydrated :: "scheduler \<Rightarrow> bool" where
  "is_rehydrated s = se_rehydrated s"


section \<open>Queueing a woken run\<close>

definition distributed_execution_mode :: "env \<Rightarrow> bool" where
  "distributed_execution_mode ev \<longleftrightarrow> env_flag ev ''EXECUTION_MODE'' = ''distributed''"

text \<open>
  \<^verbatim>\<open>_dispatch_item_now\<close> hands the item to the execution dispatcher, which may raise; the fields read
  from the entry are its unit, tenant, priority and type.
\<close>

definition enqueue_resume ::
  "sched_env \<Rightarrow> string \<Rightarrow> callback \<Rightarrow> string \<Rightarrow> string \<Rightarrow> string \<Rightarrow> string \<Rightarrow> scheduler \<Rightarrow> py_exc + scheduler" where
  "enqueue_resume e run_id cb eu_id tenant_id priority eu_type s =
     bind_result (new_ScheduledItem (sv_env e) eu_id (if tenant_id = [] then ''system'' else tenant_id)
         (if priority = [] then PRIORITY_NORMAL else priority) cb (Some run_id) eu_type) (\<lambda>item.
       if distributed_execution_mode (sv_env e) \<and> \<not> sv_drainer e \<and> sv_dispatch_ok e item
       then Inr (s\<lparr>sw_forwarded := sw_forwarded s @ [item]\<rparr>)
       else Inr (enqueue e item s))"



section \<open>The queue contract\<close>

text \<open>
  What callers of the queue rely on: an item put in is in it, a take returns an item that was in it
  and removes that one only, and it comes back empty-handed only when there is none. Items are
  known by an identity, because queueing stamps them.
\<close>

locale work_queue =
  fixes wf_q :: "'s \<Rightarrow> bool" and contents :: "'s \<Rightarrow> 'k multiset" and ident :: "'a \<Rightarrow> 'k"
    and ok_item :: "'a \<Rightarrow> bool" and put :: "'a \<Rightarrow> 's \<Rightarrow> 's" and take_q :: "'s \<Rightarrow> 'a option \<times> 's"
  assumes put_ok: "wf_q s \<Longrightarrow> ok_item x \<Longrightarrow> wf_q (put x s) \<and> contents (put x s) = add_mset (ident x) (contents s)"
    and take_none: "wf_q s \<Longrightarrow> take_q s = (None, s') \<Longrightarrow> s' = s \<and> contents s = {#}"
    and take_some: "wf_q s \<Longrightarrow> take_q s = (Some x, s') \<Longrightarrow>
      wf_q s' \<and> ok_item x \<and> contents s = add_mset (ident x) (contents s')"

datatype 'a queue_op = Put 'a | Take

fun run_queue ::
  "('a \<Rightarrow> 's \<Rightarrow> 's) \<Rightarrow> ('s \<Rightarrow> 'a option \<times> 's) \<Rightarrow> 'a queue_op list \<Rightarrow> 's \<Rightarrow> 'a list \<times> 's" where
  "run_queue put take_q [] s = ([], s)"
| "run_queue put take_q (Put x # ops) s = run_queue put take_q ops (put x s)"
| "run_queue put take_q (Take # ops) s =
     (case take_q s of
        (None, s1) \<Rightarrow> run_queue put take_q ops s1
      | (Some x, s1) \<Rightarrow> (case run_queue put take_q ops s1 of (xs, s2) \<Rightarrow> (x # xs, s2)))"

fun puts :: "'a queue_op list \<Rightarrow> 'a list" where
  "puts [] = []"
| "puts (Put x # ops) = x # puts ops"
| "puts (Take # ops) = puts ops"

context work_queue begin

lemma conserved:
  assumes "wf_q s" "list_all ok_item (puts ops)" "run_queue put take_q ops s = (xs, s')"
  shows "wf_q s' \<and> contents s' + image_mset ident (mset xs) = contents s + image_mset ident (mset (puts ops))"
  using assms
proof (induction ops arbitrary: s xs s' rule: puts.induct)
  case (2 x ops)
  have p: "wf_q (put x s)" "contents (put x s) = add_mset (ident x) (contents s)"
    using put_ok [of s x] 2(2,3) by simp_all
  from 2(1) [OF p(1)] 2(3,4) p(2) show ?case by simp
next
  case (3 ops)
  obtain r s1 where t: "take_q s = (r, s1)" by (cases "take_q s")
  show ?case
  proof (cases r)
    case None
    then have "s1 = s" using take_none [OF 3(2)] t by simp
    then show ?thesis using 3 t None by simp
  next
    case (Some x)
    obtain ys s2 where r: "run_queue put take_q ops s1 = (ys, s2)" by (cases "run_queue put take_q ops s1")
    have "wf_q s1" "contents s = add_mset (ident x) (contents s1)"
      using take_some [OF 3(2)] t Some by simp_all
    then show ?thesis using 3(1) [OF _ _ r] 3(3,4) t Some r by auto
  qed
qed simp

lemma drained:
  assumes "wf_q s" "size (contents s) \<le> n" "run_queue put take_q (replicate n Take) s = (xs, s')"
  shows "contents s' = {#} \<and> image_mset ident (mset xs) = contents s"
  using assms
proof (induction n arbitrary: s xs)
  case (Suc n)
  obtain r s1 where t: "take_q s = (r, s1)" by (cases "take_q s")
  show ?case
  proof (cases r)
    case None
    have "s1 = s" "contents s = {#}" using take_none [OF Suc.prems(1)] t None by simp_all
    then show ?thesis using Suc.IH [OF Suc.prems(1), of xs] Suc.prems(3) t None by simp
  next
    case (Some x)
    obtain ys s2 where r: "run_queue put take_q (replicate n Take) s1 = (ys, s2)"
      by (cases "run_queue put take_q (replicate n Take) s1")
    have c: "wf_q s1" "contents s = add_mset (ident x) (contents s1)"
      using take_some [OF Suc.prems(1)] t Some by simp_all
    then have "size (contents s1) \<le> n" using Suc.prems(2) by simp
    from Suc.IH [OF c(1) this] r Suc.prems(3) t Some c(2) show ?thesis by auto
  qed
qed simp

end



section \<open>The engine's lanes meet the contract\<close>

text \<open>
  An item keeps its unit, tenant, callback, run and type for life; its stamps, its retry count and
  its priority may change. Every item sits in the lane of its priority.
\<close>

definition item_id :: "ScheduledItem \<Rightarrow> string \<times> string \<times> callback \<times> string option \<times> string" where
  "item_id i = (si_eu_id i, si_tenant_id i, si_callback i, si_run_id i, si_eu_type i)"

definition queued :: "scheduler \<Rightarrow> ScheduledItem list" where
  "queued s = concat (map snd (se_queues s))"

definition queued_ids :: "scheduler \<Rightarrow> (string \<times> string \<times> callback \<times> string option \<times> string) multiset" where
  "queued_ids s = image_mset item_id (mset (queued s))"

definition wf_lanes :: "scheduler \<Rightarrow> bool" where
  "wf_lanes s \<longleftrightarrow> dkeys (se_queues s) = PRIORITY_ORDER
     \<and> list_all (\<lambda>(p, q). list_all (\<lambda>i. si_priority i = p) q) (se_queues s)"

definition ok_priority :: "ScheduledItem \<Rightarrow> bool" where
  "ok_priority i \<longleftrightarrow> si_priority i \<in> set PRIORITY_ORDER"

lemma distinct_priorities [simp]: "distinct PRIORITY_ORDER"
  by (simp add: PRIORITY_ORDER_def PRIORITY_HIGH_def PRIORITY_NORMAL_def PRIORITY_LOW_def)

lemma queue_size_queued: "queue_size s = length (queued s)"
  by (simp add: queue_size_def queued_def length_concat comp_def case_prod_unfold)

lemma mset_lanes_dset:
  assumes "distinct (dkeys d)" "k \<in> set (dkeys d)"
  shows "mset (concat (map snd (dset k w d))) + mset (dget_or d k []) = mset (concat (map snd d)) + mset w"
  using assms
proof (induction d)
  case (Cons kv d)
  obtain j v where kv: "kv = (j, v)" by (cases kv)
  show ?case
  proof (cases "j = k")
    case True
    then show ?thesis using kv by (simp add: dget_or_def)
  next
    case False
    then have "k \<in> set (dkeys d)" "distinct (dkeys d)" using Cons.prems kv by auto
    then show ?thesis using Cons.IH kv False by (simp add: dget_or_def)
  qed
qed simp

lemma dkeys_dset_present: "k \<in> set (dkeys d) \<Longrightarrow> dkeys (dset k v d) = dkeys d"
  by (induction d) auto

lemma dset_present_all:
  assumes "list_all P d" "P (k, v)"
  shows "list_all P (dset k v d)"
  using assms by (induction d) (auto simp: case_prod_unfold)

lemma lane_elem:
  assumes "wf_lanes s" "i \<in> set (lane p s)"
  shows "si_priority i = p"
proof -
  obtain q where q: "dget (se_queues s) p = Some q" "i \<in> set q"
    using assms(2) by (cases "dget (se_queues s) p") (simp_all add: dget_or_def)
  then have "(p, q) \<in> set (se_queues s)" by (simp add: map_of_SomeD)
  then show ?thesis using assms(1) q(2) by (auto simp: wf_lanes_def list_all_iff)
qed

lemma set_lane_wf:
  assumes "wf_lanes s" "p \<in> set PRIORITY_ORDER" "list_all (\<lambda>i. si_priority i = p) q"
  shows "wf_lanes (set_lane p q s)"
    and "mset (queued (set_lane p q s)) + mset (lane p s) = mset (queued s) + mset q"
proof -
  have k: "dkeys (se_queues s) = PRIORITY_ORDER" using assms(1) by (simp add: wf_lanes_def)
  then show "wf_lanes (set_lane p q s)"
    using assms dkeys_dset_present [of p "se_queues s" q] dset_present_all [of _ "se_queues s" p q]
    by (simp add: wf_lanes_def set_lane_def)
  show "mset (queued (set_lane p q s)) + mset (lane p s) = mset (queued s) + mset q"
    using mset_lanes_dset [of "se_queues s" p q] assms(2) k by (simp add: queued_def set_lane_def)
qed

lemma wf_lanes_frame [frame_simps]:
  "wf_lanes (s\<lparr>se_seq := a\<rparr>) = wf_lanes s" "wf_lanes (s\<lparr>se_total_enqueued := b\<rparr>) = wf_lanes s"
  "wf_lanes (s\<lparr>se_rr_cursor := c\<rparr>) = wf_lanes s" "queued (s\<lparr>se_rr_cursor := c\<rparr>) = queued s"
  "wf_lanes (s\<lparr>se_total_dispatched := d\<rparr>) = wf_lanes s" "wf_lanes (s\<lparr>se_total_dropped := d\<rparr>) = wf_lanes s"
  "queued (s\<lparr>se_seq := a\<rparr>) = queued s" "queued (s\<lparr>se_total_enqueued := b\<rparr>) = queued s"
  "se_total_dispatched (set_lane p q s) = se_total_dispatched s" "se_waiting (set_lane p q s) = se_waiting s"
  "se_rr_cursor (set_lane p q s) = se_rr_cursor s" "se_total_dropped (set_lane p q s) = se_total_dropped s"
  "se_total_enqueued (set_lane p q s) = se_total_enqueued s"
  "queued (s\<lparr>se_total_dispatched := d\<rparr>) = queued s" "queued (s\<lparr>se_total_dropped := d\<rparr>) = queued s"
  by (simp_all add: wf_lanes_def queued_def set_lane_def)

lemma new_scheduler_wf [simp]: "wf_lanes new_scheduler" "queued new_scheduler = []"
  by (simp_all add: wf_lanes_def new_scheduler_def queued_def PRIORITY_ORDER_def)


lemma enqueue_queued:
  assumes "wf_lanes s" "ok_priority i"
  shows "wf_lanes (enqueue e i s)" and "queued_ids (enqueue e i s) = add_mset (item_id i) (queued_ids s)"
proof -
  let ?i = "i\<lparr>si_seq := se_seq s + 1, si_enqueued_at := sv_mono e\<rparr>" and ?s = "s\<lparr>se_seq := se_seq s + 1\<rparr>"
  let ?q = "lane (si_priority i) ?s @ [?i]"
  have wf: "wf_lanes ?s" using assms(1) by (simp add: frame_simps)
  have all: "list_all (\<lambda>i'. si_priority i' = si_priority i) ?q"
    using lane_elem [OF wf, of _ "si_priority i"] by (auto simp: list_all_iff)
  note l = set_lane_wf [OF wf _ all] and p = assms(2) [unfolded ok_priority_def]
  show "wf_lanes (enqueue e i s)" using l(1) [OF p] by (simp add: enqueue_def Let_def frame_simps)
  have "mset (queued (enqueue e i s)) = add_mset ?i (mset (queued s))"
    using l(2) [OF p] by (simp add: enqueue_def Let_def frame_simps)
  then show "queued_ids (enqueue e i s) = add_mset (item_id i) (queued_ids s)"
    by (simp add: queued_ids_def item_id_def)
qed

lemma rotate_past_mset [simp]: "mset (rotate_past t q) = mset q" "set (rotate_past t q) = set q"
  "rotate_past t q = [] \<longleftrightarrow> q = []"
  by (cases q; simp add: rotate_past_def)+

lemma dequeue_from_none:
  assumes "dequeue_from ps s = (None, s')"
  shows "s' = s" and "\<forall>p \<in> set ps. lane p s = []"
  using assms by (induction ps) (auto simp: Let_def split: if_splits)

lemma dequeue_from_some:
  assumes "wf_lanes s" "set ps \<subseteq> set PRIORITY_ORDER" "dequeue_from ps s = (Some x, s')"
  shows "wf_lanes s'" and "mset (queued s) = add_mset x (mset (queued s'))"
    and "si_priority x \<in> set ps" and "x \<in> set (lane (si_priority x) s)"
    and "se_total_dispatched s' = se_total_dispatched s + 1" and "se_waiting s' = se_waiting s"
proof -
  have "wf_lanes s' \<and> mset (queued s) = add_mset x (mset (queued s')) \<and> si_priority x \<in> set ps
      \<and> x \<in> set (lane (si_priority x) s) \<and> se_total_dispatched s' = se_total_dispatched s + 1
      \<and> se_waiting s' = se_waiting s"
    using assms(2,3)
  proof (induction ps)
    case (Cons p ps)
    show ?case
    proof (cases "lane p s = []")
      case True
      then show ?thesis using Cons by simp
    next
      case False
      let ?q = "rotate_past (cursor p s) (lane p s)"
      have ne: "?q \<noteq> []" using False by simp
      then have x: "x = hd ?q" "x \<in> set (lane p s)"
        using Cons.prems(2) False rotate_past_mset(2) [of "cursor p s" "lane p s"] hd_in_set [OF ne]
        by (auto simp: Let_def)
      have pr: "si_priority x = p" using lane_elem [OF assms(1) x(2)] .
      have "list_all (\<lambda>i. si_priority i = p) (tl ?q)"
        using lane_elem [OF assms(1), of _ p] list.set_sel(2) [OF ne] by (auto simp: list_all_iff)
      note l = set_lane_wf [OF assms(1) _ this]
      have p: "p \<in> set PRIORITY_ORDER" using Cons.prems(1) by simp
      have "mset (lane p s) = add_mset x (mset (tl ?q))"
        using rotate_past_mset(1) [of "cursor p s" "lane p s"] ne x(1)
        by (metis list.collapse mset.simps(2))
      then show ?thesis
        using l(1) [OF p] l(2) [OF p] Cons.prems(2) False x pr by (auto simp: Let_def frame_simps)
    qed
  qed simp
  then show "wf_lanes s'" "mset (queued s) = add_mset x (mset (queued s'))"
    "si_priority x \<in> set ps" "x \<in> set (lane (si_priority x) s)"
    "se_total_dispatched s' = se_total_dispatched s + 1" "se_waiting s' = se_waiting s"
    by simp_all
qed

lemma all_lanes_empty: "wf_lanes s \<Longrightarrow> \<forall>p \<in> set PRIORITY_ORDER. lane p s = [] \<Longrightarrow> queued s = []"
proof -
  assume wf: "wf_lanes s" and empty: "\<forall>p \<in> set PRIORITY_ORDER. lane p s = []"
  have "q = []" if "(p, q) \<in> set (se_queues s)" for p q
  proof -
    have k: "dkeys (se_queues s) = PRIORITY_ORDER" using wf by (simp add: wf_lanes_def)
    then have "dget (se_queues s) p = Some q" using that by simp
    moreover have "p \<in> set PRIORITY_ORDER" using that k by (metis image_eqI fst_conv list.set_map)
    ultimately show ?thesis using empty by (auto simp: dget_or_def)
  qed
  then show ?thesis by (auto simp: queued_def)
qed

interpretation engine_queue: work_queue wf_lanes queued_ids item_id ok_priority "enqueue e" dequeue_next
proof
  fix s and x :: ScheduledItem
  assume "wf_lanes s" "ok_priority x"
  then show "wf_lanes (enqueue e x s) \<and> queued_ids (enqueue e x s) = add_mset (item_id x) (queued_ids s)"
    by (simp add: enqueue_queued)
next
  fix s s'
  assume "wf_lanes s" "dequeue_next s = (None, s')"
  then show "s' = s \<and> queued_ids s = {#}"
    using dequeue_from_none [of PRIORITY_ORDER s s'] all_lanes_empty [of s]
    by (simp add: dequeue_next_def queued_ids_def)
next
  fix s s' and x :: ScheduledItem
  assume a: "wf_lanes s" "dequeue_next s = (Some x, s')"
  show "wf_lanes s' \<and> ok_priority x \<and> queued_ids s = add_mset (item_id x) (queued_ids s')"
    using dequeue_from_some [OF a(1) subset_refl] a(2)
    by (auto simp: dequeue_next_def queued_ids_def ok_priority_def)
qed



section \<open>Round robin\<close>

text \<open>The lanes that are looked at before a given one.\<close>

definition above :: "string \<Rightarrow> string set" where
  "above p = set (takeWhile (\<lambda>p'. p' \<noteq> p) PRIORITY_ORDER)"

lemma dequeue_from_lane:
  assumes "p \<in> set ps" "\<forall>p' \<in> set (takeWhile (\<lambda>p'. p' \<noteq> p) ps). lane p' s = []" "lane p s \<noteq> []"
    and "q = rotate_past (cursor p s) (lane p s)"
  shows "\<exists>s'. dequeue_from ps s = (Some (hd q), s') \<and> se_queues s' = dset p (tl q) (se_queues s)
    \<and> se_rr_cursor s' = dset p (Some (si_tenant_id (hd q))) (se_rr_cursor s)"
  using assms by (induction ps) (auto simp: Let_def set_lane_def split: if_splits)

lemma dequeue_lane:
  assumes "p \<in> set PRIORITY_ORDER" "\<forall>p' \<in> above p. lane p' s = []" "lane p s \<noteq> []"
    and "q = rotate_past (cursor p s) (lane p s)"
  shows "\<exists>s'. dequeue_next s = (Some (hd q), s') \<and> lane p s' = tl q \<and> cursor p s' = Some (si_tenant_id (hd q))
    \<and> (\<forall>p' \<in> above p. lane p' s' = [])"
proof -
  have np: "p \<notin> above p" using set_takeWhileD by (fastforce simp: above_def)
  obtain s' where "dequeue_from PRIORITY_ORDER s = (Some (hd q), s')"
    "se_queues s' = dset p (tl q) (se_queues s)"
    "se_rr_cursor s' = dset p (Some (si_tenant_id (hd q))) (se_rr_cursor s)"
    using dequeue_from_lane [OF assms(1) _ assms(3,4)] assms(2) by (auto simp: above_def)
  then show ?thesis using assms(2) np by (auto simp: dequeue_next_def)
qed

lemma enqueue_lane:
  "lane p (enqueue e i s) = (if p = si_priority i
     then lane p s @ [i\<lparr>si_seq := se_seq s + 1, si_enqueued_at := sv_mono e\<rparr>] else lane p s)"
  "cursor p (enqueue e i s) = cursor p s"
  by (simp_all add: enqueue_def set_lane_def)

fun takes :: "'a queue_op list \<Rightarrow> nat" where
  "takes [] = 0"
| "takes (Put x # ops) = takes ops"
| "takes (Take # ops) = Suc (takes ops)"

lemma run_queue_Take:
  "take_q s = (Some x, s1) \<Longrightarrow> fst (run_queue put take_q (Take # ops) s) = x # fst (run_queue put take_q ops s1)"
  by (simp add: case_prod_unfold)

lemma rotate_advances:
  assumes "c \<noteq> Some (si_tenant_id x)" "q = rotate_past c (as @ x # bs)" "si_tenant_id (hd q) \<noteq> si_tenant_id x"
  shows "\<exists>as' bs'. tl q = as' @ x # bs' \<and> length as' < length as"
proof (cases as)
  case Nil
  then show ?thesis using assms by (auto simp: rotate_past_def)
next
  case (Cons a rest)
  show ?thesis
  proof (cases "q = as @ x # bs")
    case True
    then have "tl q = rest @ x # bs" "length rest < length as" using Cons by simp_all
    then show ?thesis by blast
  next
    case False
    then have q: "q = rest @ x # bs @ [a]"
      using assms(2) Cons by (auto simp: rotate_past_def split: if_splits)
    then obtain b r where r: "rest = b # r" using assms(3) by (cases rest) auto
    then have "tl q = r @ x # (bs @ [a])" "length r < length as" using q Cons by simp_all
    then show ?thesis by blast
  qed
qed

lemma round_robin_served:
  assumes "p \<in> set PRIORITY_ORDER" "\<forall>p' \<in> above p. lane p' s = []"
    and "list_all (\<lambda>i. si_priority i \<notin> above p) (puts ops)"
    and "lane p s = as @ x # bs" "cursor p s \<noteq> Some (si_tenant_id x)" "length as < takes ops"
  shows "\<exists>y \<in> set (fst (run_queue (enqueue e) dequeue_next ops s)). si_tenant_id y = si_tenant_id x"
  using assms(2-)
proof (induction ops arbitrary: s as bs rule: puts.induct)
  case (2 i ops)
  have "\<forall>p' \<in> above p. lane p' (enqueue e i s) = []" using 2(2,3) by (auto simp: enqueue_lane(1))
  moreover have "\<exists>bs'. lane p (enqueue e i s) = as @ x # bs'" using 2(4) by (cases "p = si_priority i") (auto simp: enqueue_lane(1))
  ultimately show ?case using 2(1) [of "enqueue e i s" as] 2(3,5,6) by (auto simp: enqueue_lane(2))
next
  case (3 ops)
  let ?q = "rotate_past (cursor p s) (lane p s)"
  have ne: "lane p s \<noteq> []" using 3(4) by simp
  obtain s' where d: "dequeue_next s = (Some (hd ?q), s')" "lane p s' = tl ?q"
    "cursor p s' = Some (si_tenant_id (hd ?q))" "\<forall>p' \<in> above p. lane p' s' = []"
    using dequeue_lane [OF assms(1) 3(2) ne refl] by blast
  show ?case
  proof (cases "si_tenant_id (hd ?q) = si_tenant_id x")
    case True
    then show ?thesis using run_queue_Take [of dequeue_next, OF d(1)] by simp
  next
    case False
    have "?q = rotate_past (cursor p s) (as @ x # bs)" using 3(4) by simp
    from rotate_advances [OF 3(5) this False] obtain as' bs' where q: "tl ?q = as' @ x # bs'" "length as' < length as" by blast
    have "length as' < takes ops" using q(2) 3(6) by simp
    then have "\<exists>y \<in> set (fst (run_queue (enqueue e) dequeue_next ops s')). si_tenant_id y = si_tenant_id x"
      using 3(1) [OF d(4) _ _ _ ] 3(3) d(2,3) q(1) False by simp
    then show ?thesis using run_queue_Take [of dequeue_next, OF d(1)] by simp
  qed
qed simp


definition sample_sched_env :: sched_env where
  "sample_sched_env = \<lparr>sv_env = (\<lambda>_. None), sv_now = 0, sv_mono = 5, sv_drainer = True, sv_dispatch_ok = (\<lambda>_. True),
     sv_redis = True, sv_redis_ok = (\<lambda>_. True), sv_scan_ok = True, sv_db_ok = (\<lambda>_. True),
     sv_query_ok = True, sv_watchdog_minutes = 2, sv_isoformat = (\<lambda>_. []), sv_fromiso = (\<lambda>_. None), sv_bus_ok = True\<rparr>"

definition sample_item :: "string \<Rightarrow> string \<Rightarrow> ScheduledItem" where
  "sample_item tenant priority = \<lparr>si_eu_id = ''u'', si_tenant_id = tenant, si_priority = priority,
     si_callback = Local_callback 0, si_run_id = Some ''r'', si_eu_type = ''flow'', si_seq = 0, si_enqueued_at = 0,
     si_retry_count = 0, si_max_retries = 2\<rparr>"

text \<open>
  C14. No tenant starves in a lane: while the lanes above it stay empty, a tenant that was not the
  last one served there is served after at most as many takes as there are items ahead of its
  first one, however many items any tenant adds to that lane or to lower ones in the meantime.
\<close>

theorem round_robin_no_starvation:
  assumes "p \<in> set PRIORITY_ORDER" "\<forall>p' \<in> above p. lane p' s = []"
    and "list_all (\<lambda>i. si_priority i \<notin> above p) (puts ops)"
    and "lane p s = as @ x # bs" "cursor p s \<noteq> Some (si_tenant_id x)" "length as < takes ops"
    and "run_queue (enqueue e) dequeue_next ops s = (served, s')"
  shows "\<exists>y \<in> set served. si_tenant_id y = si_tenant_id x"
  using round_robin_served [OF assms(1-6), of e] assms(7) by simp

theorem round_robin_no_starvation_witness:
  "\<exists>y \<in> set (fst (run_queue (enqueue sample_sched_env) dequeue_next
      [Put (sample_item ''a'' ''normal''), Take, Put (sample_item ''a'' ''normal''), Take, Take]
      (enqueue sample_sched_env (sample_item ''b'' ''normal'')
        (enqueue sample_sched_env (sample_item ''a'' ''normal'')
          (enqueue sample_sched_env (sample_item ''a'' ''normal'') new_scheduler))))).
     si_tenant_id y = ''b''"
proof -
  let ?e = sample_sched_env
  let ?st = "\<lambda>t n. (sample_item t ''normal'')\<lparr>si_seq := n, si_enqueued_at := 5\<rparr>"
  let ?s = "enqueue ?e (sample_item ''b'' ''normal'') (enqueue ?e (sample_item ''a'' ''normal'')
    (enqueue ?e (sample_item ''a'' ''normal'') new_scheduler))"
  let ?ops = "[Put (sample_item ''a'' ''normal''), Take, Put (sample_item ''a'' ''normal''), Take, Take]"
  have "\<exists>y \<in> set (fst (run_queue (enqueue ?e) dequeue_next ?ops ?s)). si_tenant_id y = si_tenant_id (?st ''b'' 3)"
    by (rule round_robin_no_starvation [where p = "''normal''" and s = ?s and ops = ?ops
          and as = "[?st ''a'' 1, ?st ''a'' 2]" and bs = "[]", OF _ _ _ _ _ _ surjective_pairing])
      code_simp+
  then show ?thesis by (simp add: sample_item_def)
qed

end
