(* ===== verification/Scheduler_Waits.thy ===== *)
theory Scheduler_Waits
  imports Scheduler_Core
begin

text \<open>
  Waiting and waking (\<^verbatim>\<open>kernel/scheduler/waits.py\<close>, \<^verbatim>\<open>persistence.py\<close>, \<^verbatim>\<open>cross_instance.py\<close>,
  \<^verbatim>\<open>mark_rehydration_complete\<close> of \<^verbatim>\<open>core.py\<close> and \<^verbatim>\<open>cleanup_stale_waits\<close> of \<^verbatim>\<open>recovery.py\<close>): registering a
  wait in memory, in Redis and in the backup table, waking it by an event or by the clock, and
  claiming the wait of another instance.
\<close>


section \<open>Backups\<close>

definition trigger_text_or_time :: "sched_env \<Rightarrow> raw_trigger \<Rightarrow> datetime option" where
  "trigger_text_or_time e raw =
     (case raw of
        Iso_text t \<Rightarrow> map_option aware (sv_fromiso e t)
      | Datetime d \<Rightarrow> Some (aware d)
      | Other_trigger _ \<Rightarrow> None)"

definition get_instance_id :: "sched_env \<Rightarrow> string" where
  "get_instance_id e = (case sv_env e ''HOSTNAME'' of None \<Rightarrow> ''local'' | Some h \<Rightarrow> h)"

definition max_wait_seconds :: "time \<Rightarrow> time option \<Rightarrow> int option" where
  "max_wait_seconds now timeout = map_option (\<lambda>t. max 0 ((t - now) div secs)) timeout"

definition condition_of :: "wait_entry \<Rightarrow> wait_dict" where
  "condition_of en = (case we_condition en of None \<Rightarrow> empty_wait_dict | Some d \<Rightarrow> d)"

definition persist_wait_backup :: "sched_env \<Rightarrow> string \<Rightarrow> scheduler \<Rightarrow> scheduler" where
  "persist_wait_backup e run_id s =
     (case dget (se_waiting s) run_id of
        None \<Rightarrow> s
      | Some en \<Rightarrow>
          if we_eu_type en \<noteq> ''flow'' \<or> \<not> sv_db_ok e run_id then s
          else (case dget (sw_flow_runs s) run_id of
              None \<Rightarrow> s
            | Some flow_run \<Rightarrow>
                let wc = condition_of en;
                    trigger = Option.bind (wd_trigger_at wc) (trigger_text_or_time e);
                    timeout = (case trigger of Some d \<Rightarrow> Some (instant d) | None \<Rightarrow> fr_wait_deadline flow_run);
                    event = or_text (wd_event_name wc) (or_text (we_wait_for en) ''__time_wait__'')
                in s\<lparr>sw_backups := dset run_id
                      \<lparr>wf_event_type = event, wf_correlation_id = we_correlation_id en,
                       wf_waited_since = sv_now e, wf_max_wait_seconds = max_wait_seconds (sv_now e) timeout,
                       wf_timeout_at = timeout, wf_eu_id = Some (we_eu_id en),
                       wf_priority = (if we_priority en = [] then PRIORITY_NORMAL else we_priority en),
                       wf_instance_id = get_instance_id e\<rparr> (sw_backups s)\<rparr>))"

definition delete_wait_backup :: "sched_env \<Rightarrow> string \<Rightarrow> scheduler \<Rightarrow> scheduler" where
  "delete_wait_backup e run_id s =
     (if sv_db_ok e run_id then s\<lparr>sw_backups := dpop run_id (sw_backups s)\<rparr> else s)"

definition load_wait_entry_from_db :: "sched_env \<Rightarrow> string \<Rightarrow> scheduler \<Rightarrow> WaitingFlowRun option" where
  "load_wait_entry_from_db e run_id s = (if sv_db_ok e run_id then dget (sw_backups s) run_id else None)"


section \<open>Registering\<close>

text \<open>
  The \<^verbatim>\<open>wait_condition\<close> argument: absent, a \<open>WaitCondition\<close>, a dictionary, or another object without
  a \<^verbatim>\<open>to_dict\<close>.
\<close>

datatype wait_arg = No_condition | Condition WaitCondition | Condition_dict wait_dict | Other_condition

definition wait_arg_dict :: "sched_env \<Rightarrow> wait_arg \<Rightarrow> string option \<Rightarrow> string option \<Rightarrow> wait_dict option" where
  "wait_arg_dict e arg wait_for corr =
     (case arg of
        No_condition \<Rightarrow> Some \<lparr>wd_type = Some ''event'', wd_trigger_at = None, wd_event_name = wait_for,
                             wd_correlation_id = corr\<rparr>
      | Condition w \<Rightarrow> Some (wait_to_dict (sv_isoformat e) w)
      | Condition_dict d \<Rightarrow> Some d
      | Other_condition \<Rightarrow> None)"

definition register_wait ::
  "sched_env \<Rightarrow> string \<Rightarrow> string option \<Rightarrow> string \<Rightarrow> string \<Rightarrow> callback \<Rightarrow> string \<Rightarrow> string option \<Rightarrow> string option
   \<Rightarrow> string \<Rightarrow> wait_arg \<Rightarrow> scheduler \<Rightarrow> scheduler" where
  "register_wait e run_id wait_for tenant_id eu_id cb priority corr trace_id eu_type arg s =
     (let entry = \<lparr>we_wait_for = wait_for, we_tenant_id = tenant_id, we_eu_id = eu_id, we_callback = cb,
            we_priority = priority, we_correlation_id = corr, we_trace_id = trace_id, we_eu_type = eu_type,
            we_condition = wait_arg_dict e arg wait_for corr\<rparr>;
          s1 = s\<lparr>se_waiting := dset run_id entry (se_waiting s)\<rparr>;
          s2 = snd (register_spec e run_id \<lparr>rs_handler = RESUME_HANDLER_EU, rs_eu_id = eu_id,
                 rs_tenant_id = tenant_id, rs_run_id = run_id, rs_eu_type = Some eu_type\<rparr> s1)
      in persist_wait_backup e run_id s2)"

definition waiting_for :: "string \<Rightarrow> scheduler \<Rightarrow> string option" where
  "waiting_for run_id s = (case dget (se_waiting s) run_id of None \<Rightarrow> None | Some en \<Rightarrow> we_wait_for en)"


section \<open>Waking\<close>

definition event_matches :: "string \<Rightarrow> string option \<Rightarrow> bool \<Rightarrow> wait_entry \<Rightarrow> bool" where
  "event_matches event_type corr run_scoped en =
     (let wc = condition_of en in
      if wd_type wc = Some ''time'' then False
      else (if or_none (wd_event_name wc) \<noteq> None
            then (wd_type wc = Some ''event'' \<or> wd_type wc = Some ''external'') \<and> wd_event_name wc = Some event_type
            else we_wait_for en = Some event_type)
           \<and> correlation_admits (we_correlation_id en) corr run_scoped)"

definition scan_waits :: "string \<Rightarrow> string option \<Rightarrow> string option \<Rightarrow> scheduler \<Rightarrow> (string \<times> wait_entry) list" where
  "scan_waits event_type corr target_run s =
     filter (\<lambda>(run_id, en). (target_run = None \<or> Some run_id = target_run)
        \<and> event_matches event_type corr (target_run \<noteq> None) en) (se_waiting s)"

definition peek_matching_run_ids :: "string \<Rightarrow> string option \<Rightarrow> scheduler \<Rightarrow> string list" where
  "peek_matching_run_ids event_type corr s =
     map fst (filter (\<lambda>(run_id, en). event_matches event_type corr False en) (se_waiting s))"

definition claim_wait :: "sched_env \<Rightarrow> string \<Rightarrow> scheduler \<Rightarrow> scheduler" where
  "claim_wait e run_id s = unregister_wait e run_id (s\<lparr>se_waiting := dpop run_id (se_waiting s)\<rparr>)"

definition resume_entry :: "sched_env \<Rightarrow> string \<Rightarrow> wait_entry \<Rightarrow> scheduler \<Rightarrow> py_exc + scheduler" where
  "resume_entry e run_id en s =
     enqueue_resume e run_id (we_callback en) (we_eu_id en) (we_tenant_id en) (we_priority en) (we_eu_type en) s"

text \<open>The exception of an entry ends the loop, with what came before it done.\<close>

fun resume_all :: "sched_env \<Rightarrow> (string \<times> wait_entry) list \<Rightarrow> scheduler \<Rightarrow> py_exc option \<times> scheduler" where
  "resume_all e [] s = (None, s)"
| "resume_all e ((run_id, en) # rest) s =
     (case resume_entry e run_id en s of
        Inl x \<Rightarrow> (Some x, s)
      | Inr s1 \<Rightarrow> resume_all e rest (delete_wait_backup e run_id s1))"

section \<open>Other instances\<close>

text \<open>
  One iteration over the spec of a run: it is skipped, resumed here, or the iteration raises. The loop
  counts the resumed ones; an exception is swallowed by the caller and answers 0, with the changes
  so far kept.
\<close>

datatype claim = Skipped scheduler | Resumed scheduler | Raised scheduler

definition or_system :: "string \<Rightarrow> string" where
  "or_system t = (if t = [] then ''system'' else t)"

definition resume_claimed ::
  "sched_env \<Rightarrow> string \<Rightarrow> callback \<Rightarrow> string \<Rightarrow> string \<Rightarrow> WaitingFlowRun \<Rightarrow> ResumeSpec \<Rightarrow> scheduler \<Rightarrow> claim" where
  "resume_claimed e run_id cb eu_id tenant_id row spec s =
     (case enqueue_resume e run_id cb eu_id tenant_id (wf_priority row) (or_text (rs_eu_type spec) ''flow'') s of
        Inl _ \<Rightarrow> Raised s
      | Inr s1 \<Rightarrow> Resumed s1)"

definition cross_resume_one ::
  "sched_env \<Rightarrow> string \<Rightarrow> string option \<Rightarrow> string list \<Rightarrow> string option \<Rightarrow> string \<Rightarrow> ResumeSpec \<Rightarrow> scheduler \<Rightarrow> claim" where
  "cross_resume_one e event corr skip target run_id spec s =
     (if run_id \<in> set skip \<or> (target \<noteq> None \<and> Some run_id \<noteq> target) \<or> dget (se_waiting s) run_id \<noteq> None
      then Skipped s
      else (case load_wait_entry_from_db e run_id s of
          None \<Rightarrow> Skipped s
        | Some row \<Rightarrow>
            if wf_event_type row \<noteq> event \<or> \<not> correlation_admits (wf_correlation_id row) corr (target \<noteq> None)
            then Skipped s
            else (case build_callback_from_spec spec of
                Inl _ \<Rightarrow> Skipped s
              | Inr cb \<Rightarrow>
                  (case unregister_if_exists e run_id s of
                     (False, s1) \<Rightarrow> Skipped s1
                   | (True, s1) \<Rightarrow>
                       resume_claimed e run_id cb (or_text (wf_eu_id row) (rs_eu_id spec))
                         (or_system (rs_tenant_id spec)) row spec s1))))"

fun cross_loop :: "(string \<Rightarrow> ResumeSpec \<Rightarrow> scheduler \<Rightarrow> claim) \<Rightarrow> ResumeSpec dict \<Rightarrow> int \<Rightarrow> scheduler \<Rightarrow> int \<times> scheduler" where
  "cross_loop one [] n s = (n, s)"
| "cross_loop one ((run_id, spec) # specs) n s =
     (case one run_id spec s of
        Skipped s1 \<Rightarrow> cross_loop one specs n s1
      | Resumed s1 \<Rightarrow> cross_loop one specs (n + 1) s1
      | Raised s1 \<Rightarrow> (0, s1))"

definition cross_instance_resume ::
  "sched_env \<Rightarrow> string \<Rightarrow> string option \<Rightarrow> string list \<Rightarrow> string option \<Rightarrow> scheduler \<Rightarrow> int \<times> scheduler" where
  "cross_instance_resume e event corr skip target s =
     cross_loop (cross_resume_one e event corr skip target) (get_all_specs e s) 0 s"

text \<open>The tick claims a wait before it rebuilds the callback; the resume scan does it after.\<close>

definition cross_tick_one :: "sched_env \<Rightarrow> string \<Rightarrow> ResumeSpec \<Rightarrow> scheduler \<Rightarrow> claim" where
  "cross_tick_one e run_id spec s =
     (if dget (se_waiting s) run_id \<noteq> None then Skipped s
      else (case load_wait_entry_from_db e run_id s of
          None \<Rightarrow> Skipped s
        | Some row \<Rightarrow>
            (case wf_timeout_at row of
               None \<Rightarrow> Skipped s
             | Some timeout_at \<Rightarrow>
                 if sv_now e < timeout_at then Skipped s
                 else
                   (case unregister_if_exists e run_id s of
                      (False, s1) \<Rightarrow> Skipped s1
                    | (True, s1) \<Rightarrow>
                        (case build_callback_from_spec spec of
                           Inl _ \<Rightarrow> Skipped s1
                         | Inr cb \<Rightarrow>
                             (case resume_claimed e run_id cb (or_text (wf_eu_id row) run_id)
                                     (or_system (rs_tenant_id spec)) row spec s1 of
                                Resumed s2 \<Rightarrow> Resumed (delete_wait_backup e run_id s2)
                              | c \<Rightarrow> c))))))"

definition cross_instance_tick :: "sched_env \<Rightarrow> scheduler \<Rightarrow> int \<times> scheduler" where
  "cross_instance_tick e s = cross_loop (cross_tick_one e) (get_all_specs e s) 0 s"


section \<open>The operations\<close>

definition notify_event ::
  "sched_env \<Rightarrow> string \<Rightarrow> string option \<Rightarrow> string option \<Rightarrow> bool \<Rightarrow> scheduler \<Rightarrow> (py_exc + int) \<times> scheduler" where
  "notify_event e event_type corr run_id broadcast s =
     (if \<not> se_rehydrated s then
        if MAX_PRE_REHYDRATION_BUFFER (sv_env e) \<le> int (length (se_buffer s)) then (Inr 0, s)
        else (Inr 0, s\<lparr>se_buffer := se_buffer s @ [(event_type, corr, run_id)]\<rparr>)
      else
        let to_resume = scan_waits event_type corr run_id s;
            s1 = fold (claim_wait e) (map fst to_resume) s
        in (case resume_all e to_resume s1 of
              (Some x, s2) \<Rightarrow> (Inl x, s2)
            | (None, s2) \<Rightarrow>
                let (cross, s3) = cross_instance_resume e event_type corr (map fst to_resume) run_id s2;
                    s4 = (if broadcast \<and> sv_bus_ok e
                          then s3\<lparr>sw_bus := sw_bus s3 @ [(event_type, corr, run_id)]\<rparr> else s3)
                in (Inr (int (length to_resume) + cross), s4)))"

definition time_due :: "sched_env \<Rightarrow> wait_entry \<Rightarrow> bool" where
  "time_due e en =
     (let wc = condition_of en in
      wd_type wc = Some ''time'' \<and>
      (case Option.bind (wd_trigger_at wc) (trigger_text_or_time e) of
         None \<Rightarrow> False | Some d \<Rightarrow> instant d \<le> sv_now e))"

definition tick_time_waits :: "sched_env \<Rightarrow> scheduler \<Rightarrow> (py_exc + int) \<times> scheduler" where
  "tick_time_waits e s =
     (let to_fire = filter (\<lambda>(run_id, en). time_due e en) (se_waiting s);
          s1 = fold (claim_wait e) (map fst to_fire) s
      in (case resume_all e to_fire s1 of
            (Some x, s2) \<Rightarrow> (Inl x, s2)
          | (None, s2) \<Rightarrow> (case cross_instance_tick e s2 of (n, s3) \<Rightarrow> (Inr (int (length to_fire) + n), s3))))"

text \<open>A replayed event that raises is logged and the next one is replayed.\<close>

definition mark_rehydration_complete :: "sched_env \<Rightarrow> scheduler \<Rightarrow> scheduler" where
  "mark_rehydration_complete e s =
     (let buffered = se_buffer s; s1 = s\<lparr>se_rehydrated := True, se_buffer := []\<rparr>
      in fold (\<lambda>(event_type, corr, run_id) s. snd (notify_event e event_type corr run_id False s)) buffered s1)"

text \<open>
  \<^verbatim>\<open>cleanup_stale_waits\<close>: the runs and units that are really waiting are what the two queries return.
\<close>

definition cleanup_stale_waits :: "sched_env \<Rightarrow> (string \<Rightarrow> bool) \<Rightarrow> scheduler \<Rightarrow> nat \<times> scheduler" where
  "cleanup_stale_waits e unit_waiting s =
     (if \<not> sv_query_ok e then (0, s)
      else
        let flow_waiting = (\<lambda>r. case dget (sw_flow_runs s) r of None \<Rightarrow> False | Some fr \<Rightarrow> fr_status fr = ''waiting'');
            stale = filter (\<lambda>r. \<not> flow_waiting r \<and> \<not> (uuid_parse r \<noteq> None \<and> unit_waiting r)) (dkeys (se_waiting s))
        in (length stale, fold (\<lambda>r s. delete_wait_backup e r (s\<lparr>se_waiting := dpop r (se_waiting s)\<rparr>)) stale s))"



section \<open>Waking moves a wait to the queues exactly once\<close>

text \<open>The work the engine has taken on: queued, or handed straight to the dispatcher.\<close>

definition work :: "scheduler \<Rightarrow> (string \<times> string \<times> callback \<times> string option \<times> string) multiset" where
  "work s = queued_ids s + image_mset item_id (mset (sw_forwarded s))"

definition entry_id :: "string \<times> wait_entry \<Rightarrow> string \<times> string \<times> callback \<times> string option \<times> string" where
  "entry_id w = (we_eu_id (snd w), or_system (we_tenant_id (snd w)), we_callback (snd w), Some (fst w), we_eu_type (snd w))"

definition valid_priority :: "string \<Rightarrow> bool" where
  "valid_priority p \<longleftrightarrow> p = [] \<or> p \<in> set PRIORITY_ORDER"

lemma normal_priority [simp]: "PRIORITY_NORMAL \<in> set PRIORITY_ORDER" "[] \<notin> set PRIORITY_ORDER"
  by (simp_all add: PRIORITY_ORDER_def PRIORITY_HIGH_def PRIORITY_NORMAL_def PRIORITY_LOW_def)

lemma enqueue_frame [frame_simps]:
  "se_waiting (enqueue e i s) = se_waiting s" "sw_redis (enqueue e i s) = sw_redis s"
  "sw_backups (enqueue e i s) = sw_backups s" "sw_forwarded (enqueue e i s) = sw_forwarded s"
  "sw_flow_runs (enqueue e i s) = sw_flow_runs s" "se_rehydrated (enqueue e i s) = se_rehydrated s"
  by (simp_all add: enqueue_def set_lane_def)

lemma enqueue_resume_ok:
  assumes "wf_lanes s" "valid_priority priority"
  shows "\<exists>s'. enqueue_resume e run_id cb eu_id tenant_id priority eu_type s = Inr s' \<and> wf_lanes s'
    \<and> work s' = add_mset (eu_id, or_system tenant_id, cb, Some run_id, eu_type) (work s)
    \<and> se_waiting s' = se_waiting s \<and> sw_redis s' = sw_redis s \<and> sw_backups s' = sw_backups s
    \<and> sw_flow_runs s' = sw_flow_runs s \<and> se_rehydrated s' = se_rehydrated s"
proof -
  let ?p = "if priority = [] then PRIORITY_NORMAL else priority"
  have p: "?p \<in> set PRIORITY_ORDER" using assms(2) by (auto simp: valid_priority_def)
  then obtain item where item: "new_ScheduledItem (sv_env e) eu_id (or_system tenant_id) ?p cb (Some run_id) eu_type = Inr item"
    "item_id item = (eu_id, or_system tenant_id, cb, Some run_id, eu_type)" "ok_priority item"
    by (simp add: new_ScheduledItem_def item_id_def ok_priority_def)
  have "wf_lanes (s\<lparr>sw_forwarded := x\<rparr>) = wf_lanes s" "queued_ids (s\<lparr>sw_forwarded := x\<rparr>) = queued_ids s" for x
    by (simp_all add: wf_lanes_def queued_ids_def queued_def)
  then show ?thesis
    using item enqueue_queued [OF assms(1) item(3), of e] assms(1)
    by (auto simp: enqueue_resume_def or_system_def work_def frame_simps)
qed

lemma enqueue_resume_error:
  "\<not> valid_priority priority \<Longrightarrow>
   \<exists>x. enqueue_resume e run_id cb eu_id tenant_id priority eu_type s = Inl (ValueError x)"
  by (simp add: enqueue_resume_def new_ScheduledItem_def valid_priority_def)

lemma claim_wait_frame [frame_simps]:
  "se_queues (claim_wait e r s) = se_queues s" "sw_forwarded (claim_wait e r s) = sw_forwarded s"
  "sw_backups (claim_wait e r s) = sw_backups s" "se_rehydrated (claim_wait e r s) = se_rehydrated s"
  "se_waiting (claim_wait e r s) = filter (\<lambda>w. fst w \<noteq> r) (se_waiting s)"
  "sw_flow_runs (claim_wait e r s) = sw_flow_runs s"
  by (auto simp: claim_wait_def unregister_wait_def AList.delete_eq intro: filter_cong)

lemma claim_waits:
  "se_waiting (fold (claim_wait e) rs s) = filter (\<lambda>w. fst w \<notin> set rs) (se_waiting s)"
  "se_queues (fold (claim_wait e) rs s) = se_queues s" "sw_forwarded (fold (claim_wait e) rs s) = sw_forwarded s"
  "sw_backups (fold (claim_wait e) rs s) = sw_backups s"
  "sw_flow_runs (fold (claim_wait e) rs s) = sw_flow_runs s" "se_rehydrated (fold (claim_wait e) rs s) = se_rehydrated s"
  by (induction rs arbitrary: s) (auto simp: frame_simps intro: filter_cong)

lemma claim_waits_work:
  "wf_lanes (fold (claim_wait e) rs s) = wf_lanes s" "work (fold (claim_wait e) rs s) = work s"
  by (simp_all add: wf_lanes_def work_def queued_ids_def queued_def claim_waits)

lemma delete_backup_frame [frame_simps]:
  "se_queues (delete_wait_backup e r s) = se_queues s" "se_waiting (delete_wait_backup e r s) = se_waiting s"
  "sw_forwarded (delete_wait_backup e r s) = sw_forwarded s" "sw_redis (delete_wait_backup e r s) = sw_redis s"
  "sw_flow_runs (delete_wait_backup e r s) = sw_flow_runs s" "se_rehydrated (delete_wait_backup e r s) = se_rehydrated s"
  "wf_lanes (delete_wait_backup e r s) = wf_lanes s" "work (delete_wait_backup e r s) = work s"
  by (simp_all add: delete_wait_backup_def wf_lanes_def work_def queued_ids_def queued_def)

lemma resume_all_ok:
  assumes "wf_lanes s" "list_all (\<lambda>w. valid_priority (we_priority (snd w))) ws"
  shows "\<exists>s'. resume_all e ws s = (None, s') \<and> wf_lanes s' \<and> work s' = work s + mset (map entry_id ws)
    \<and> se_waiting s' = se_waiting s \<and> sw_redis s' = sw_redis s \<and> se_rehydrated s' = se_rehydrated s"
  using assms
proof (induction ws arbitrary: s)
  case (Cons w ws)
  obtain r en where w: "w = (r, en)" by (cases w)
  have p: "valid_priority (we_priority en)" and all: "list_all (\<lambda>w. valid_priority (we_priority (snd w))) ws"
    using Cons.prems(2) w by simp_all
  from enqueue_resume_ok [OF Cons.prems(1) p, of e r "we_callback en" "we_eu_id en" "we_tenant_id en" "we_eu_type en"]
  obtain s1 where s1: "resume_entry e r en s = Inr s1" "wf_lanes s1" "work s1 = add_mset (entry_id w) (work s)"
    "se_waiting s1 = se_waiting s" "sw_redis s1 = sw_redis s" "se_rehydrated s1 = se_rehydrated s"
    using w by (auto simp: resume_entry_def entry_id_def)
  have "wf_lanes (delete_wait_backup e r s1)" using s1(2) by (simp add: frame_simps)
  from Cons.IH [OF this all] show ?case using s1 w by (auto simp: frame_simps)
qed simp



section \<open>Claims across instances\<close>

text \<open>
  What one iteration may do to the engine: the local waits stay, and work is added for this run only,
  which was not waiting here; the key of a resumed run is gone from Redis and no key is added.
\<close>

fun claim_state :: "claim \<Rightarrow> scheduler" where
  "claim_state (Skipped s) = s"
| "claim_state (Resumed s) = s"
| "claim_state (Raised s) = s"

definition claim_ok :: "string \<Rightarrow> scheduler \<Rightarrow> claim \<Rightarrow> bool" where
  "claim_ok run_id s c \<longleftrightarrow>
     (let s' = claim_state c in
      wf_lanes s' \<and> se_waiting s' = se_waiting s \<and> se_rehydrated s' = se_rehydrated s
      \<and> (\<forall>k. dget (sw_redis s) k = None \<longrightarrow> dget (sw_redis s') k = None)
      \<and> (case c of
           Resumed s1 \<Rightarrow> dget (sw_redis s) run_id \<noteq> None \<and> dget (sw_redis s1) run_id = None
             \<and> dget (se_waiting s) run_id = None
             \<and> (\<exists>u t cb ty. work s1 = add_mset (u, t, cb, Some run_id, ty) (work s))
         | _ \<Rightarrow> work s' = work s))"

lemma unregister_claim:
  assumes "unregister_if_exists e r s = (claimed, s')"
  shows "wf_lanes s' = wf_lanes s" "work s' = work s" "se_waiting s' = se_waiting s"
    "se_rehydrated s' = se_rehydrated s" "\<forall>k. dget (sw_redis s) k = None \<longrightarrow> dget (sw_redis s') k = None"
    "claimed \<Longrightarrow> dget (sw_redis s) r \<noteq> None \<and> dget (sw_redis s') r = None"
proof -
  have "s' = s \<or> s' = s\<lparr>sw_redis := dpop r (sw_redis s)\<rparr>"
    using assms by (auto simp: unregister_if_exists_def split: if_splits)
  moreover have "wf_lanes (s\<lparr>sw_redis := x\<rparr>) = wf_lanes s" "work (s\<lparr>sw_redis := x\<rparr>) = work s" for x
    by (simp_all add: wf_lanes_def work_def queued_ids_def queued_def)
  ultimately show "wf_lanes s' = wf_lanes s" "work s' = work s" "se_waiting s' = se_waiting s"
    "se_rehydrated s' = se_rehydrated s" "\<forall>k. dget (sw_redis s) k = None \<longrightarrow> dget (sw_redis s') k = None"
    by auto
  assume claimed
  then show "dget (sw_redis s) r \<noteq> None \<and> dget (sw_redis s') r = None"
    using assms by (auto simp: unregister_if_exists_def split: if_splits option.splits)
qed

lemma resume_claimed_ok:
  assumes "unregister_if_exists e r s = (True, s1)" "wf_lanes s" "dget (se_waiting s) r = None"
  shows "claim_ok r s (resume_claimed e r cb u t row spec s1)"
proof -
  note c = unregister_claim [OF assms(1)]
  have wf: "wf_lanes s1" using c(1) assms(2) by simp
  show ?thesis
  proof (cases "valid_priority (wf_priority row)")
    case True
    from enqueue_resume_ok [OF wf True, of e r cb u t "or_text (rs_eu_type spec) ''flow''"] c assms(3)
    show ?thesis by (auto simp: claim_ok_def resume_claimed_def)
  next
    case False
    from enqueue_resume_error [OF this, of e r cb u t "or_text (rs_eu_type spec) ''flow''" s1]
    show ?thesis using c wf by (auto simp: claim_ok_def resume_claimed_def)
  qed
qed

lemma skipped_ok:
  assumes "wf_lanes s"
  shows "claim_ok r s (Skipped s)"
    and "unregister_if_exists e r s = (b, s1) \<Longrightarrow> claim_ok r s (Skipped s1)"
  using assms unregister_claim [of e r s b s1] by (auto simp: claim_ok_def)

lemma claim_ok_backup: "claim_ok r s (Resumed s1) \<Longrightarrow> claim_ok r s (Resumed (delete_wait_backup e r' s1))"
  by (simp add: claim_ok_def frame_simps)

lemma cross_resume_one_ok:
  assumes "wf_lanes s"
  shows "claim_ok r s (cross_resume_one e event corr skip target r spec s)"
  using skipped_ok [OF assms] resume_claimed_ok [OF _ assms]
  by (auto simp: cross_resume_one_def split: option.splits sum.splits prod.splits bool.splits)

lemma cross_tick_one_ok:
  assumes "wf_lanes s"
  shows "claim_ok r s (cross_tick_one e r spec s)"
proof -
  have "claim_ok r s (case c of Resumed s2 \<Rightarrow> Resumed (delete_wait_backup e r s2) | c \<Rightarrow> c)"
    if "claim_ok r s c" for c
    using that claim_ok_backup by (auto split: claim.splits)
  then show ?thesis
    using skipped_ok [OF assms] resume_claimed_ok [OF _ assms]
    by (auto simp: cross_tick_one_def split: option.splits sum.splits prod.splits bool.splits)
qed


abbreviation run_of :: "string \<times> string \<times> callback \<times> string option \<times> string \<Rightarrow> string option" where
  "run_of c \<equiv> fst (snd (snd (snd c)))"

lemma cross_loop_ok:
  assumes one: "\<And>r spec s. wf_lanes s \<Longrightarrow> claim_ok r s (one r spec s)"
    and Q: "\<And>r spec s s1. one r spec s = Resumed s1 \<Longrightarrow> Q r"
    and "wf_lanes s" "cross_loop one specs n s = (n', s')"
  shows "wf_lanes s' \<and> se_waiting s' = se_waiting s \<and> se_rehydrated s' = se_rehydrated s \<and> (0 \<le> n \<longrightarrow> 0 \<le> n')
    \<and> (\<exists>C. work s' = work s + C \<and> (\<forall>c \<in># C. \<exists>r. run_of c = Some r \<and> Q r \<and> dget (se_waiting s) r = None))"
  using assms(3,4)
proof (induction specs arbitrary: n s)
  case Nil
  then show ?case by (auto intro: exI [of _ "{#}"])
next
  case (Cons w specs)
  obtain r spec where w: "w = (r, spec)" by (cases w)
  note c = one [OF Cons.prems(1), of r spec]
  show ?case
  proof (cases "one r spec s")
    case (Skipped s1)
    then have s1: "wf_lanes s1" "se_waiting s1 = se_waiting s" "se_rehydrated s1 = se_rehydrated s" "work s1 = work s"
      using c by (simp_all add: claim_ok_def)
    show ?thesis using Cons.IH [OF s1(1), of n] Cons.prems(2) w Skipped s1(2-4) by simp
  next
    case (Resumed s1)
    then obtain x where s1: "wf_lanes s1" "se_waiting s1 = se_waiting s" "se_rehydrated s1 = se_rehydrated s"
      "dget (se_waiting s) r = None" "work s1 = add_mset x (work s)" "run_of x = Some r"
      using c by (auto simp: claim_ok_def)
    from Cons.IH [OF s1(1), of "n + 1"] Cons.prems(2) w Resumed s1(2,3)
    obtain C where C: "wf_lanes s'" "se_waiting s' = se_waiting s" "se_rehydrated s' = se_rehydrated s"
      "0 \<le> n \<longrightarrow> 0 \<le> n'"
      "work s' = work s1 + C" "\<forall>c \<in># C. \<exists>r. run_of c = Some r \<and> Q r \<and> dget (se_waiting s) r = None" by auto
    have "work s' = work s + add_mset x C" using C(5) s1(5) by simp
    moreover have "\<forall>c \<in># add_mset x C. \<exists>r. run_of c = Some r \<and> Q r \<and> dget (se_waiting s) r = None"
      using C(6) s1(4,6) Q [OF Resumed] by simp
    ultimately show ?thesis using C(1-4) by blast
  next
    case (Raised s1)
    then show ?thesis using c Cons.prems(2) w by (auto simp: claim_ok_def intro!: exI [of _ "{#}"])
  qed
qed

lemma resumed_not_skipped: "cross_resume_one e event corr skip target r spec s = Resumed s1 \<Longrightarrow> r \<notin> set skip"
  by (auto simp: cross_resume_one_def split: if_splits)

lemma bus_frame [frame_simps]:
  "work (s\<lparr>sw_bus := x\<rparr>) = work s" "wf_lanes (s\<lparr>sw_bus := x\<rparr>) = wf_lanes s"
  by (simp_all add: work_def queued_ids_def queued_def wf_lanes_def)

lemma wake_list:
  assumes "wf_lanes s" "list_all (\<lambda>w. valid_priority (we_priority (snd w))) ws"
  shows "\<exists>s2. resume_all e ws (fold (claim_wait e) (map fst ws) s) = (None, s2) \<and> wf_lanes s2
    \<and> work s2 = work s + mset (map entry_id ws) \<and> se_rehydrated s2 = se_rehydrated s
    \<and> se_waiting s2 = filter (\<lambda>w. fst w \<notin> fst ` set ws) (se_waiting s)"
proof -
  have "wf_lanes (fold (claim_wait e) (map fst ws) s)" using assms(1) by (simp add: claim_waits_work)
  from resume_all_ok [OF this assms(2), of e] show ?thesis
    by (elim exE conjE, intro exI conjI) (simp_all add: claim_waits claim_waits_work)
qed



lemma notify_rehydrated:
  assumes "wf_lanes s" "se_rehydrated s"
    and "list_all (\<lambda>w. valid_priority (we_priority (snd w))) (scan_waits event corr run_id s)"
    and "notify_event e event corr run_id b s = (res, s')"
  shows "\<exists>n C. res = Inr (int (length (scan_waits event corr run_id s)) + n) \<and> 0 \<le> n
    \<and> work s' = work s + mset (map entry_id (scan_waits event corr run_id s)) + C
    \<and> (\<forall>c \<in># C. \<exists>r. run_of c = Some r \<and> r \<notin> fst ` set (scan_waits event corr run_id s)
         \<and> dget (se_waiting s') r = None)
    \<and> se_waiting s' = filter (\<lambda>w. fst w \<notin> fst ` set (scan_waits event corr run_id s)) (se_waiting s)
    \<and> wf_lanes s'"
proof -
  let ?ws = "scan_waits event corr run_id s"
  obtain s2 where s2: "resume_all e ?ws (fold (claim_wait e) (map fst ?ws) s) = (None, s2)" "wf_lanes s2"
    "work s2 = work s + mset (map entry_id ?ws)"
    "se_waiting s2 = filter (\<lambda>w. fst w \<notin> fst ` set ?ws) (se_waiting s)"
    using wake_list [OF assms(1,3)] by blast
  obtain n s3 where cross: "cross_instance_resume e event corr (map fst ?ws) run_id s2 = (n, s3)"
    by (cases "cross_instance_resume e event corr (map fst ?ws) run_id s2")
  have s3: "wf_lanes s3 \<and> se_waiting s3 = se_waiting s2 \<and> se_rehydrated s3 = se_rehydrated s2 \<and> (0 \<le> (0::int) \<longrightarrow> 0 \<le> n)
    \<and> (\<exists>C. work s3 = work s2 + C \<and> (\<forall>c \<in># C. \<exists>r. run_of c = Some r \<and> r \<notin> set (map fst ?ws) \<and> dget (se_waiting s2) r = None))"
    by (rule cross_loop_ok [OF cross_resume_one_ok resumed_not_skipped s2(2) cross [unfolded cross_instance_resume_def]])
  then obtain C where C: "work s3 = work s2 + C"
    "\<forall>c \<in># C. \<exists>r. run_of c = Some r \<and> r \<notin> fst ` set ?ws \<and> dget (se_waiting s3) r = None"
    by auto
  have r: "res = Inr (int (length ?ws) + n)" "work s' = work s3" "se_waiting s' = se_waiting s3" "wf_lanes s' = wf_lanes s3"
    using assms(2,4) s2(1) cross by (auto simp: notify_event_def Let_def frame_simps split: if_splits)
  show ?thesis
    by (intro exI [of _ n] exI [of _ C] conjI) (use r C s2(3,4) s3 in simp_all)
qed



section \<open>Properties\<close>

definition sample_wait :: "string \<Rightarrow> string \<Rightarrow> wait_entry" where
  "sample_wait event priority = \<lparr>we_wait_for = Some event, we_tenant_id = ''t'', we_eu_id = ''u'',
     we_callback = Local_callback 1, we_priority = priority, we_correlation_id = None, we_trace_id = None,
     we_eu_type = ''flow'', we_condition = None\<rparr>"






fun notify_all :: "sched_env \<Rightarrow> bool \<Rightarrow> (string \<times> string option \<times> string option) list \<Rightarrow> scheduler \<Rightarrow> scheduler" where
  "notify_all e broadcast [] s = s"
| "notify_all e broadcast ((event, corr, run_id) # evs) s =
     notify_all e broadcast evs (snd (notify_event e event corr run_id broadcast s))"

lemma notify_all_fold:
  "notify_all e b evs s = fold (\<lambda>(event, corr, run_id) s. snd (notify_event e event corr run_id b s)) evs s"
  by (induction e b evs s rule: notify_all.induct) simp_all

lemma notify_all_buffers:
  assumes "\<not> se_rehydrated s" "int (length (se_buffer s) + length evs) \<le> MAX_PRE_REHYDRATION_BUFFER (sv_env e)"
  shows "notify_all e b evs s = s\<lparr>se_buffer := se_buffer s @ evs\<rparr>"
  using assms
proof (induction evs arbitrary: s)
  case (Cons ev evs)
  obtain event corr run_id where ev: "ev = (event, corr, run_id)" by (cases ev)
  let ?s = "s\<lparr>se_buffer := se_buffer s @ [ev]\<rparr>"
  have "int (length (se_buffer s)) < MAX_PRE_REHYDRATION_BUFFER (sv_env e)" using Cons.prems(2) by simp
  then have n: "snd (notify_event e event corr run_id b s) = ?s"
    using Cons.prems(1) ev unfolding notify_event_def by simp
  have "notify_all e b evs ?s = ?s\<lparr>se_buffer := se_buffer ?s @ evs\<rparr>"
    by (rule Cons.IH) (use Cons.prems in simp_all)
  then show ?case using n ev by simp
qed simp

text \<open>
  Events that arrive before the waits of a previous process are restored are not lost: as long as
  the buffer has room, each is answered with 0 and kept, and completing the rehydration gives the
  state that notifying the same events in the same order on the rehydrated engine gives.
\<close>

theorem buffered_events_replayed:
  assumes "\<not> se_rehydrated s" "se_buffer s = []"
    and "int (length evs) \<le> MAX_PRE_REHYDRATION_BUFFER (sv_env e)" "sv_env e = sv_env e'"
  shows "mark_rehydration_complete e' (notify_all e b evs s) = notify_all e' False evs (mark_rehydration_complete e' s)
    \<and> se_rehydrated (mark_rehydration_complete e' s)
    \<and> (\<forall>s'. \<not> se_rehydrated s' \<longrightarrow> fst (notify_event e event corr run_id b s') = Inr 0
         \<and> work (snd (notify_event e event corr run_id b s')) = work s')"
proof -
  have "notify_all e b evs s = s\<lparr>se_buffer := evs\<rparr>"
    using notify_all_buffers [OF assms(1), of evs e b] assms(2,3) by simp
  moreover have "work (s'\<lparr>se_buffer := x\<rparr>) = work s'" for s' x by (simp add: work_def queued_ids_def queued_def)
  ultimately show ?thesis
    using assms(2) by (simp add: mark_rehydration_complete_def notify_all_fold notify_event_def)
qed

theorem buffered_events_replayed_witness:
  "mark_rehydration_complete sample_sched_env (notify_all sample_sched_env True [(''go'', None, None)] new_scheduler)
   = notify_all sample_sched_env False [(''go'', None, None)] (mark_rehydration_complete sample_sched_env new_scheduler)"
proof -
  have "\<not> se_rehydrated new_scheduler" "se_buffer new_scheduler = []"
    "int (length [(''go'', None :: string option, None :: string option)]) \<le> MAX_PRE_REHYDRATION_BUFFER (sv_env sample_sched_env)"
    by (simp_all add: new_scheduler_def MAX_PRE_REHYDRATION_BUFFER_def int_env_def sample_sched_env_def)
  from buffered_events_replayed [OF this refl] show ?thesis by simp
qed

text \<open>
  One wait with an unusable priority takes the others down with it: the event removes every
  matching entry from the registry first, and when the first of them then fails to become an item
  the call raises \<^verbatim>\<open>ValueError\<close>; nothing was queued, and none of the matching runs waits any more.
\<close>

theorem bad_priority_loses_woken_waits:
  assumes "se_rehydrated s" "scan_waits event corr run_id s = (r, en) # rest" "\<not> valid_priority (we_priority en)"
  shows "\<exists>msg s'. notify_event e event corr run_id broadcast s = (Inl (ValueError msg), s') \<and> work s' = work s
    \<and> se_waiting s' = filter (\<lambda>w. fst w \<notin> fst ` set ((r, en) # rest)) (se_waiting s)"
proof -
  let ?s = "fold (claim_wait e) (map fst ((r, en) # rest)) s"
  obtain msg where "resume_entry e r en ?s = Inl (ValueError msg)"
    using enqueue_resume_error [OF assms(3)] unfolding resume_entry_def by blast
  then have "resume_all e ((r, en) # rest) ?s = (Some (ValueError msg), ?s)" by simp
  then have "notify_event e event corr run_id broadcast s = (Inl (ValueError msg), ?s)"
    unfolding notify_event_def Let_def assms(2) using assms(1) by simp
  moreover have "se_waiting ?s = filter (\<lambda>w. fst w \<notin> fst ` set ((r, en) # rest)) (se_waiting s)" "work ?s = work s"
    unfolding claim_waits claim_waits_work by (rule refl | simp only: set_map)+
  ultimately show ?thesis by blast
qed

theorem bad_priority_loses_woken_waits_witness:
  "\<exists>msg s'. notify_event sample_sched_env ''go'' None None True
      (new_scheduler\<lparr>se_rehydrated := True,
        se_waiting := [(''r1'', sample_wait ''go'' ''urgent''), (''r2'', sample_wait ''go'' ''high'')]\<rparr>)
    = (Inl (ValueError msg), s') \<and> se_waiting s' = []"
proof -
  let ?s = "new_scheduler\<lparr>se_rehydrated := True,
        se_waiting := [(''r1'', sample_wait ''go'' ''urgent''), (''r2'', sample_wait ''go'' ''high'')]\<rparr>"
  have "se_rehydrated ?s" "scan_waits ''go'' None None ?s = (''r1'', sample_wait ''go'' ''urgent'') # [(''r2'', sample_wait ''go'' ''high'')]"
    "\<not> valid_priority (we_priority (sample_wait ''go'' ''urgent''))" by code_simp+
  from bad_priority_loses_woken_waits [OF this, of sample_sched_env True] show ?thesis by auto
qed

end
