(* ===== verification/Flow_Rehydration.thy ===== *)
theory Flow_Rehydration
  imports Scheduler_Waits
begin

text \<open>
  Restoring waits and firing them (\<^verbatim>\<open>core/flow_run_rehydration.py\<close>, \<^verbatim>\<open>core/wait_rehydration.py\<close>,
  \<^verbatim>\<open>core/resume_watchdog.py\<close> and the recovery half of \<^verbatim>\<open>kernel/scheduler/recovery.py\<close>): after a
  restart every waiting flow run is registered again with a callback that claims the run in the
  database before it resumes it.
\<close>


section \<open>Callbacks\<close>

text \<open>\<^verbatim>\<open>bool(raw)\<close> of a value in the JSON state.\<close>

definition raw_truthy :: "raw_trigger \<Rightarrow> bool" where
  "raw_truthy raw = (case raw of
     Iso_text t \<Rightarrow> t \<noteq> []
   | Datetime _ \<Rightarrow> True
   | Other_trigger t \<Rightarrow> t \<notin> set [''0'', ''0.0'', ''False'', ''[]'', ''{}''])"

definition raw_or :: "raw_trigger option \<Rightarrow> raw_trigger option \<Rightarrow> raw_trigger option" where
  "raw_or a b = (case a of Some raw \<Rightarrow> if raw_truthy raw then a else b | None \<Rightarrow> b)"

definition made :: "py_exc + WaitCondition \<Rightarrow> WaitCondition option" where
  "made r = (case r of Inl _ \<Rightarrow> None | Inr w \<Rightarrow> Some w)"

definition derive_wait_condition_from_flow :: "sched_env \<Rightarrow> string \<Rightarrow> FlowRun \<Rightarrow> WaitCondition option" where
  "derive_wait_condition_from_flow e run_id fr =
     (let corr = (if run_id = [] then None else Some (or_text (fr_trace_id fr) run_id)) in
      if or_none (fr_waiting_for fr) \<noteq> None then made (for_event (the (fr_waiting_for fr)) corr)
      else (case raw_or (fr_trigger_at fr) (fr_wait_until fr) of
              None \<Rightarrow> None
            | Some raw \<Rightarrow>
                if \<not> raw_truthy raw then None
                else (case parse_utc_datetime (sv_fromiso e) (Some raw) of
                        None \<Rightarrow> None
                      | Some trigger \<Rightarrow> made (for_time trigger corr))))"

definition reregister_wait ::
  "sched_env \<Rightarrow> string \<Rightarrow> string \<Rightarrow> string option \<Rightarrow> string \<Rightarrow> string \<Rightarrow> scheduler \<Rightarrow> scheduler" where
  "reregister_wait e r_id flow_name user_id workflow_type eid s =
     (case (if sv_db_ok e r_id then dget (sw_flow_runs s) r_id else None) of
        None \<Rightarrow> s
      | Some run \<Rightarrow>
          if fr_status run \<noteq> ''waiting'' \<or> or_none (fr_waiting_for run) = None then s
          else
            let event = the (fr_waiting_for run); corr = or_text (fr_trace_id run) r_id
            in (case for_event event (Some corr) of
                  Inl _ \<Rightarrow> s
                | Inr w \<Rightarrow>
                    register_wait e r_id (Some event) (or_text user_id []) eid
                      (Flow_callback r_id flow_name user_id workflow_type eid) PRIORITY_NORMAL
                      (Some corr) (Some corr) ''flow'' (Condition w) s))"

text \<open>
  The closure of \<^verbatim>\<open>build_flow_resume_callback\<close>: the flow must be known to this process, then the run
  is claimed by one conditional update that is committed on its own, and only the winner hands the
  run to the flow runner. The update of the run's execution unit is in the theory of units.
\<close>

definition fire_flow_callback ::
  "sched_env \<Rightarrow> (string \<Rightarrow> bool) \<Rightarrow> string \<Rightarrow> string \<Rightarrow> string option \<Rightarrow> string \<Rightarrow> string \<Rightarrow> scheduler \<Rightarrow> scheduler" where
  "fire_flow_callback e known r_id flow_name user_id workflow_type eid s =
     (if \<not> known flow_name then reregister_wait e r_id flow_name user_id workflow_type eid s
      else if \<not> sv_db_ok e r_id then s
      else (case dget (sw_flow_runs s) r_id of
              None \<Rightarrow> s
            | Some run \<Rightarrow>
                if fr_status run = ''waiting''
                then s\<lparr>sw_flow_runs := dset r_id (run\<lparr>fr_status := ''executing''\<rparr>) (sw_flow_runs s),
                       sw_resumed := sw_resumed s @ [r_id]\<rparr>
                else s))"


section \<open>Rehydration\<close>

definition ensure_waiting_flow_run_row ::
  "sched_env \<Rightarrow> string \<Rightarrow> string \<Rightarrow> string option \<Rightarrow> time option \<Rightarrow> string option \<Rightarrow> string \<Rightarrow> scheduler \<Rightarrow> scheduler" where
  "ensure_waiting_flow_run_row e run_id event_type corr timeout_at eu_id priority s =
     (if \<not> sv_db_ok e run_id \<or> dget (sw_flow_runs s) run_id = None then s
      else
        let prio = (if priority = [] then ''normal'' else priority);
            row = (case dget (sw_backups s) run_id of
              None \<Rightarrow> \<lparr>wf_event_type = event_type, wf_correlation_id = corr, wf_waited_since = sv_now e,
                       wf_max_wait_seconds = max_wait_seconds (sv_now e) timeout_at, wf_timeout_at = timeout_at,
                       wf_eu_id = eu_id, wf_priority = prio, wf_instance_id = get_instance_id e\<rparr>
            | Some row \<Rightarrow> row\<lparr>wf_event_type := event_type, wf_correlation_id := corr, wf_timeout_at := timeout_at,
                       wf_eu_id := eu_id, wf_priority := prio,
                       wf_max_wait_seconds := max_wait_seconds (sv_now e) timeout_at\<rparr>)
        in s\<lparr>sw_backups := dset run_id row (sw_backups s)\<rparr>)"

text \<open>
  One waiting run. The seed of the backup table is written on the caller's session, so it lasts only
  when the caller commits; registering commits its own backup.
\<close>

definition rehydrate_one :: "sched_env \<Rightarrow> bool \<Rightarrow> string \<Rightarrow> FlowRun \<Rightarrow> nat \<times> scheduler \<Rightarrow> nat \<times> scheduler" where
  "rehydrate_one e commit run_id run ns =
     (case ns of (n, s) \<Rightarrow>
        let eu = dget (sw_units s) run_id;
            eu_id = (case eu of None \<Rightarrow> [] | Some u \<Rightarrow> fst u);
            priority = or_text (Option.bind eu snd) ''normal''
        in if waiting_for run_id s \<noteq> None then (n, s)
           else (case derive_wait_condition_from_flow e run_id run of
                   None \<Rightarrow> (n, s)
                 | Some wc \<Rightarrow>
                     let corr = or_text (fr_trace_id run) run_id;
                         s1 = register_wait e run_id (wc_event_name wc) (or_text (fr_user_id run) ''system'') eu_id
                           (Flow_callback run_id (fr_flow_name run) (fr_user_id run)
                              (or_text (fr_workflow_type run) ''flow'') eu_id)
                           priority (Some corr) (fr_trace_id run) ''flow'' (Condition wc) s;
                         s2 = (if commit
                               then ensure_waiting_flow_run_row e run_id (or_text (wc_event_name wc) ''__time_wait__'')
                                      (Some corr) (fr_wait_deadline run) (if eu_id = [] then None else Some eu_id) priority s1
                               else s1)
                     in (n + 1, s2)))"

definition rehydrate_waiting_flow_runs :: "sched_env \<Rightarrow> bool \<Rightarrow> string list \<Rightarrow> scheduler \<Rightarrow> nat \<times> scheduler" where
  "rehydrate_waiting_flow_runs e commit run_ids s =
     (if \<not> sv_query_ok e then (0, s)
      else
        let scoped = filter (\<lambda>r. r \<noteq> []) run_ids;
            waiting_runs = filter (\<lambda>(r, run). fr_status run = ''waiting'' \<and> (scoped = [] \<or> r \<in> set scoped)) (sw_flow_runs s)
        in fold (\<lambda>(r, run). rehydrate_one e commit r run) waiting_runs (0, s))"


section \<open>Recovery and the watchdog\<close>

definition recover_orphaned_waits :: "sched_env \<Rightarrow> scheduler \<Rightarrow> nat \<times> scheduler" where
  "recover_orphaned_waits e s =
     (if \<not> sv_query_ok e then (0, s)
      else
        let orphans = filter (\<lambda>r. r \<noteq> [] \<and> dget (se_waiting s) r = None) (dkeys (sw_backups s))
        in if orphans = [] then (0, s) else rehydrate_waiting_flow_runs e False orphans s)"

definition check_stale_waits :: "sched_env \<Rightarrow> scheduler \<Rightarrow> nat \<times> scheduler" where
  "check_stale_waits e s =
     (let interval = max 0 (sv_watchdog_minutes e * 60 * secs) in
      if 0 < interval \<and> sv_mono e - se_last_stale_check s < interval then (0, s)
      else recover_orphaned_waits e (s\<lparr>se_last_stale_check := sv_mono e\<rparr>))"

definition tick_waits :: "sched_env \<Rightarrow> scheduler \<Rightarrow> (py_exc + int) \<times> scheduler" where
  "tick_waits e s = tick_time_waits e (snd (check_stale_waits e s))"

definition WATCHDOG_MIN_WAIT_MINUTES :: int where "WATCHDOG_MIN_WAIT_MINUTES = 2"
definition EVENT_LOOKBACK_MINUTES :: int where "EVENT_LOOKBACK_MINUTES = 60"

text \<open>A system event by its type, time and trace.\<close>

record SystemEvent =
  ev_type :: string
  ev_timestamp :: time
  ev_trace_id :: "string option"

definition event_since :: "string \<Rightarrow> time \<Rightarrow> string option \<Rightarrow> SystemEvent \<Rightarrow> bool" where
  "event_since event started corr ev \<longleftrightarrow>
     ev_type ev = event \<and> started \<le> ev_timestamp ev \<and> (or_none corr = None \<or> ev_trace_id ev = corr)"

definition resume_stranded ::
  "sched_env \<Rightarrow> SystemEvent list \<Rightarrow> string \<Rightarrow> WaitingFlowRun \<Rightarrow> int \<times> scheduler \<Rightarrow> int \<times> scheduler" where
  "resume_stranded e events run_id row ns =
     (case ns of (n, s) \<Rightarrow>
        (case (if sv_db_ok e run_id then dget (sw_flow_runs s) run_id else None) of
           None \<Rightarrow> (n, s)
         | Some run \<Rightarrow>
             let event = or_text (Some (wf_event_type row)) (or_text (fr_waiting_for run) []);
                 lookback = sv_now e - EVENT_LOOKBACK_MINUTES * 60 * secs
             in if fr_status run \<noteq> ''waiting'' \<or> event = [] \<or> event = ''__time_wait__''
                   \<or> filter (\<lambda>ev. event_since event (wf_waited_since row) (wf_correlation_id row) ev
                              \<and> lookback \<le> ev_timestamp ev) events = []
                then (n, s)
                else
                  let s1 = (if waiting_for run_id s = None then snd (rehydrate_waiting_flow_runs e False [] s) else s)
                  in (case notify_event e event (wf_correlation_id row) None False s1 of
                        (Inl _, s2) \<Rightarrow> (n, s2)
                      | (Inr k, s2) \<Rightarrow> (if 0 < k then n + k else n, s2))))"

definition scan_and_resume_stranded_flows :: "sched_env \<Rightarrow> SystemEvent list \<Rightarrow> scheduler \<Rightarrow> int \<times> scheduler" where
  "scan_and_resume_stranded_flows e events s =
     (if \<not> sv_query_ok e then (0, s)
      else
        let cutoff = sv_now e - WATCHDOG_MIN_WAIT_MINUTES * 60 * secs;
            rows = filter (\<lambda>(r, row). wf_waited_since row \<le> cutoff) (sw_backups s)
        in fold (\<lambda>(r, row). resume_stranded e events r row) rows (0, s))"



section \<open>Frames\<close>

lemma register_spec_frame [frame_simps]:
  "se_waiting (snd (register_spec e r spec s)) = se_waiting s" "sw_flow_runs (snd (register_spec e r spec s)) = sw_flow_runs s"
  "sw_units (snd (register_spec e r spec s)) = sw_units s" "sw_resumed (snd (register_spec e r spec s)) = sw_resumed s"
  "se_queues (snd (register_spec e r spec s)) = se_queues s" "sw_forwarded (snd (register_spec e r spec s)) = sw_forwarded s"
  "se_buffer (snd (register_spec e r spec s)) = se_buffer s"
  by (simp_all add: register_spec_def)

lemma persist_frame [frame_simps]:
  "se_waiting (persist_wait_backup e r s) = se_waiting s" "sw_flow_runs (persist_wait_backup e r s) = sw_flow_runs s"
  "sw_units (persist_wait_backup e r s) = sw_units s" "sw_resumed (persist_wait_backup e r s) = sw_resumed s"
  "se_queues (persist_wait_backup e r s) = se_queues s" "sw_forwarded (persist_wait_backup e r s) = sw_forwarded s"
  "se_buffer (persist_wait_backup e r s) = se_buffer s"
  by (simp_all add: persist_wait_backup_def Let_def split: option.splits)

lemma ensure_row_frame [frame_simps]:
  "se_waiting (ensure_waiting_flow_run_row e r ev c t u p s) = se_waiting s"
  "sw_flow_runs (ensure_waiting_flow_run_row e r ev c t u p s) = sw_flow_runs s"
  "sw_units (ensure_waiting_flow_run_row e r ev c t u p s) = sw_units s"
  "se_queues (ensure_waiting_flow_run_row e r ev c t u p s) = se_queues s"
  "sw_forwarded (ensure_waiting_flow_run_row e r ev c t u p s) = sw_forwarded s"
  "se_buffer (ensure_waiting_flow_run_row e r ev c t u p s) = se_buffer s"
  by (simp_all add: ensure_waiting_flow_run_row_def Let_def)

lemma register_wait_frame [frame_simps]:
  "se_waiting (register_wait e r ev t u cb p c tr ty arg s) = dset r
     \<lparr>we_wait_for = ev, we_tenant_id = t, we_eu_id = u, we_callback = cb, we_priority = p, we_correlation_id = c,
      we_trace_id = tr, we_eu_type = ty, we_condition = wait_arg_dict e arg ev c\<rparr> (se_waiting s)"
  "sw_flow_runs (register_wait e r ev t u cb p c tr ty arg s) = sw_flow_runs s"
  "sw_units (register_wait e r ev t u cb p c tr ty arg s) = sw_units s"
  "sw_resumed (register_wait e r ev t u cb p c tr ty arg s) = sw_resumed s"
  "se_queues (register_wait e r ev t u cb p c tr ty arg s) = se_queues s"
  "sw_forwarded (register_wait e r ev t u cb p c tr ty arg s) = sw_forwarded s"
  "se_buffer (register_wait e r ev t u cb p c tr ty arg s) = se_buffer s"
  by (simp_all add: register_wait_def Let_def frame_simps)

lemma reregister_frame [frame_simps]:
  "sw_flow_runs (reregister_wait e r f u w eid s) = sw_flow_runs s"
  "sw_resumed (reregister_wait e r f u w eid s) = sw_resumed s"
  by (simp_all add: reregister_wait_def Let_def frame_simps split: option.splits sum.splits)


section \<open>A run is resumed once\<close>

text \<open>
  A firing of the callback of a run: by any process (its environment, the flows it knows) and with any
  arguments captured when the callback was built.
\<close>

type_synonym firing = "sched_env \<times> (string \<Rightarrow> bool) \<times> string \<times> string option \<times> string \<times> string"

definition fire :: "string \<Rightarrow> firing \<Rightarrow> scheduler \<Rightarrow> scheduler" where
  "fire r f s = (case f of (e, known, flow_name, user_id, workflow_type, eid) \<Rightarrow>
     fire_flow_callback e known r flow_name user_id workflow_type eid s)"

definition able :: "string \<Rightarrow> firing \<Rightarrow> bool" where
  "able r f = (case f of (e, known, flow_name, _) \<Rightarrow> known flow_name \<and> sv_db_ok e r)"

definition run_status :: "string \<Rightarrow> scheduler \<Rightarrow> string option" where
  "run_status r s = map_option fr_status (dget (sw_flow_runs s) r)"

lemma fire_once:
  assumes "dget (sw_flow_runs s) r \<noteq> None"
  shows "dget (sw_flow_runs (fire r f s)) r \<noteq> None"
    and "run_status r s = Some ''waiting'' \<Longrightarrow> able r f \<Longrightarrow>
      sw_resumed (fire r f s) = sw_resumed s @ [r] \<and> run_status r (fire r f s) = Some ''executing''"
    and "run_status r s \<noteq> Some ''waiting'' \<or> \<not> able r f \<Longrightarrow>
      sw_resumed (fire r f s) = sw_resumed s \<and> run_status r (fire r f s) = run_status r s"
  using assms
  by (auto simp: fire_def able_def run_status_def fire_flow_callback_def frame_simps
      split: prod.splits option.splits)

lemma fire_all_claimed:
  assumes "dget (sw_flow_runs s) r \<noteq> None" "run_status r s \<noteq> Some ''waiting''"
  shows "sw_resumed (fold (fire r) fs s) = sw_resumed s \<and> run_status r (fold (fire r) fs s) = run_status r s"
  using assms
proof (induction fs arbitrary: s)
  case (Cons f fs)
  from fire_once(1,3) [OF Cons.prems(1), of f] Cons.prems(2)
  have "dget (sw_flow_runs (fire r f s)) r \<noteq> None" "sw_resumed (fire r f s) = sw_resumed s"
    "run_status r (fire r f s) = run_status r s" by blast+
  then show ?case using Cons.IH [of "fire r f s"] Cons.prems(2) by simp
qed simp


definition sample_run :: FlowRun where
  "sample_run = \<lparr>fr_flow_name = ''f'', fr_workflow_type = None, fr_status = ''waiting'', fr_waiting_for = Some ''go'',
     fr_wait_deadline = None, fr_trace_id = None, fr_user_id = Some ''t'', fr_trigger_at = None, fr_wait_until = None\<rparr>"




section \<open>Restart\<close>

definition restored_priority :: "scheduler \<Rightarrow> string \<Rightarrow> string" where
  "restored_priority s r = or_text (Option.bind (dget (sw_units s) r) snd) ''normal''"

definition restored_entry :: "sched_env \<Rightarrow> scheduler \<Rightarrow> string \<Rightarrow> FlowRun \<Rightarrow> WaitCondition \<Rightarrow> wait_entry" where
  "restored_entry e s r run wc =
     (let eu_id = (case dget (sw_units s) r of None \<Rightarrow> [] | Some u \<Rightarrow> fst u) in
      \<lparr>we_wait_for = wc_event_name wc, we_tenant_id = or_text (fr_user_id run) ''system'', we_eu_id = eu_id,
       we_callback = Flow_callback r (fr_flow_name run) (fr_user_id run) (or_text (fr_workflow_type run) ''flow'') eu_id,
       we_priority = restored_priority s r, we_correlation_id = Some (or_text (fr_trace_id run) r),
       we_trace_id = fr_trace_id run, we_eu_type = ''flow'', we_condition = Some (wait_to_dict (sv_isoformat e) wc)\<rparr>)"

lemma rehydrate_one_effect:
  "snd (rehydrate_one e c r run (n, s)) = s' \<Longrightarrow>
     sw_flow_runs s' = sw_flow_runs s \<and> sw_units s' = sw_units s \<and> se_queues s' = se_queues s
     \<and> sw_forwarded s' = sw_forwarded s \<and> se_buffer s' = se_buffer s
     \<and> se_waiting s' = (case derive_wait_condition_from_flow e r run of
          None \<Rightarrow> se_waiting s
        | Some wc \<Rightarrow> if waiting_for r s = None then dset r (restored_entry e s r run wc) (se_waiting s) else se_waiting s)"
  by (auto simp: rehydrate_one_def Let_def frame_simps restored_entry_def restored_priority_def wait_arg_dict_def
      split: option.splits)

lemma restored_entry_cong: "sw_units s = sw_units s' \<Longrightarrow> restored_entry e s = restored_entry e s'"
  by (simp add: restored_entry_def restored_priority_def fun_eq_iff)

lemma rehydrate_fold:
  assumes "distinct (dkeys runs)" "fold (\<lambda>(r, run). rehydrate_one e c r run) runs (n, s) = (n', s')"
  shows "sw_flow_runs s' = sw_flow_runs s \<and> sw_units s' = sw_units s \<and> se_queues s' = se_queues s
     \<and> sw_forwarded s' = sw_forwarded s \<and> se_buffer s' = se_buffer s
     \<and> (\<forall>r. dget (se_waiting s') r = (case dget runs r of
          None \<Rightarrow> dget (se_waiting s) r
        | Some run \<Rightarrow> (case derive_wait_condition_from_flow e r run of
              None \<Rightarrow> dget (se_waiting s) r
            | Some wc \<Rightarrow> if waiting_for r s = None then Some (restored_entry e s r run wc) else dget (se_waiting s) r)))"
  using assms
proof (induction runs arbitrary: n s)
  case (Cons w runs)
  obtain r run where w: "w = (r, run)" by (cases w)
  obtain n1 s1 where s1: "rehydrate_one e c r run (n, s) = (n1, s1)" by (cases "rehydrate_one e c r run (n, s)")
  have d: "distinct (dkeys runs)" and nr: "dget runs r = None"
    using Cons.prems(1) w by (auto simp: map_of_eq_None_iff)
  have f: "fold (\<lambda>(r, run). rehydrate_one e c r run) runs (n1, s1) = (n', s')" using Cons.prems(2) w s1 by simp
  note one = rehydrate_one_effect [of e c r run n s s1]
  have eq: "sw_flow_runs s1 = sw_flow_runs s" "sw_units s1 = sw_units s" "se_queues s1 = se_queues s"
    "sw_forwarded s1 = sw_forwarded s" "se_buffer s1 = se_buffer s" using one s1 by simp_all
  have wt: "dget (se_waiting s1) r' = (if r' = r then (case derive_wait_condition_from_flow e r run of
          None \<Rightarrow> dget (se_waiting s) r
        | Some wc \<Rightarrow> if waiting_for r s = None then Some (restored_entry e s r run wc) else dget (se_waiting s) r)
      else dget (se_waiting s) r')" for r'
    using one s1 by (auto split: option.splits if_splits)
  have wf: "waiting_for r' s1 = waiting_for r' s" if "r' \<noteq> r" for r'
    using wt [of r'] that by (simp add: waiting_for_def)
  note IH = Cons.IH [OF d f]
  have re: "restored_entry e s1 = restored_entry e s" by (rule restored_entry_cong [OF eq(2)])
  have "dget (se_waiting s') r' = (case dget (w # runs) r' of
          None \<Rightarrow> dget (se_waiting s) r'
        | Some run \<Rightarrow> (case derive_wait_condition_from_flow e r' run of
              None \<Rightarrow> dget (se_waiting s) r'
            | Some wc \<Rightarrow> if waiting_for r' s = None then Some (restored_entry e s r' run wc) else dget (se_waiting s) r'))" for r'
  proof (cases "r' = r")
    case True
    have "dget (se_waiting s') r = dget (se_waiting s1) r" using IH nr by simp
    then show ?thesis unfolding True using w wt [of r] by simp
  next
    case False
    then show ?thesis using IH w wt [of r'] wf [OF False] re by (simp cong: option.case_cong if_cong)
  qed
  then show ?case using IH eq by simp
qed simp


lemma rehydrate_all:
  assumes "distinct (dkeys (sw_flow_runs s))" "sv_query_ok e" "rehydrate_waiting_flow_runs e c [] s = (n, s')"
  shows "sw_units s' = sw_units s" "se_queues s' = se_queues s" "sw_forwarded s' = sw_forwarded s" "se_buffer s' = se_buffer s"
    and "dget (se_waiting s') r = (case dget (sw_flow_runs s) r of
          None \<Rightarrow> dget (se_waiting s) r
        | Some run \<Rightarrow>
            if fr_status run \<noteq> ''waiting'' \<or> waiting_for r s \<noteq> None then dget (se_waiting s) r
            else (case derive_wait_condition_from_flow e r run of
                    None \<Rightarrow> dget (se_waiting s) r
                  | Some wc \<Rightarrow> Some (restored_entry e s r run wc)))"
proof -
  let ?runs = "filter (\<lambda>(r, run). fr_status run = ''waiting'') (sw_flow_runs s)"
  have d: "distinct (dkeys ?runs)" using assms(1) by (rule distinct_dict_filter)
  have f: "fold (\<lambda>(r, run). rehydrate_one e c r run) ?runs (0, s) = (n, s')"
    using assms(2,3) by (simp add: rehydrate_waiting_flow_runs_def)
  note R = rehydrate_fold [OF d f]
  show "sw_units s' = sw_units s" "se_queues s' = se_queues s" "sw_forwarded s' = sw_forwarded s" "se_buffer s' = se_buffer s"
    using R by simp_all
  have "dget ?runs r = (case dget (sw_flow_runs s) r of None \<Rightarrow> None
      | Some run \<Rightarrow> if fr_status run = ''waiting'' then Some run else None)"
    using dget_filter [OF assms(1), of "\<lambda>(r, run). fr_status run = ''waiting''" r] by (simp split: option.splits)
  then show "dget (se_waiting s') r = (case dget (sw_flow_runs s) r of
          None \<Rightarrow> dget (se_waiting s) r
        | Some run \<Rightarrow>
            if fr_status run \<noteq> ''waiting'' \<or> waiting_for r s \<noteq> None then dget (se_waiting s) r
            else (case derive_wait_condition_from_flow e r run of
                    None \<Rightarrow> dget (se_waiting s) r
                  | Some wc \<Rightarrow> Some (restored_entry e s r run wc)))"
    using R by (auto split: option.splits)
qed

lemma event_condition:
  assumes "fr_waiting_for run = Some event" "event \<noteq> []" "r \<noteq> []"
  shows "derive_wait_condition_from_flow e r run = Some \<lparr>wc_type = ''event'', wc_trigger_at = None,
    wc_event_name = Some event, wc_correlation_id = Some (or_text (fr_trace_id run) r)\<rparr>"
  using assms
  by (simp add: derive_wait_condition_from_flow_def or_none_def made_def for_event_def new_WaitCondition_def
      VALID_TYPES_def WAIT_TYPE_EVENT_def)

lemma restored_matches:
  assumes "fr_waiting_for run = Some event" "event \<noteq> []" "r \<noteq> []"
    and "derive_wait_condition_from_flow e r run = Some wc"
  shows "event_matches event (Some (or_text (fr_trace_id run) r)) b (restored_entry e s r run wc)"
  using assms event_condition [OF assms(1-3), of e]
  by (auto simp: event_matches_def restored_entry_def condition_of_def wait_to_dict_def or_none_def
      correlation_admits_def Let_def)

lemma restored_valid:
  assumes "\<forall>u p. dget (sw_units s) r = Some (u, Some p) \<longrightarrow> valid_priority p"
  shows "valid_priority (we_priority (restored_entry e s r run wc))"
  using assms
  by (auto simp: restored_entry_def restored_priority_def or_text_def valid_priority_def PRIORITY_ORDER_def
      PRIORITY_NORMAL_def Let_def split: option.splits bind_splits)


lemma rehydrate_distinct:
  assumes "rehydrate_waiting_flow_runs e c [] s = (n, s')" "distinct (dkeys (se_waiting s))"
  shows "distinct (dkeys (se_waiting s'))"
proof -
  have "distinct (dkeys (se_waiting (snd (fold (\<lambda>(r, run). rehydrate_one e c r run) runs (n, s)))))"
    if "distinct (dkeys (se_waiting s))" for runs n s
    using that
  proof (induction runs arbitrary: n s)
    case (Cons w runs)
    obtain r run n1 s1 where w: "w = (r, run)" "rehydrate_one e c r run (n, s) = (n1, s1)"
      by (cases w; cases "rehydrate_one e c (fst w) (snd w) (n, s)") auto
    have "distinct (dkeys (se_waiting s1))"
      using rehydrate_one_effect [of e c r run n s s1] w(2) Cons.prems by (auto split: option.splits)
    then show ?case using Cons.IH [of s1 n1] w by simp
  qed simp
  from this [OF assms(2)] show ?thesis
    using assms by (auto simp: rehydrate_waiting_flow_runs_def split: if_splits) (metis snd_conv)
qed

definition units_valid :: "scheduler \<Rightarrow> bool" where
  "units_valid s \<longleftrightarrow> list_all (\<lambda>(r, u, p). case p of None \<Rightarrow> True | Some q \<Rightarrow> valid_priority q) (sw_units s)"




text \<open>
  Rehydration is idempotent for event waits only: the guard asks which event the run is registered
  for, and a time wait has none, so a second call registers every time wait again and counts it.
\<close>

theorem time_wait_rehydrated_again:
  assumes "sv_query_ok e" "sw_flow_runs s = [(r, run)]" "fr_status run = ''waiting''"
    and "derive_wait_condition_from_flow e r run = Some wc" "waiting_for r s = None"
    and "rehydrate_waiting_flow_runs e commit [] s = (n1, s1)" "rehydrate_waiting_flow_runs e commit [] s1 = (n2, s2)"
  shows "n1 = 1 \<and> dget (se_waiting s1) r = Some (restored_entry e s r run wc)
    \<and> n2 = (if wc_event_name wc = None then 1 else 0)"
proof -
  have run: "rehydrate_waiting_flow_runs e commit [] t = rehydrate_one e commit r run (0, t)"
    if "sw_flow_runs t = [(r, run)]" for t
    using assms(1,3) that by (simp add: rehydrate_waiting_flow_runs_def)
  have count: "fst (rehydrate_one e commit r run (n, t)) = (if waiting_for r t = None then n + 1 else n)" for n t
    using assms(4) by (simp add: rehydrate_one_def Let_def)
  have d: "distinct (dkeys (sw_flow_runs s))" using assms(2) by simp
  note R = rehydrate_fold [of "[(r, run)]" e commit 0 s n1 s1]
  have s1: "sw_flow_runs s1 = [(r, run)]" "dget (se_waiting s1) r = Some (restored_entry e s r run wc)"
    using R assms(2,4,5,6) run [OF assms(2)] by simp_all
  have "n1 = 1" using count [of 0 s] assms(5,6) run [OF assms(2)] by simp
  moreover have "waiting_for r s1 = wc_event_name wc" using s1(2) by (simp add: waiting_for_def restored_entry_def Let_def)
  then have "n2 = (if wc_event_name wc = None then 1 else 0)"
    using count [of 0 s1] assms(7) run [OF s1(1)] by simp
  ultimately show ?thesis using s1(2) by simp
qed

theorem time_wait_rehydrated_again_witness:
  "fst (rehydrate_waiting_flow_runs sample_sched_env False []
     (snd (rehydrate_waiting_flow_runs sample_sched_env False []
       (new_scheduler\<lparr>sw_flow_runs := [(''r'', sample_run\<lparr>fr_waiting_for := None, fr_trigger_at := Some (Datetime (9, None))\<rparr>)]\<rparr>)))) = 1"
proof -
  let ?run = "sample_run\<lparr>fr_waiting_for := None, fr_trigger_at := Some (Datetime (9, None))\<rparr>"
  let ?s = "new_scheduler\<lparr>sw_flow_runs := [(''r'', ?run)]\<rparr>"
  let ?wc = "\<lparr>wc_type = ''time'', wc_trigger_at = Some (9, Some 0), wc_event_name = None, wc_correlation_id = Some ''r''\<rparr>"
  have s: "sv_query_ok sample_sched_env" "sw_flow_runs ?s = [(''r'', ?run)]" "fr_status ?run = ''waiting''"
    "derive_wait_condition_from_flow sample_sched_env ''r'' ?run = Some ?wc" "waiting_for ''r'' ?s = None" by code_simp+
  from time_wait_rehydrated_again [OF s surjective_pairing surjective_pairing] show ?thesis by simp
qed

text \<open>
  The watchdog wakes more than the stranded run: it notifies the event without naming the run, so
  a run that began to wait for the same event only after it had been emitted is woken as well.
\<close>

theorem watchdog_wakes_later_waiters:
  assumes "wf_lanes s" "se_rehydrated s" "sv_query_ok e" "sv_db_ok e a"
    and "sw_backups s = [(a, rowA), (b, rowB)]"
    and "wf_waited_since rowA \<le> sv_now e - 2 * 60 * secs" "sv_now e - 2 * 60 * secs < wf_waited_since rowB"
    and "dget (sw_flow_runs s) a = Some runA" "fr_status runA = ''waiting''"
    and "wf_event_type rowA = event" "event \<noteq> []" "event \<noteq> ''__time_wait__''" "wf_correlation_id rowA = None"
    and "ev \<in> set events" "ev_type ev = event" "wf_waited_since rowA \<le> ev_timestamp ev"
      "sv_now e - 60 * 60 * secs \<le> ev_timestamp ev" "ev_timestamp ev < wf_waited_since rowB"
    and "waiting_for a s \<noteq> None" "(b, enB) \<in> set (se_waiting s)" "event_matches event None False enB"
    and "list_all (\<lambda>w. valid_priority (we_priority (snd w))) (scan_waits event None None s)"
  shows "dget (se_waiting (snd (scan_and_resume_stranded_flows e events s))) b = None
    \<and> entry_id (b, enB) \<in># work (snd (scan_and_resume_stranded_flows e events s))"
proof -
  obtain res s2 where n: "notify_event e event None None False s = (res, s2)" by (cases "notify_event e event None None False s")
  have scan: "(b, enB) \<in> set (scan_waits event None None s)" using assms(20,21) by (auto simp: scan_waits_def)
  from notify_rehydrated [OF assms(1,2,22) n]
  have w: "se_waiting s2 = filter (\<lambda>w. fst w \<notin> fst ` set (scan_waits event None None s)) (se_waiting s)"
    "\<exists>C. work s2 = work s + mset (map entry_id (scan_waits event None None s)) + C" by blast+
  have "ev \<in> set (filter (\<lambda>ev. event_since event (wf_waited_since rowA) None ev \<and> sv_now e - 60 * 60 * secs \<le> ev_timestamp ev) events)"
    using assms(14-17) by (simp add: event_since_def or_none_def)
  then have "filter (\<lambda>ev. event_since event (wf_waited_since rowA) None ev \<and> sv_now e - 60 * 60 * secs \<le> ev_timestamp ev) events \<noteq> []"
    by (metis list.distinct(1) list.set_cases)
  then have "snd (resume_stranded e events a rowA (0, s)) = s2"
    using assms(4,8-13,19) n
    by (auto simp: resume_stranded_def or_text_def EVENT_LOOKBACK_MINUTES_def Let_def split: sum.splits)
  then have "snd (scan_and_resume_stranded_flows e events s) = s2"
    using assms(3,5-7) by (simp add: scan_and_resume_stranded_flows_def WATCHDOG_MIN_WAIT_MINUTES_def)
  moreover have "dget (se_waiting s2) b = None" using scan unfolding w(1) by (force simp: map_of_eq_None_iff)
  moreover have "entry_id (b, enB) \<in># work s2" using scan w(2) by auto
  ultimately show ?thesis by simp
qed


definition sample_row :: "time \<Rightarrow> WaitingFlowRun" where
  "sample_row since = \<lparr>wf_event_type = ''go'', wf_correlation_id = None, wf_waited_since = since, wf_max_wait_seconds = None,
     wf_timeout_at = None, wf_eu_id = None, wf_priority = ''normal'', wf_instance_id = ''local''\<rparr>"

definition sample_watched :: scheduler where
  "sample_watched = new_scheduler\<lparr>se_rehydrated := True, sw_flow_runs := [(''a'', sample_run), (''b'', sample_run)],
     se_waiting := [(''a'', sample_wait ''go'' ''normal''), (''b'', sample_wait ''go'' ''normal'')],
     sw_backups := [(''a'', sample_row 0), (''b'', sample_row (150 * secs))]\<rparr>"

theorem watchdog_wakes_later_waiters_witness:
  "dget (se_waiting (snd (scan_and_resume_stranded_flows (sample_sched_env\<lparr>sv_now := 200 * secs\<rparr>)
     [\<lparr>ev_type = ''go'', ev_timestamp = 50 * secs, ev_trace_id = None\<rparr>] sample_watched))) ''b'' = None"
proof -
  let ?e = "sample_sched_env\<lparr>sv_now := 200 * secs\<rparr>" and ?ev = "\<lparr>ev_type = ''go'', ev_timestamp = 50 * secs, ev_trace_id = None\<rparr>"
  have "wf_lanes sample_watched" using new_scheduler_wf(1) by (simp add: sample_watched_def wf_lanes_def)
  moreover have "se_rehydrated sample_watched" "sv_query_ok ?e" "sv_db_ok ?e ''a''"
    "sw_backups sample_watched = [(''a'', sample_row 0), (''b'', sample_row (150 * secs))]"
    "wf_waited_since (sample_row 0) \<le> sv_now ?e - 2 * 60 * secs"
    "sv_now ?e - 2 * 60 * secs < wf_waited_since (sample_row (150 * secs))"
    "dget (sw_flow_runs sample_watched) ''a'' = Some sample_run" "fr_status sample_run = ''waiting''"
    "wf_event_type (sample_row 0) = ''go''" "''go'' \<noteq> []" "''go'' \<noteq> ''__time_wait__''" "wf_correlation_id (sample_row 0) = None"
    "?ev \<in> set [?ev]" "ev_type ?ev = ''go''" "wf_waited_since (sample_row 0) \<le> ev_timestamp ?ev"
    "sv_now ?e - 60 * 60 * secs \<le> ev_timestamp ?ev" "ev_timestamp ?ev < wf_waited_since (sample_row (150 * secs))"
    "waiting_for ''a'' sample_watched \<noteq> None" "(''b'', sample_wait ''go'' ''normal'') \<in> set (se_waiting sample_watched)"
    "event_matches ''go'' None False (sample_wait ''go'' ''normal'')"
    "list_all (\<lambda>w. valid_priority (we_priority (snd w))) (scan_waits ''go'' None None sample_watched)"
    by code_simp+
  ultimately show ?thesis by (rule conjunct1 [OF watchdog_wakes_later_waiters])
qed


section \<open>Several instances\<close>

text \<open>
  Instances that share Redis and the backup table. One step is one iteration of the scan of some
  instance, with any arguments; the specs it iterates over may have been read long before.
\<close>

record fleet =
  fl_engine :: "nat \<Rightarrow> scheduler"
  fl_redis :: "(ResumeSpec \<times> time) dict"
  fl_backups :: "WaitingFlowRun dict"
  fl_claims :: "string list"

definition local_view :: "nat \<Rightarrow> fleet \<Rightarrow> scheduler" where
  "local_view i f = (fl_engine f i)\<lparr>sw_redis := fl_redis f, sw_backups := fl_backups f\<rparr>"

definition publish_claim :: "nat \<Rightarrow> string \<Rightarrow> claim \<Rightarrow> fleet \<Rightarrow> fleet" where
  "publish_claim i r c f =
     (let s = claim_state c in
      f\<lparr>fl_engine := (fl_engine f)(i := s), fl_redis := sw_redis s, fl_backups := sw_backups s,
        fl_claims := (case c of Resumed _ \<Rightarrow> r # fl_claims f | _ \<Rightarrow> fl_claims f)\<rparr>)"

inductive fleet_step :: "fleet \<Rightarrow> fleet \<Rightarrow> bool" where
  scan_event: "fleet_step f (publish_claim i r (cross_resume_one e event corr skip target r spec (local_view i f)) f)"
| scan_time: "fleet_step f (publish_claim i r (cross_tick_one e r spec (local_view i f)) f)"

inductive_cases fleet_stepE: "fleet_step f f'"

definition fleet_start :: "fleet \<Rightarrow> bool" where
  "fleet_start f \<longleftrightarrow> fl_claims f = [] \<and> (\<forall>i. wf_lanes (fl_engine f i))"

definition fleet_ok :: "fleet \<Rightarrow> bool" where
  "fleet_ok f \<longleftrightarrow> (\<forall>i. wf_lanes (fl_engine f i)) \<and> distinct (fl_claims f)
     \<and> (\<forall>r \<in> set (fl_claims f). dget (fl_redis f) r = None)"

lemma local_view_wf: "wf_lanes (local_view i f) = wf_lanes (fl_engine f i)"
  by (simp add: local_view_def wf_lanes_def)

lemma publish_claim_ok:
  assumes "fleet_ok f" "claim_ok r (local_view i f) c"
  shows "fleet_ok (publish_claim i r c f)"
proof -
  have redis: "sw_redis (local_view i f) = fl_redis f" by (simp add: local_view_def)
  have old: "dget (sw_redis (claim_state c)) r' = None" if "r' \<in> set (fl_claims f)" for r'
    using assms that redis by (auto simp: fleet_ok_def claim_ok_def Let_def)
  have "r \<notin> set (fl_claims f) \<and> dget (sw_redis s1) r = None" if "c = Resumed s1" for s1
    using assms that redis by (auto simp: fleet_ok_def claim_ok_def)
  then show ?thesis
    using assms old by (cases c) (auto simp: fleet_ok_def publish_claim_def claim_ok_def Let_def)
qed



definition sample_spec :: ResumeSpec where
  "sample_spec = \<lparr>rs_handler = RESUME_HANDLER_EU, rs_eu_id = ''u'', rs_tenant_id = ''t'', rs_run_id = ''a'', rs_eu_type = Some ''flow''\<rparr>"

definition sample_fleet :: fleet where
  "sample_fleet = \<lparr>fl_engine = (\<lambda>_. new_scheduler), fl_redis = [(''a'', sample_spec, 60)],
     fl_backups = [(''a'', sample_row 0)], fl_claims = []\<rparr>"


end
