(* ===== verification/Scheduler_Dispatch.thy ===== *)
theory Scheduler_Dispatch
  imports Flow_Rehydration Resource_Manager
begin

text \<open>
  One scheduling cycle (\<^verbatim>\<open>kernel/scheduler/dispatch.py\<close>): items are taken from the lanes, asked for
  admission at the resource manager, put back at the head of their lane when their tenant is
  saturated, dispatched, retried at low priority or dropped.
\<close>

section \<open>Dispatching one item\<close>

text \<open>
  What \<^verbatim>\<open>dispatch(stub, callback, context)\<close> is handed: the stub of the unit with its async hint, and the
  context with the descriptor a worker process rebuilds the resume from.
\<close>

record dispatch_request =
  dr_id :: string
  dr_type :: string
  dr_priority :: string
  dr_async_hint :: bool
  dr_callback :: callback
  dr_run_id :: "string option"
  dr_source :: string
  dr_resume :: "(string \<times> string) option"

definition resume_context :: "string \<Rightarrow> string \<Rightarrow> string \<times> string" where
  "resume_context run_id eu_type = (run_id, py_lower eu_type)"

definition dispatch_item_now :: "bool \<Rightarrow> ScheduledItem \<Rightarrow> dispatch_request" where
  "dispatch_item_now async_enabled item =
     \<lparr>dr_id = si_eu_id item, dr_type = si_eu_type item, dr_priority = si_priority item,
      dr_async_hint = async_enabled, dr_callback = si_callback item, dr_run_id = si_run_id item,
      dr_source = ''scheduler.resume'',
      dr_resume = (case or_none (si_run_id item) of None \<Rightarrow> None
                   | Some r \<Rightarrow> Some (resume_context r (si_eu_type item)))\<rparr>"


section \<open>The cycle\<close>

text \<open>
  The dispatcher is an argument: it answers whether it returned (\<open>False\<close> when it raised) and may change
  the engine and the resource manager, because an inline execution runs inside the call. The
  surroundings of the admission are given per processed item.
\<close>

type_synonym dispatcher =
  "dispatch_request \<Rightarrow> scheduler \<times> ResourceManager \<Rightarrow> bool \<times> scheduler \<times> ResourceManager"

record cycle =
  cy_dispatched :: "ScheduledItem list"
  cy_retry :: "ScheduledItem list"
  cy_dropped :: "ScheduledItem list"

definition empty_cycle :: cycle where
  "empty_cycle = \<lparr>cy_dispatched = [], cy_retry = [], cy_dropped = []\<rparr>"

definition requeue :: "ScheduledItem \<Rightarrow> scheduler \<Rightarrow> scheduler" where
  "requeue item s =
     (let s1 = set_lane (si_priority item) (item # lane (si_priority item) s) s
      in s1\<lparr>se_total_dispatched := se_total_dispatched s1 - 1\<rparr>)"

definition dispatch_failed :: "ScheduledItem \<Rightarrow> cycle \<Rightarrow> scheduler \<Rightarrow> cycle \<times> scheduler" where
  "dispatch_failed item cy s =
     (if si_retry_count item < si_max_retries item
      then (cy\<lparr>cy_retry := cy_retry cy @
              [item\<lparr>si_retry_count := si_retry_count item + 1, si_priority := PRIORITY_LOW\<rparr>]\<rparr>, s)
      else (cy\<lparr>cy_dropped := cy_dropped cy @ [item]\<rparr>, s\<lparr>se_total_dropped := se_total_dropped s + 1\<rparr>))"

lemma queue_size_set_lane: "queue_size (set_lane p q s) + length (lane p s) = queue_size s + length q"
proof -
  have "sum_list (map (\<lambda>(p, q). length q) (dset p q d)) + length (dget_or d p []) =
      sum_list (map (\<lambda>(p, q). length q) d) + length q" for d :: "ScheduledItem list dict"
    by (induction d) (auto simp: dget_or_def)
  then show ?thesis by (simp add: queue_size_def set_lane_def)
qed

lemma length_rotate_past: "length (rotate_past t q) = length q"
  by (simp add: rotate_past_def)

lemma queue_size_dequeue: "dequeue_from ps s = (Some x, s') \<Longrightarrow> queue_size s = Suc (queue_size s')"
proof (induction ps)
  case (Cons p ps)
  show ?case
  proof (cases "lane p s = []")
    case True
    then have "dequeue_from ps s = (Some x, s')" using Cons.prems by simp
    then show ?thesis by (rule Cons.IH)
  next
    case False
    let ?q = "rotate_past (cursor p s) (lane p s)"
    have l: "length (lane p s) = Suc (length (tl ?q))"
      using False by (simp add: length_rotate_past)
    have "se_queues s' = se_queues (set_lane p (tl ?q) s)"
      using Cons.prems False by (auto simp: Let_def)
    then have "queue_size s' = queue_size (set_lane p (tl ?q) s)" by (simp add: queue_size_def)
    then show ?thesis using l queue_size_set_lane [of p "tl ?q" s] by simp
  qed
qed simp

lemma queue_size_requeue: "queue_size (requeue x s) = Suc (queue_size s)"
proof -
  have "queue_size (requeue x s) = queue_size (set_lane (si_priority x) (x # lane (si_priority x) s) s)"
    by (simp add: requeue_def Let_def queue_size_def)
  then show ?thesis using queue_size_set_lane [of "si_priority x" "x # lane (si_priority x) s" s] by simp
qed

text \<open>One turn of the loop: it ends, or goes on with new counters.\<close>

datatype turn =
    Stop cycle scheduler ResourceManager
  | Turn nat nat "string list" cycle scheduler ResourceManager

definition dispatch_turn ::
  "bool \<Rightarrow> dispatcher \<Rightarrow> nat \<Rightarrow> string list \<Rightarrow> cycle \<Rightarrow> ScheduledItem \<Rightarrow> scheduler \<Rightarrow> ResourceManager \<Rightarrow> turn" where
  "dispatch_turn async exec processed saturated cy item s m =
     (case exec (dispatch_item_now async item) (s, m) of
        (True, s2, m2) \<Rightarrow>
          Turn (processed + 1) 0 saturated (cy\<lparr>cy_dispatched := cy_dispatched cy @ [item]\<rparr>) s2 m2
      | (False, s2, m2) \<Rightarrow>
          (case dispatch_failed item cy s2 of (cy1, s3) \<Rightarrow> Turn (processed + 1) 0 saturated cy1 s3 m2))"

definition sched_turn ::
  "(nat \<Rightarrow> rm_env) \<Rightarrow> bool \<Rightarrow> dispatcher \<Rightarrow> nat \<Rightarrow> nat \<Rightarrow> string list \<Rightarrow> cycle \<Rightarrow> scheduler \<Rightarrow> ResourceManager \<Rightarrow> turn" where
  "sched_turn envs async exec processed skips saturated cy s m =
     (if MAX_PER_SCHEDULE_CYCLE \<le> processed then Stop cy s m
      else (case dequeue_next s of
          (None, s1) \<Rightarrow> Stop cy s1 m
        | (Some item, s1) \<Rightarrow>
            if si_tenant_id item \<in> set saturated
            then (if queue_size (requeue item s1) \<le> skips + 1 then Stop cy (requeue item s1) m
                  else Turn processed (skips + 1) saturated cy (requeue item s1) m)
            else (case can_execute (envs processed) (si_tenant_id item) m of
                ((ok, reason), m1) \<Rightarrow>
                  if ok then dispatch_turn async exec processed saturated cy item s1 m1
                  else Turn (processed + 1) 0 (si_tenant_id item # saturated) cy (requeue item s1) m1)))"

lemma dispatch_turn_cases:
  obtains s2 m2 where "exec (dispatch_item_now async x) (s, m) = (True, s2, m2)"
      "dispatch_turn async exec p sat cy x s m = Turn (p + 1) 0 sat (cy\<lparr>cy_dispatched := cy_dispatched cy @ [x]\<rparr>) s2 m2"
  | s2 m2 cy1 s3 where "exec (dispatch_item_now async x) (s, m) = (False, s2, m2)" "dispatch_failed x cy s2 = (cy1, s3)"
      "dispatch_turn async exec p sat cy x s m = Turn (p + 1) 0 sat cy1 s3 m2"
proof -
  obtain b s2 m2 where ex: "exec (dispatch_item_now async x) (s, m) = (b, s2, m2)" by (metis surj_pair)
  obtain cy1 s3 where df: "dispatch_failed x cy s2 = (cy1, s3)" by (cases "dispatch_failed x cy s2")
  show ?thesis
  proof (cases b)
    case True
    then show ?thesis using ex by (intro that(1) [of s2 m2]) (simp_all add: dispatch_turn_def)
  next
    case False
    then show ?thesis using ex df by (intro that(2) [of s2 m2 cy1 s3]) (simp_all add: dispatch_turn_def)
  qed
qed

lemma sched_turn_cases:
  obtains (stop) "sched_turn envs async exec p k sat cy s m = Stop cy s m"
      "MAX_PER_SCHEDULE_CYCLE \<le> p \<or> dequeue_next s = (None, s)"
  | (ended) x s1 where "dequeue_next s = (Some x, s1)" "si_tenant_id x \<in> set sat" "queue_size (requeue x s1) \<le> k + 1"
      "sched_turn envs async exec p k sat cy s m = Stop cy (requeue x s1) m"
  | (skipped) x s1 where "p < MAX_PER_SCHEDULE_CYCLE" "dequeue_next s = (Some x, s1)" "si_tenant_id x \<in> set sat"
      "k + 1 < queue_size (requeue x s1)"
      "sched_turn envs async exec p k sat cy s m = Turn p (k + 1) sat cy (requeue x s1) m"
  | (denied) x s1 reason m1 where "p < MAX_PER_SCHEDULE_CYCLE" "dequeue_next s = (Some x, s1)" "si_tenant_id x \<notin> set sat"
      "can_execute (envs p) (si_tenant_id x) m = ((False, reason), m1)"
      "sched_turn envs async exec p k sat cy s m = Turn (p + 1) 0 (si_tenant_id x # sat) cy (requeue x s1) m1"
  | (dispatched) x s1 reason m1 where "p < MAX_PER_SCHEDULE_CYCLE" "dequeue_next s = (Some x, s1)" "si_tenant_id x \<notin> set sat"
      "can_execute (envs p) (si_tenant_id x) m = ((True, reason), m1)"
      "sched_turn envs async exec p k sat cy s m = dispatch_turn async exec p sat cy x s1 m1"
proof -
  obtain r s1 where dq: "dequeue_next s = (r, s1)" by (cases "dequeue_next s")
  show ?thesis
  proof (cases "MAX_PER_SCHEDULE_CYCLE \<le> p \<or> r = None")
    case True
    moreover have "r = None \<Longrightarrow> s1 = s" using dequeue_from_none(1) dq by (simp add: dequeue_next_def)
    ultimately show ?thesis using dq by (intro stop) (auto simp: sched_turn_def)
  next
    case False
    then obtain x where x: "dequeue_next s = (Some x, s1)" "p < MAX_PER_SCHEDULE_CYCLE" using dq by auto
    obtain ok reason m1 where ce: "can_execute (envs p) (si_tenant_id x) m = ((ok, reason), m1)" by (metis surj_pair)
    consider "si_tenant_id x \<in> set sat" "queue_size (requeue x s1) \<le> k + 1"
      | "si_tenant_id x \<in> set sat" "k + 1 < queue_size (requeue x s1)"
      | "si_tenant_id x \<notin> set sat" "\<not> ok" | "si_tenant_id x \<notin> set sat" ok by linarith
    then show ?thesis
      using x ce ended skipped denied dispatched by cases (auto simp: sched_turn_def)
  qed
qed

lemma dequeue_next_size: "dequeue_next s = (Some x, s1) \<Longrightarrow> queue_size (requeue x s1) = queue_size s"
  using queue_size_dequeue [of PRIORITY_ORDER s x s1] by (simp add: dequeue_next_def queue_size_requeue)

lemma sched_turn_decreases:
  assumes "sched_turn envs async exec p k sat cy s m = Turn p' k' sat' cy' s' m'"
  shows "p < MAX_PER_SCHEDULE_CYCLE \<and> (p' = p + 1 \<or> p' = p \<and> queue_size s' = queue_size s \<and> k' = k + 1 \<and> k' < queue_size s')"
proof (cases rule: sched_turn_cases [of envs async exec p k sat cy s m])
  case (dispatched x s1 reason m1)
  then show ?thesis using assms by (cases rule: dispatch_turn_cases [of exec async x s1 m1 p sat cy]) auto
qed (use assms dequeue_next_size in auto)

function sched_loop ::
  "(nat \<Rightarrow> rm_env) \<Rightarrow> bool \<Rightarrow> dispatcher \<Rightarrow> nat \<Rightarrow> nat \<Rightarrow> string list \<Rightarrow> cycle \<Rightarrow> scheduler \<Rightarrow> ResourceManager
   \<Rightarrow> cycle \<times> scheduler \<times> ResourceManager" where
  "sched_loop envs async exec processed skips saturated cy s m =
     (case sched_turn envs async exec processed skips saturated cy s m of
        Stop cy1 s1 m1 \<Rightarrow> (cy1, s1, m1)
      | Turn p1 k1 sat1 cy1 s1 m1 \<Rightarrow> sched_loop envs async exec p1 k1 sat1 cy1 s1 m1)"
  by pat_completeness auto

termination
proof (relation "measures [\<lambda>(_, _, _, processed, _). MAX_PER_SCHEDULE_CYCLE - processed,
    \<lambda>(_, _, _, _, skips, _, _, s, _). queue_size s - skips]", goal_cases)
  case (2 envs async exec p k sat cy s m p1 k1 sat1 cy1 s1 m1)
  from sched_turn_decreases [OF 2] show ?case by (auto simp: diff_less_mono2)
qed simp

declare sched_loop.simps [simp del]

definition schedule ::
  "sched_env \<Rightarrow> (nat \<Rightarrow> rm_env) \<Rightarrow> bool \<Rightarrow> dispatcher \<Rightarrow> bool \<Rightarrow> scheduler \<Rightarrow> ResourceManager
   \<Rightarrow> (py_exc + cycle) \<times> scheduler \<times> ResourceManager" where
  "schedule e envs async exec tick s m =
     (let (ticked, s0) = (if tick then tick_waits e s else (Inr 0, s)) in
      case ticked of
        Inl x \<Rightarrow> (Inl x, s0, m)
      | Inr _ \<Rightarrow>
          (case sched_loop envs async exec 0 0 [] empty_cycle s0 m of
             (cy, s1, m1) \<Rightarrow> (Inr cy, fold (enqueue e) (cy_retry cy) s1, m1)))"



section \<open>A cycle loses nothing\<close>

definition cycle_items :: "cycle \<Rightarrow> ScheduledItem list" where
  "cycle_items cy = cy_dispatched cy @ cy_dropped cy @ cy_retry cy"

definition ids_of :: "ScheduledItem list \<Rightarrow> (string \<times> string \<times> callback \<times> string option \<times> string) multiset" where
  "ids_of xs = image_mset item_id (mset xs)"

definition cycle_ok :: "cycle \<Rightarrow> bool" where
  "cycle_ok cy \<longleftrightarrow> list_all (\<lambda>i. si_priority i = PRIORITY_LOW \<and> si_retry_count i \<le> si_max_retries i) (cy_retry cy)
     \<and> list_all (\<lambda>i. si_max_retries i \<le> si_retry_count i) (cy_dropped cy)"

definition dispatcher_ok :: "dispatcher \<Rightarrow> bool" where
  "dispatcher_ok exec \<longleftrightarrow> (\<forall>req s m b s' m'. wf_lanes s \<and> exec req (s, m) = (b, s', m') \<longrightarrow>
     wf_lanes s' \<and> queued_ids s \<subseteq># queued_ids s')"

lemma ids_of_simps [simp]: "ids_of [] = {#}" "ids_of (x # xs) = add_mset (item_id x) (ids_of xs)"
  "ids_of (xs @ ys) = ids_of xs + ids_of ys"
  by (simp_all add: ids_of_def)

lemma requeue_queued:
  assumes "wf_lanes s" "ok_priority x"
  shows "wf_lanes (requeue x s)" and "queued_ids (requeue x s) = add_mset (item_id x) (queued_ids s)"
proof -
  have all: "list_all (\<lambda>i. si_priority i = si_priority x) (x # lane (si_priority x) s)"
    using lane_elem [OF assms(1), of _ "si_priority x"] by (auto simp: list_all_iff)
  note l = set_lane_wf [OF assms(1) assms(2) [unfolded ok_priority_def] all]
  show "wf_lanes (requeue x s)" using l(1) by (simp add: requeue_def Let_def frame_simps)
  have "mset (queued (requeue x s)) = add_mset x (mset (queued s))"
    using l(2) by (simp add: requeue_def Let_def frame_simps)
  then show "queued_ids (requeue x s) = add_mset (item_id x) (queued_ids s)" by (simp add: queued_ids_def)
qed

lemma dispatch_failed_ok:
  assumes "dispatch_failed x cy s = (cy', s')"
  shows "wf_lanes s' = wf_lanes s" "queued_ids s' = queued_ids s"
    "ids_of (cycle_items cy') = add_mset (item_id x) (ids_of (cycle_items cy))"
    "length (cycle_items cy') = Suc (length (cycle_items cy))" "cycle_ok cy \<Longrightarrow> cycle_ok cy'"
  using assms
  by (auto simp: dispatch_failed_def cycle_items_def cycle_ok_def item_id_def queued_ids_def frame_simps
      split: if_splits)

lemma dequeue_some_ids:
  assumes "wf_lanes s" "dequeue_next s = (Some x, s')"
  shows "wf_lanes s'" "ok_priority x" "queued_ids s = add_mset (item_id x) (queued_ids s')"
  using engine_queue.take_some [OF assms] by simp_all

lemma step_combine:
  assumes "q = add_mset i q1" "q1 \<subseteq># q2" "c1 = add_mset i c" "q2 + c1 \<subseteq># t"
  shows "q + c \<subseteq># t"
proof -
  have "q + c = q1 + c1" using assms(1,3) by simp
  also have "\<dots> \<subseteq># q2 + c1" using assms(2) by simp
  finally show ?thesis using assms(4) by (rule subset_mset.order_trans)
qed

text \<open>What a turn keeps, from a state and a cycle to the next ones.\<close>

definition kept :: "nat \<Rightarrow> cycle \<Rightarrow> scheduler \<Rightarrow> nat \<Rightarrow> cycle \<Rightarrow> scheduler \<Rightarrow> bool" where
  "kept p cy s p' cy' s' \<longleftrightarrow> wf_lanes s' \<and> cycle_ok cy'
     \<and> queued_ids s + ids_of (cycle_items cy) \<subseteq># queued_ids s' + ids_of (cycle_items cy')
     \<and> length (cycle_items cy') + p \<le> length (cycle_items cy) + p'"

lemma kept_trans:
  assumes "kept p cy s p1 cy1 s1" "kept p1 cy1 s1 p2 cy2 s2"
  shows "kept p cy s p2 cy2 s2"
proof -
  have "queued_ids s + ids_of (cycle_items cy) \<subseteq># queued_ids s2 + ids_of (cycle_items cy2)"
    using assms unfolding kept_def by (meson subset_mset.order_trans)
  then show ?thesis using assms unfolding kept_def by linarith
qed

lemma dispatch_turn_keeps:
  assumes "dispatcher_ok exec" "wf_lanes s1" "cycle_ok cy" "queued_ids s = add_mset (item_id x) (queued_ids s1)"
    and "dispatch_turn async exec p sat cy x s1 m = Turn p' k' sat' cy' s' m'"
  shows "p' = p + 1 \<and> kept p cy s p' cy' s'"
proof (cases rule: dispatch_turn_cases [of exec async x s1 m p sat cy])
  case (1 s2 m2)
  then have "wf_lanes s2" "queued_ids s1 \<subseteq># queued_ids s2" using assms(1,2) unfolding dispatcher_ok_def by blast+
  then show ?thesis
    using 1 assms(3-5) step_combine [OF assms(4), of "queued_ids s2" _ "ids_of (cycle_items cy)"]
    by (auto simp: kept_def cycle_items_def cycle_ok_def)
next
  case (2 s2 m2 cy1 s3)
  then have "wf_lanes s2" "queued_ids s1 \<subseteq># queued_ids s2" using assms(1,2) unfolding dispatcher_ok_def by blast+
  then show ?thesis
    using 2 assms(3-5) dispatch_failed_ok [OF 2(2)] step_combine [OF assms(4), of "queued_ids s2" _ "ids_of (cycle_items cy)"]
    by (auto simp: kept_def)
qed

lemma sched_turn_keeps:
  assumes "dispatcher_ok exec" "wf_lanes s" "cycle_ok cy"
  shows "case sched_turn envs async exec p k sat cy s m of
      Turn p' k' sat' cy' s' m' \<Rightarrow> kept p cy s p' cy' s' \<and> p' \<le> MAX_PER_SCHEDULE_CYCLE
    | Stop cy' s' m' \<Rightarrow> kept p cy s p cy' s'"
proof (cases rule: sched_turn_cases [of envs async exec p k sat cy s m])
  case stop
  then show ?thesis using assms by (simp add: kept_def)
next
  case (ended x s1)
  note d = dequeue_some_ids [OF assms(2) ended(1)]
  show ?thesis using ended(4) requeue_queued [OF d(1,2)] d(3) assms(3) by (simp add: kept_def)
next
  case (skipped x s1)
  note d = dequeue_some_ids [OF assms(2) skipped(2)]
  show ?thesis using skipped(1,5) requeue_queued [OF d(1,2)] d(3) assms(3) by (simp add: kept_def)
next
  case (denied x s1 reason m1)
  note d = dequeue_some_ids [OF assms(2) denied(2)]
  show ?thesis using denied(1,5) requeue_queued [OF d(1,2)] d(3) assms(3) by (simp add: kept_def)
next
  case (dispatched x s1 reason m1)
  note d = dequeue_some_ids [OF assms(2) dispatched(2)]
  obtain p' k' sat' cy' s' m' where t: "dispatch_turn async exec p sat cy x s1 m1 = Turn p' k' sat' cy' s' m'"
    by (cases rule: dispatch_turn_cases [of exec async x s1 m1 p sat cy]) auto
  from dispatch_turn_keeps [OF assms(1) d(1) assms(3) d(3) t] show ?thesis using dispatched(1,5) t by auto
qed

lemma sched_loop_keeps:
  assumes "dispatcher_ok exec" "wf_lanes s" "cycle_ok cy" "p \<le> MAX_PER_SCHEDULE_CYCLE"
    and "sched_loop envs async exec p k sat cy s m = (cy', s', m')"
  shows "kept p cy s MAX_PER_SCHEDULE_CYCLE cy' s'"
  using assms
proof (induction envs async exec p k sat cy s m rule: sched_loop.induct)
  case (1 envs async exec p k sat cy s m)
  note loop = 1(6) [unfolded sched_loop.simps [of envs async exec p k sat cy s m]]
  note t = sched_turn_keeps [OF 1(2-4), where envs = envs and async = async and p = p and k = k and sat = sat and m = m]
  show ?case
  proof (cases "sched_turn envs async exec p k sat cy s m")
    case (Stop cy1 s1 m1)
    then show ?thesis using t loop 1(5) by (simp add: kept_def)
  next
    case (Turn p1 k1 sat1 cy1 s1 m1)
    then have s1: "kept p cy s p1 cy1 s1" "p1 \<le> MAX_PER_SCHEDULE_CYCLE" using t by simp_all
    have "sched_loop envs async exec p1 k1 sat1 cy1 s1 m1 = (cy', s', m')" using loop Turn by simp
    from 1(1) [OF Turn 1(2) _ _ s1(2) this] s1(1) have "kept p1 cy1 s1 MAX_PER_SCHEDULE_CYCLE cy' s'"
      by (simp add: kept_def)
    with s1(1) show ?thesis by (rule kept_trans)
  qed
qed

lemma enqueue_all:
  assumes "wf_lanes s" "list_all ok_priority xs"
  shows "wf_lanes (fold (enqueue e) xs s) \<and> queued_ids (fold (enqueue e) xs s) = queued_ids s + ids_of xs"
  using assms by (induction xs arbitrary: s) (simp_all add: enqueue_queued)





section \<open>A saturated tenant at the head of the high lane\<close>

lemma dequeue_requeue_single:
  assumes "lane PRIORITY_HIGH s = [x]" "si_priority x = PRIORITY_HIGH"
  shows "\<exists>s1. dequeue_next s = (Some x, s1) \<and> (\<forall>p. lane p (requeue x s1) = lane p s)"
proof -
  have "\<exists>s1. dequeue_from PRIORITY_ORDER s = (Some x, s1) \<and> se_queues s1 = dset PRIORITY_HIGH [] (se_queues s)"
    using assms(1) by (simp add: PRIORITY_ORDER_def rotate_past_def Let_def set_lane_def)
  then obtain s1 where s1: "dequeue_next s = (Some x, s1)" "se_queues s1 = dset PRIORITY_HIGH [] (se_queues s)"
    by (auto simp: dequeue_next_def)
  have "lane p (requeue x s1) = lane p s" for p
    using s1(2) assms by (simp add: requeue_def set_lane_def Let_def)
  with s1(1) show ?thesis by blast
qed

lemma blocked_loop:
  assumes "lane PRIORITY_HIGH s = [x]" "si_priority x = PRIORITY_HIGH" "si_tenant_id x \<in> set sat"
  shows "\<exists>s'. sched_loop envs async exec p k sat cy s m = (cy, s', m) \<and> (\<forall>q. lane q s' = lane q s)"
  using assms
proof (induction "queue_size s - k" arbitrary: s k rule: less_induct)
  case less
  from dequeue_requeue_single [OF less(2,3)] obtain s1 where
    s1: "dequeue_next s = (Some x, s1)" "\<forall>q. lane q (requeue x s1) = lane q s" by blast
  have size: "queue_size (requeue x s1) = queue_size s" by (rule dequeue_next_size [OF s1(1)])
  show ?case
  proof (cases "MAX_PER_SCHEDULE_CYCLE \<le> p \<or> queue_size (requeue x s1) \<le> k + 1")
    case True
    then show ?thesis using s1 less(4) by (auto simp: sched_loop.simps [of envs async exec p k] sched_turn_def)
  next
    case False
    then have "queue_size (requeue x s1) - (k + 1) < queue_size s - k" using size by linarith
    from less(1) [OF this] s1(2) less(2-4)
    obtain s' where "sched_loop envs async exec p (k + 1) sat cy (requeue x s1) m = (cy, s', m)"
      "\<forall>q. lane q s' = lane q (requeue x s1)" by auto
    then show ?thesis using s1 less(4) False by (simp add: sched_loop.simps [of envs async exec p k] sched_turn_def)
  qed
qed

text \<open>
  One saturated tenant can stop all lower lanes: while the only item of the high lane belongs to a
  tenant at its limit, a cycle takes that item out and puts it back until it gives up; it
  dispatches nothing, whatever the normal and low lanes hold for tenants with free slots, and
  leaves the lanes as they were, so the next cycle does the same.
\<close>

theorem saturated_high_item_blocks_lower_lanes:
  assumes "lane PRIORITY_HIGH s = [x]" "si_priority x = PRIORITY_HIGH"
    and "can_execute (envs 0) (si_tenant_id x) m = ((False, reason), m1)"
  shows "\<exists>s'. schedule e envs async exec False s m = (Inr empty_cycle, s', m1) \<and> (\<forall>p. lane p s' = lane p s)"
proof -
  from dequeue_requeue_single [OF assms(1,2)] obtain s1 where
    s1: "dequeue_next s = (Some x, s1)" "\<forall>q. lane q (requeue x s1) = lane q s" by blast
  have "sched_loop envs async exec 0 0 [] empty_cycle s m =
      sched_loop envs async exec 1 0 [si_tenant_id x] empty_cycle (requeue x s1) m1"
    using s1(1) assms(3) by (simp add: sched_loop.simps [of envs async exec 0 0 "[]"] sched_turn_def MAX_PER_SCHEDULE_CYCLE_def)
  moreover have "\<exists>s'. sched_loop envs async exec 1 0 [si_tenant_id x] empty_cycle (requeue x s1) m1 = (empty_cycle, s', m1)
      \<and> (\<forall>q. lane q s' = lane q (requeue x s1))"
    by (rule blocked_loop [OF _ assms(2)]) (use s1(2) assms(1) in simp_all)
  ultimately show ?thesis using s1(2) by (auto simp: schedule_def empty_cycle_def)
qed


text \<open>A manager with the only slot of one tenant taken and the slot of the other one free.\<close>

definition full_manager :: ResourceManager where
  "full_manager = mark_started sample_env ''a'' (Some ''e'') (new_ResourceManager sample_cfg False 0 empty_db)"

theorem saturated_high_item_blocks_lower_lanes_witness:
  "\<exists>s' m'. schedule sample_sched_env (\<lambda>_. sample_env) False (\<lambda>_ x. (True, x)) False
       (enqueue sample_sched_env (sample_item ''b'' ''normal'')
         (set_lane PRIORITY_HIGH [sample_item ''a'' ''high''] new_scheduler)) full_manager = (Inr empty_cycle, s', m')
     \<and> length (lane PRIORITY_NORMAL s') = 1 \<and> fst (fst (can_execute sample_env ''b'' full_manager))"
proof -
  let ?x = "sample_item ''a'' ''high''"
  let ?s = "enqueue sample_sched_env (sample_item ''b'' ''normal'') (set_lane PRIORITY_HIGH [?x] new_scheduler)"
  have l: "lane PRIORITY_HIGH ?s = [?x]" "si_priority ?x = PRIORITY_HIGH" "length (lane PRIORITY_NORMAL ?s) = 1"
    by code_simp+
  have free: "fst (fst (can_execute sample_env ''b'' full_manager))" by code_simp
  have "\<not> fst (fst (can_execute sample_env (si_tenant_id ?x) full_manager))" by code_simp
  then obtain reason m1 where "can_execute sample_env (si_tenant_id ?x) full_manager = ((False, reason), m1)"
    by (metis (full_types) prod.collapse)
  from saturated_high_item_blocks_lower_lanes [OF l(1,2), of "\<lambda>_. sample_env", OF this] l(3) free
  show ?thesis by fastforce
qed

end
