(* ===== verification/Execution_Environment.thy ===== *)
theory Execution_Environment
  imports Complex_Main Py_Values
begin

text \<open>
  The environment a unit of execution may ask for (\<^verbatim>\<open>core/execution_environment.py\<close>): the declared spec
  and its dictionary form, the floors of the host, the guest and the tools, the clamp that
  intersects a declaration with a floor, the check of the host's assurance, and what the worker
  processes are started with (with \<^verbatim>\<open>runtime/nodus_worker.py\<close>, \<^verbatim>\<open>_environment_kwargs\<close>).
\<close>


section \<open>Vocabularies\<close>

definition ASSURANCE_INSECURE_DEV :: string where "ASSURANCE_INSECURE_DEV = ''insecure-dev''"
definition ASSURANCE_CONTAINER :: string where "ASSURANCE_CONTAINER = ''container-grade-sandbox''"
definition ASSURANCE_STRONG :: string where "ASSURANCE_STRONG = ''strong-sandbox-tier''"

definition ASSURANCE_ORDER :: "string list" where
  "ASSURANCE_ORDER = [ASSURANCE_INSECURE_DEV, ASSURANCE_CONTAINER, ASSURANCE_STRONG]"

text \<open>\<^verbatim>\<open>tuple.index\<close>: the first position of a value, which raises when it is absent.\<close>

fun tuple_index :: "'a list \<Rightarrow> 'a \<Rightarrow> nat option" where
  "tuple_index [] x = None"
| "tuple_index (y # ys) x = (if y = x then Some 0 else map_option Suc (tuple_index ys x))"

definition assurance_rank :: "string \<Rightarrow> int" where
  "assurance_rank assurance_class =
     (case tuple_index ASSURANCE_ORDER assurance_class of None \<Rightarrow> -1 | Some i \<Rightarrow> int i)"

definition FS_NONE :: string where "FS_NONE = ''none''"
definition FS_READONLY :: string where "FS_READONLY = ''readonly''"
definition FS_SCOPED :: string where "FS_SCOPED = ''scoped''"
definition FS_HOST :: string where "FS_HOST = ''host''"
definition FILESYSTEM_ORDER :: "string list" where "FILESYSTEM_ORDER = [FS_NONE, FS_READONLY, FS_SCOPED, FS_HOST]"

definition ENV_NONE :: string where "ENV_NONE = ''none''"
definition ENV_ALLOWLIST :: string where "ENV_ALLOWLIST = ''allowlist''"
definition ENV_INHERIT :: string where "ENV_INHERIT = ''inherit''"
definition ENV_ORDER :: "string list" where "ENV_ORDER = [ENV_NONE, ENV_ALLOWLIST, ENV_INHERIT]"

definition NET_NONE :: string where "NET_NONE = ''none''"
definition NET_SCOPED :: string where "NET_SCOPED = ''scoped''"
definition NET_OPEN :: string where "NET_OPEN = ''open''"
definition NETWORK_ORDER :: "string list" where "NETWORK_ORDER = [NET_NONE, NET_SCOPED, NET_OPEN]"

lemmas axis_defs = FILESYSTEM_ORDER_def ENV_ORDER_def NETWORK_ORDER_def ASSURANCE_ORDER_def
  FS_NONE_def FS_READONLY_def FS_SCOPED_def FS_HOST_def ENV_NONE_def ENV_ALLOWLIST_def ENV_INHERIT_def
  NET_NONE_def NET_SCOPED_def NET_OPEN_def
  ASSURANCE_INSECURE_DEV_def ASSURANCE_CONTAINER_def ASSURANCE_STRONG_def


section \<open>The spec\<close>

text \<open>
  \<^verbatim>\<open>ExecutionEnvironmentInvalid\<close> with its message, \<^verbatim>\<open>ExecutionEnvironmentUnsatisfiable\<close> with its message,
  the required and the available class, and any other exception.
\<close>

datatype env_error = Env_invalid string | Env_unsatisfiable string string string | Env_raised py_exc

record Visibility =
  filesystem :: string
  filesystem_roots :: "string list"
  env_mode :: string
  env_allow :: "string list"

record Authority =
  network :: string
  egress_scope :: "string option"
  subprocess :: bool

record Resources =
  wall_time_ms :: "int option"
  memory_bytes :: "int option"
  syscalls :: "int option"
  tokens :: "int option"

record ExecutionEnvironmentSpec =
  visibility :: Visibility
  authority :: Authority
  resources :: Resources
  min_assurance :: string

definition default_Visibility :: Visibility where
  "default_Visibility = \<lparr>filesystem = FS_HOST, filesystem_roots = [], env_mode = ENV_INHERIT, env_allow = []\<rparr>"

definition default_Authority :: Authority where
  "default_Authority = \<lparr>network = NET_OPEN, egress_scope = None, subprocess = True\<rparr>"

definition default_Resources :: Resources where
  "default_Resources = \<lparr>wall_time_ms = None, memory_bytes = None, syscalls = None, tokens = None\<rparr>"

definition default_spec :: ExecutionEnvironmentSpec where
  "default_spec = \<lparr>visibility = default_Visibility, authority = default_Authority,
     resources = default_Resources, min_assurance = ASSURANCE_INSECURE_DEV\<rparr>"

definition opt_int_value :: "int option \<Rightarrow> pyval" where
  "opt_int_value v = (case v of None \<Rightarrow> PNone | Some i \<Rightarrow> PInt i)"

definition spec_to_dict :: "ExecutionEnvironmentSpec \<Rightarrow> pyval" where
  "spec_to_dict s =
     PDict [(''visibility'', PDict
              [(''filesystem'', PStr (filesystem (visibility s))),
               (''filesystem_roots'', PList (map PStr (filesystem_roots (visibility s)))),
               (''env'', PStr (env_mode (visibility s))),
               (''env_allow'', PList (map PStr (env_allow (visibility s))))]),
            (''authority'', PDict
              [(''network'', PStr (network (authority s))),
               (''egress_scope'', case egress_scope (authority s) of None \<Rightarrow> PNone | Some x \<Rightarrow> PStr x),
               (''subprocess'', PBool (subprocess (authority s)))]),
            (''resources'', PDict
              [(''wall_time_ms'', opt_int_value (wall_time_ms (resources s))),
               (''memory_bytes'', opt_int_value (memory_bytes (resources s))),
               (''syscalls'', opt_int_value (syscalls (resources s))),
               (''tokens'', opt_int_value (tokens (resources s)))]),
            (''min_assurance'', PStr (min_assurance s))]"

text \<open>\<^verbatim>\<open>raw.get(k) or {}\<close>, \<^verbatim>\<open>_enum\<close>, \<^verbatim>\<open>_tuple\<close> and \<^verbatim>\<open>_opt_int\<close> of \<^verbatim>\<open>from_dict\<close>.\<close>

definition section_of :: "payload \<Rightarrow> string \<Rightarrow> pyval" where
  "section_of raw k = (let v = pget raw k in if truthy v then v else PDict [])"

definition not_one_of :: "string \<Rightarrow> pyval \<Rightarrow> string list \<Rightarrow> env_error" where
  "not_one_of key v order = Env_invalid (key @ ''='' @ py_repr v @ '' is not one of '' @ py_join '', '' order)"

definition enum_of :: "payload \<Rightarrow> string \<Rightarrow> string list \<Rightarrow> string \<Rightarrow> env_error + string" where
  "enum_of sec key order dflt =
     (let v = dget_or sec key (PStr dflt) in
      case v of
        PStr x \<Rightarrow> if x \<in> set order then Inr x else Inl (not_one_of key v order)
      | _ \<Rightarrow> Inl (not_one_of key v order))"

fun strings_of :: "pyval list \<Rightarrow> string list option" where
  "strings_of [] = Some []"
| "strings_of (v # vs) =
     (case v of PStr x \<Rightarrow> map_option ((#) x) (strings_of vs) | _ \<Rightarrow> None)"

definition tuple_of :: "payload \<Rightarrow> string \<Rightarrow> env_error + string list" where
  "tuple_of sec key =
     (let v = pget sec key; err = Inl (Env_invalid (key @ '' must be a list of strings'')) in
      if \<not> truthy v then Inr []
      else (case v of
          PList vs \<Rightarrow> (case strings_of vs of None \<Rightarrow> err | Some xs \<Rightarrow> Inr xs)
        | _ \<Rightarrow> err))"

definition opt_int :: "payload \<Rightarrow> string \<Rightarrow> env_error + int option" where
  "opt_int sec key =
     (case pget sec key of
        PNone \<Rightarrow> Inr None
      | PInt i \<Rightarrow> if i < 0 then Inl (Env_invalid (key @ '' must be a non-negative int or null'')) else Inr (Some i)
      | _ \<Rightarrow> Inl (Env_invalid (key @ '' must be a non-negative int or null'')))"

definition egress_of :: "payload \<Rightarrow> env_error + string option" where
  "egress_of auth =
     (case pget auth ''egress_scope'' of
        PNone \<Rightarrow> Inr None
      | PStr x \<Rightarrow> Inr (Some x)
      | _ \<Rightarrow> Inl (Env_invalid ''egress_scope must be a string or null''))"

definition subprocess_of :: "payload \<Rightarrow> env_error + bool" where
  "subprocess_of auth =
     (case dget_or auth ''subprocess'' (PBool True) of
        PBool b \<Rightarrow> Inr b
      | _ \<Rightarrow> Inl (Env_invalid ''subprocess must be a bool''))"

definition visibility_of :: "payload \<Rightarrow> env_error + Visibility" where
  "visibility_of vis =
     bind_result (enum_of vis ''filesystem'' FILESYSTEM_ORDER FS_HOST) (\<lambda>fs.
     bind_result (tuple_of vis ''filesystem_roots'') (\<lambda>roots.
     bind_result (enum_of vis ''env'' ENV_ORDER ENV_INHERIT) (\<lambda>em.
     bind_result (tuple_of vis ''env_allow'') (\<lambda>allow.
       Inr \<lparr>filesystem = fs, filesystem_roots = roots, env_mode = em, env_allow = allow\<rparr>))))"

definition resources_of :: "payload \<Rightarrow> env_error + Resources" where
  "resources_of res =
     bind_result (opt_int res ''wall_time_ms'') (\<lambda>wall.
     bind_result (opt_int res ''memory_bytes'') (\<lambda>mem.
     bind_result (opt_int res ''syscalls'') (\<lambda>sysc.
     bind_result (opt_int res ''tokens'') (\<lambda>toks.
       Inr \<lparr>wall_time_ms = wall, memory_bytes = mem, syscalls = sysc, tokens = toks\<rparr>))))"

definition sections_of :: "payload \<Rightarrow> env_error + payload \<times> payload \<times> payload" where
  "sections_of raw =
     (case (section_of raw ''visibility'', section_of raw ''authority'', section_of raw ''resources'') of
        (PDict vis, PDict auth, PDict res) \<Rightarrow> Inr (vis, auth, res)
      | _ \<Rightarrow> Inl (Env_invalid ''visibility/authority/resources must be objects''))"

definition spec_from_dict :: "pyval \<Rightarrow> env_error + ExecutionEnvironmentSpec" where
  "spec_from_dict raw =
     (case raw of
        PDict d \<Rightarrow>
          bind_result (sections_of d) (\<lambda>(vis, auth, res).
          bind_result (enum_of d ''min_assurance'' ASSURANCE_ORDER ASSURANCE_INSECURE_DEV) (\<lambda>least.
          bind_result (egress_of auth) (\<lambda>egress.
          bind_result (subprocess_of auth) (\<lambda>sub.
          bind_result (visibility_of vis) (\<lambda>v.
          bind_result (enum_of auth ''network'' NETWORK_ORDER NET_OPEN) (\<lambda>net.
          bind_result (resources_of res) (\<lambda>r.
            Inr \<lparr>visibility = v, authority = \<lparr>network = net, egress_scope = egress, subprocess = sub\<rparr>,
                 resources = r, min_assurance = least\<rparr>)))))))
      | _ \<Rightarrow> Inl (Env_invalid (''spec must be a dict, got '' @ type_name raw)))"



section \<open>Floors\<close>

definition DEFAULT_HOST_FLOOR :: ExecutionEnvironmentSpec where
  "DEFAULT_HOST_FLOOR = default_spec"

definition host_floor :: ExecutionEnvironmentSpec where
  "host_floor = DEFAULT_HOST_FLOOR"

definition GUEST_FLOOR :: ExecutionEnvironmentSpec where
  "GUEST_FLOOR = default_spec\<lparr>
     visibility := default_Visibility\<lparr>filesystem := FS_SCOPED, env_mode := ENV_NONE\<rparr>,
     authority := default_Authority\<lparr>network := NET_NONE, subprocess := False\<rparr>\<rparr>"

text \<open>
  The memory ceiling an operator sets for every guest. The value \<^verbatim>\<open>float(raw)\<close> of a text, when it is
  a finite number, is an argument.
\<close>

definition GUEST_MAX_MEMORY_MB_ENV :: string where
  "GUEST_MAX_MEMORY_MB_ENV = ''AINDY_NODUS_MAX_MEMORY_MB''"

definition guest_memory_floor_bytes :: "(string \<Rightarrow> rat option) \<Rightarrow> env \<Rightarrow> int option" where
  "guest_memory_floor_bytes float_of ev =
     (let raw = (case ev GUEST_MAX_MEMORY_MB_ENV of None \<Rightarrow> [] | Some v \<Rightarrow> py_strip v) in
      if raw = [] then None
      else (case float_of raw of
          None \<Rightarrow> None
        | Some mb \<Rightarrow> if mb \<le> 0 then None else Some \<lfloor>mb * 1048576\<rfloor>))"

definition guest_floor :: "(string \<Rightarrow> rat option) \<Rightarrow> env \<Rightarrow> ExecutionEnvironmentSpec" where
  "guest_floor float_of ev =
     (case guest_memory_floor_bytes float_of ev of
        None \<Rightarrow> GUEST_FLOOR
      | Some memory \<Rightarrow> GUEST_FLOOR\<lparr>resources := (resources GUEST_FLOOR)\<lparr>memory_bytes := Some memory\<rparr>\<rparr>)"

definition TOOL_FLOOR :: ExecutionEnvironmentSpec where
  "TOOL_FLOOR = default_spec"

definition tool_floor :: ExecutionEnvironmentSpec where
  "tool_floor = TOOL_FLOOR"


section \<open>Starting a worker\<close>

text \<open>
  The keyword arguments of \<^verbatim>\<open>subprocess.run\<close> that a spec determines (an absent key is \<open>None\<close>); the
  timeouts are clock readings, \<^verbatim>\<open>wall_ms / 1000.0\<close> seconds. \<open>environ\<close> is \<^verbatim>\<open>os.environ\<close>.
\<close>

record worker_kwargs =
  wk_env :: "string dict option"
  wk_cwd :: "string option"
  wk_timeout :: "time option"

definition ESSENTIAL_ENV :: "string list" where
  "ESSENTIAL_ENV = [''PATH'', ''PYTHONPATH'', ''PYTHONHOME'', ''SYSTEMROOT'', ''TEMP'', ''TMP'']"

definition subprocess_confinement ::
  "string dict \<Rightarrow> ExecutionEnvironmentSpec \<Rightarrow> string \<Rightarrow> time \<Rightarrow> worker_kwargs" where
  "subprocess_confinement environ spec scratch_root default_timeout =
     \<lparr>wk_env = (if env_mode (visibility spec) \<in> set [ENV_NONE, ENV_ALLOWLIST]
                then Some (filter (\<lambda>(k, v). k \<in> set (env_allow (visibility spec)) \<or> k \<in> set ESSENTIAL_ENV) environ)
                else None),
      wk_cwd = (if filesystem (visibility spec) \<in> set [FS_SCOPED, FS_READONLY, FS_NONE]
                then Some scratch_root else None),
      wk_timeout = (case wall_time_ms (resources spec) of
                      None \<Rightarrow> None
                    | Some ms \<Rightarrow> if ms = 0 then None else Some (min default_timeout (ms * (secs div 1000))))\<rparr>"

text \<open>
  The keyword arguments of \<^verbatim>\<open>NodusRuntime\<close>. \<open>nk_allowed_paths = None\<close> is unrestricted; the memory
  ceiling \<^verbatim>\<open>memory_bytes / 1048576.0\<close> is exact and given in bytes.
\<close>

record nodus_kwargs =
  nk_allowed_paths :: "string list option"
  nk_allow_subprocess :: bool
  nk_allow_network :: bool
  nk_allow_env :: bool
  nk_max_memory :: "int option"
  nk_writable_paths :: "string list option"

definition nodus_runtime_kwargs :: "ExecutionEnvironmentSpec \<Rightarrow> string \<Rightarrow> nodus_kwargs" where
  "nodus_runtime_kwargs spec scratch_root =
     (let mode = filesystem (visibility spec);
          declared_roots = filter (\<lambda>r. r \<noteq> []) (filesystem_roots (visibility spec))
      in \<lparr>nk_allowed_paths =
            (if mode = FS_NONE then Some []
             else if mode = FS_HOST then None
             else Some (if declared_roots = [] then [scratch_root] else declared_roots)),
          nk_allow_subprocess = subprocess (authority spec),
          nk_allow_network = (network (authority spec) \<noteq> NET_NONE),
          nk_allow_env = (env_mode (visibility spec) \<noteq> ENV_NONE),
          nk_max_memory = (case memory_bytes (resources spec) of
                             None \<Rightarrow> None | Some m \<Rightarrow> if 0 < m then Some m else None),
          nk_writable_paths = (if mode = FS_READONLY then Some [] else None)\<rparr>)"


section \<open>The clamp\<close>

definition narrower :: "string list \<Rightarrow> string \<Rightarrow> string \<Rightarrow> env_error + string \<times> bool" where
  "narrower order declared flr =
     (case (tuple_index order declared, tuple_index order flr) of
        (Some d, Some f) \<Rightarrow> Inr (order ! min d f, f < d)
      | _ \<Rightarrow> Inl (Env_raised (ValueError ''tuple.index(x): x not in tuple'')))"

definition narrower_int :: "int option \<Rightarrow> int option \<Rightarrow> int option \<times> bool" where
  "narrower_int declared flr =
     (case declared of
        None \<Rightarrow> (flr, False)
      | Some d \<Rightarrow> (case flr of None \<Rightarrow> (declared, False) | Some f \<Rightarrow> (Some (min d f), f < d)))"

text \<open>
  \<^verbatim>\<open>os.path.commonpath([a, b])\<close> on POSIX: the parts that are neither empty nor a dot, as far as they
  agree; it raises on a mix of absolute and relative paths.
\<close>

definition path_parts :: "string \<Rightarrow> string list" where
  "path_parts p = filter (\<lambda>c. c \<noteq> [] \<and> c \<noteq> ''.'') (py_split CHR ''/'' p)"

definition is_abs :: "string \<Rightarrow> bool" where
  "is_abs p = prefix ''/'' p"

definition commonpath :: "string \<Rightarrow> string \<Rightarrow> string option" where
  "commonpath a b =
     (if is_abs a \<noteq> is_abs b then None
      else Some ((if is_abs a then ''/'' else []) @ py_join ''/'' (longest_common_prefix (path_parts a) (path_parts b))))"

definition path_within :: "string \<Rightarrow> string \<Rightarrow> bool" where
  "path_within path r = (commonpath path r = Some r)"

text \<open>\<^verbatim>\<open>_canonical_path\<close> asks the file system (\<^verbatim>\<open>os.path.realpath\<close>): the argument \<open>canon\<close>.\<close>

definition clamp_roots ::
  "(string \<Rightarrow> string) \<Rightarrow> string \<Rightarrow> string list \<Rightarrow> ExecutionEnvironmentSpec \<Rightarrow> string list \<times> bool" where
  "clamp_roots canon declared_mode declared_roots flr =
     (let roots = filter (\<lambda>r. r \<noteq> []) declared_roots in
      if declared_mode = FS_NONE \<or> declared_mode = FS_HOST \<or> roots = [] then (roots, False)
      else if filesystem (visibility flr) = FS_HOST then (roots, False)
      else
        let floor_roots = map canon (filter (\<lambda>r. r \<noteq> []) (filesystem_roots (visibility flr)));
            kept = filter (\<lambda>r. list_ex (\<lambda>f. path_within (canon r) f) floor_roots) roots
        in (kept, length kept \<noteq> length roots))"

definition clamp_to_floor ::
  "(string \<Rightarrow> string) \<Rightarrow> ExecutionEnvironmentSpec \<Rightarrow> ExecutionEnvironmentSpec
   \<Rightarrow> env_error + ExecutionEnvironmentSpec \<times> string list" where
  "clamp_to_floor canon declared flr =
     (let dv = visibility declared; fv = visibility flr; da = authority declared; fa = authority flr;
          dr = resources declared; fr = resources flr in
      bind_result (narrower FILESYSTEM_ORDER (filesystem dv) (filesystem fv)) (\<lambda>(fs, w1).
      let (fs_roots, w2) = clamp_roots canon fs (filesystem_roots dv) flr in
      bind_result (narrower ENV_ORDER (env_mode dv) (env_mode fv)) (\<lambda>(em, w3).
      bind_result (narrower NETWORK_ORDER (network da) (network fa)) (\<lambda>(net, w4).
      let w5 = (subprocess da \<and> \<not> subprocess fa);
          (wall, w6) = narrower_int (wall_time_ms dr) (wall_time_ms fr);
          (mem, w7) = narrower_int (memory_bytes dr) (memory_bytes fr);
          (sysc, w8) = narrower_int (syscalls dr) (syscalls fr);
          (toks, w9) = narrower_int (tokens dr) (tokens fr);
          effective_assurance = (if assurance_rank (min_assurance declared) < assurance_rank (min_assurance flr)
                                 then min_assurance flr else min_assurance declared)
      in Inr (declared\<lparr>visibility := dv\<lparr>filesystem := fs, filesystem_roots := fs_roots, env_mode := em\<rparr>,
                       authority := da\<lparr>network := net, subprocess := subprocess da \<and> subprocess fa\<rparr>,
                       resources := \<lparr>wall_time_ms = wall, memory_bytes = mem, syscalls = sysc, tokens = toks\<rparr>,
                       min_assurance := effective_assurance\<rparr>,
              (if w1 then [''visibility.filesystem''] else []) @
              (if w2 then [''visibility.filesystem_roots''] else []) @
              (if w3 then [''visibility.env''] else []) @
              (if w4 then [''authority.network''] else []) @
              (if w5 then [''authority.subprocess''] else []) @
              (if w6 then [''resources.wall_time_ms''] else []) @
              (if w7 then [''resources.memory_bytes''] else []) @
              (if w8 then [''resources.syscalls''] else []) @
              (if w9 then [''resources.tokens''] else []))))))"


section \<open>Resolving against the host\<close>

definition RESOURCES_ENFORCED :: "string list" where
  "RESOURCES_ENFORCED = [''wall_time_ms'', ''syscalls'', ''tokens'']"

definition GUEST_RESOURCES_ENFORCED :: "string list" where
  "GUEST_RESOURCES_ENFORCED = RESOURCES_ENFORCED @ [''memory_bytes'']"

definition resource_named :: "Resources \<Rightarrow> string \<Rightarrow> int option" where
  "resource_named r name =
     (if name = ''wall_time_ms'' then wall_time_ms r else if name = ''memory_bytes'' then memory_bytes r
      else if name = ''syscalls'' then syscalls r else if name = ''tokens'' then tokens r else None)"

definition enforced_resources :: "ExecutionEnvironmentSpec \<Rightarrow> bool \<Rightarrow> string list" where
  "enforced_resources spec guest =
     filter (\<lambda>name. resource_named (resources spec) name \<noteq> None)
       (if guest then GUEST_RESOURCES_ENFORCED else RESOURCES_ENFORCED)"

record EnvironmentResolution =
  er_declared :: ExecutionEnvironmentSpec
  er_effective :: ExecutionEnvironmentSpec
  er_evidence_class :: string
  er_host_assurance :: string
  er_widened_fields :: "string list"

text \<open>
  The classes the sandbox runner registry reports: the runner that is selected, the known runners
  with their class, and the ceiling of the selected one; \<open>None\<close> is a failing query.
\<close>

record runner_info =
  rn_type :: string
  rn_classes :: "string dict"
  rn_ceiling :: string

definition host_assurance :: "runner_info option \<Rightarrow> string \<times> string" where
  "host_assurance info =
     (case info of
        None \<Rightarrow> (ASSURANCE_INSECURE_DEV, ASSURANCE_INSECURE_DEV @ ''/resolution-failed'')
      | Some i \<Rightarrow>
          let c = dget_or (rn_classes i) (rn_type i) ASSURANCE_INSECURE_DEV in (c, c @ ''/'' @ rn_ceiling i))"

definition resolve_environment ::
  "(string \<Rightarrow> string) \<Rightarrow> runner_info option \<Rightarrow> ExecutionEnvironmentSpec \<Rightarrow> ExecutionEnvironmentSpec
   \<Rightarrow> env_error + EnvironmentResolution" where
  "resolve_environment canon info declared flr =
     bind_result (clamp_to_floor canon declared flr) (\<lambda>(effective, widened).
       let (host_class, evidence_class) = host_assurance info in
       if assurance_rank host_class < assurance_rank (min_assurance effective)
       then Inl (Env_unsatisfiable
              (''host provides assurance '' @ repr_str host_class @ ''; execution requires at least '' @
               repr_str (min_assurance effective)) (min_assurance effective) host_class)
       else Inr \<lparr>er_declared = declared, er_effective = effective, er_evidence_class = evidence_class,
                 er_host_assurance = host_class, er_widened_fields = widened\<rparr>)"

text \<open>\<^verbatim>\<open>_environment_kwargs\<close> of the guest worker: the payload's spec clamped to the guest floor.\<close>

definition environment_kwargs ::
  "(string \<Rightarrow> string) \<Rightarrow> (string \<Rightarrow> rat option) \<Rightarrow> env \<Rightarrow> payload \<Rightarrow> string \<Rightarrow> nodus_kwargs" where
  "environment_kwargs canon float_of ev p scratch =
     (let flr = guest_floor float_of ev; raw = pget p ''env_spec'';
          spec = (if truthy raw
                  then (case bind_result (spec_from_dict raw) (\<lambda>d. clamp_to_floor canon d flr) of
                          Inl _ \<Rightarrow> flr | Inr (effective, widened) \<Rightarrow> effective)
                  else flr)
      in nodus_runtime_kwargs spec scratch)"



section \<open>Well-formed specs\<close>

definition wf_ceiling :: "int option \<Rightarrow> bool" where
  "wf_ceiling c = (case c of None \<Rightarrow> True | Some i \<Rightarrow> 0 \<le> i)"

definition wf_spec :: "ExecutionEnvironmentSpec \<Rightarrow> bool" where
  "wf_spec s \<longleftrightarrow> filesystem (visibility s) \<in> set FILESYSTEM_ORDER \<and> env_mode (visibility s) \<in> set ENV_ORDER
     \<and> network (authority s) \<in> set NETWORK_ORDER \<and> min_assurance s \<in> set ASSURANCE_ORDER
     \<and> wf_ceiling (wall_time_ms (resources s)) \<and> wf_ceiling (memory_bytes (resources s))
     \<and> wf_ceiling (syscalls (resources s)) \<and> wf_ceiling (tokens (resources s))"

lemma enum_of_Inr: "enum_of sec key order dflt = Inr x \<Longrightarrow> x \<in> set order"
  by (auto simp: enum_of_def Let_def split: pyval.splits if_splits)

lemma opt_int_Inr: "opt_int sec key = Inr c \<Longrightarrow> wf_ceiling c"
  by (auto simp: opt_int_def wf_ceiling_def split: pyval.splits if_splits)

lemma strings_of_map [simp]: "strings_of (map PStr xs) = Some xs"
  by (induction xs) simp_all

lemma visibility_of_wf:
  "visibility_of vis = Inr v \<Longrightarrow> filesystem v \<in> set FILESYSTEM_ORDER \<and> env_mode v \<in> set ENV_ORDER"
  by (auto simp: visibility_of_def bind_result_Inr dest: enum_of_Inr)

lemma resources_of_wf:
  "resources_of res = Inr r \<Longrightarrow> wf_ceiling (wall_time_ms r) \<and> wf_ceiling (memory_bytes r)
     \<and> wf_ceiling (syscalls r) \<and> wf_ceiling (tokens r)"
  by (auto simp: resources_of_def bind_result_Inr dest: opt_int_Inr)

lemma spec_from_dict_wf:
  assumes "spec_from_dict raw = Inr s"
  shows "wf_spec s"
proof (cases raw)
  case (PDict d)
  then obtain vis auth res least egress sub v net r where
    "sections_of d = Inr (vis, auth, res)"
    and l: "enum_of d ''min_assurance'' ASSURANCE_ORDER ASSURANCE_INSECURE_DEV = Inr least"
    and v: "visibility_of vis = Inr v" and n: "enum_of auth ''network'' NETWORK_ORDER NET_OPEN = Inr net"
    and r: "resources_of res = Inr r"
    and s: "s = \<lparr>visibility = v, authority = \<lparr>network = net, egress_scope = egress, subprocess = sub\<rparr>,
                 resources = r, min_assurance = least\<rparr>"
    using assms by (auto simp: spec_from_dict_def bind_result_Inr)
  then show ?thesis
    using enum_of_Inr [OF l] enum_of_Inr [OF n] visibility_of_wf [OF v] resources_of_wf [OF r]
    by (simp add: wf_spec_def)
qed (use assms in \<open>simp_all add: spec_from_dict_def\<close>)

lemma opt_int_back:
  assumes "dget sec key = Some (opt_int_value c)" "wf_ceiling c"
  shows "opt_int sec key = Inr c"
  using assms by (simp add: opt_int_def opt_int_value_def wf_ceiling_def pget_def dget_or_def split: option.splits)

lemma enum_of_value: "dget sec key = Some (PStr x) \<Longrightarrow> x \<in> set order \<Longrightarrow> enum_of sec key order dflt = Inr x"
  by (simp add: enum_of_def dget_or_def)

lemma tuple_of_value: "pget sec key = PList (map PStr xs) \<Longrightarrow> tuple_of sec key = Inr xs"
  by (simp add: tuple_of_def Let_def)

lemma spec_to_from_dict:
  assumes "wf_spec s"
  shows "spec_from_dict (spec_to_dict s) = Inr s"
proof -
  let ?v = "visibility s" and ?a = "authority s" and ?r = "resources s"
  obtain d vis auth res where d: "spec_to_dict s = PDict d"
    and vis: "vis = [(''filesystem'', PStr (filesystem ?v)), (''filesystem_roots'', PList (map PStr (filesystem_roots ?v))),
        (''env'', PStr (env_mode ?v)), (''env_allow'', PList (map PStr (env_allow ?v)))]"
    and auth: "auth = [(''network'', PStr (network ?a)),
        (''egress_scope'', case egress_scope ?a of None \<Rightarrow> PNone | Some x \<Rightarrow> PStr x), (''subprocess'', PBool (subprocess ?a))]"
    and res: "res = [(''wall_time_ms'', opt_int_value (wall_time_ms ?r)), (''memory_bytes'', opt_int_value (memory_bytes ?r)),
        (''syscalls'', opt_int_value (syscalls ?r)), (''tokens'', opt_int_value (tokens ?r))]"
    and dd: "d = [(''visibility'', PDict vis), (''authority'', PDict auth), (''resources'', PDict res),
        (''min_assurance'', PStr (min_assurance s))]"
    by (simp add: spec_to_dict_def)
  have 1: "sections_of d = Inr (vis, auth, res)"
    by (simp add: sections_of_def section_of_def pget_def dget_or_def dd vis auth res)
  have 2: "enum_of d ''min_assurance'' ASSURANCE_ORDER ASSURANCE_INSECURE_DEV = Inr (min_assurance s)"
    by (rule enum_of_value) (use assms in \<open>simp_all add: wf_spec_def dd\<close>)
  have 3: "visibility_of vis = Inr ?v"
    using assms by (simp add: visibility_of_def wf_spec_def enum_of_value tuple_of_value pget_def dget_or_def vis)
  have 4: "enum_of auth ''network'' NETWORK_ORDER NET_OPEN = Inr (network ?a)"
    by (rule enum_of_value) (use assms in \<open>simp_all add: wf_spec_def auth\<close>)
  have 5: "egress_of auth = Inr (egress_scope ?a)" "subprocess_of auth = Inr (subprocess ?a)"
    by (simp_all add: egress_of_def subprocess_of_def pget_def dget_or_def auth split: option.splits)
  have "opt_int res ''wall_time_ms'' = Inr (wall_time_ms ?r)" "opt_int res ''memory_bytes'' = Inr (memory_bytes ?r)"
    "opt_int res ''syscalls'' = Inr (syscalls ?r)" "opt_int res ''tokens'' = Inr (tokens ?r)"
    by (rule opt_int_back; use assms in \<open>simp add: wf_spec_def res\<close>)+
  then have 6: "resources_of res = Inr ?r" by (simp add: resources_of_def)
  show ?thesis using 1 2 3 4 5 6 by (simp add: spec_from_dict_def d)
qed


section \<open>The clamp as a meet\<close>

definition level :: "string list \<Rightarrow> string \<Rightarrow> nat" where
  "level order x = (case tuple_index order x of None \<Rightarrow> 0 | Some i \<Rightarrow> i)"

definition ceiling_le :: "int option \<Rightarrow> int option \<Rightarrow> bool" where
  "ceiling_le a b = (case b of None \<Rightarrow> True | Some c \<Rightarrow> (case a of None \<Rightarrow> False | Some d \<Rightarrow> d \<le> c))"

text \<open>\<open>a\<close> asks for at least the confinement of \<open>b\<close> on every axis the clamp compares.\<close>

definition confines :: "ExecutionEnvironmentSpec \<Rightarrow> ExecutionEnvironmentSpec \<Rightarrow> bool" where
  "confines a b \<longleftrightarrow>
     level FILESYSTEM_ORDER (filesystem (visibility a)) \<le> level FILESYSTEM_ORDER (filesystem (visibility b))
   \<and> level ENV_ORDER (env_mode (visibility a)) \<le> level ENV_ORDER (env_mode (visibility b))
   \<and> level NETWORK_ORDER (network (authority a)) \<le> level NETWORK_ORDER (network (authority b))
   \<and> (subprocess (authority a) \<longrightarrow> subprocess (authority b))
   \<and> ceiling_le (wall_time_ms (resources a)) (wall_time_ms (resources b))
   \<and> ceiling_le (memory_bytes (resources a)) (memory_bytes (resources b))
   \<and> ceiling_le (syscalls (resources a)) (syscalls (resources b))
   \<and> ceiling_le (tokens (resources a)) (tokens (resources b))
   \<and> assurance_rank (min_assurance b) \<le> assurance_rank (min_assurance a)"

definition root_allowed :: "(string \<Rightarrow> string) \<Rightarrow> ExecutionEnvironmentSpec \<Rightarrow> string \<Rightarrow> bool" where
  "root_allowed canon flr r \<longleftrightarrow> filesystem (visibility flr) = FS_HOST
     \<or> list_ex (\<lambda>f. f \<noteq> [] \<and> path_within (canon r) (canon f)) (filesystem_roots (visibility flr))"

lemma tuple_index_None: "tuple_index xs x = None \<longleftrightarrow> x \<notin> set xs"
  by (induction xs) auto

lemma tuple_index_Some: "tuple_index xs x = Some i \<Longrightarrow> i < length xs \<and> xs ! i = x"
  by (induction xs arbitrary: i) (auto split: if_splits)

lemma tuple_index_nth: "distinct xs \<Longrightarrow> i < length xs \<Longrightarrow> tuple_index xs (xs ! i) = Some i"
  by (induction xs arbitrary: i) (auto simp: nth_Cons split: nat.splits)

lemma narrower_meet:
  assumes "distinct order" "d \<in> set order" "f \<in> set order"
  obtains e where "narrower order d f = Inr (e, level order f < level order d)" "e \<in> set order"
    "level order e = min (level order d) (level order f)" "level order d \<le> level order f \<Longrightarrow> e = d"
    "e = d \<or> e = f"
proof -
  from assms(2,3) obtain i j where ij: "tuple_index order d = Some i" "tuple_index order f = Some j"
    using tuple_index_None [of order] by (metis not_None_eq)
  note i = tuple_index_Some [OF ij(1)] and j = tuple_index_Some [OF ij(2)]
  have "tuple_index order (order ! min i j) = Some (min i j)"
    using tuple_index_nth [OF assms(1)] i j by (simp add: min_def)
  then show ?thesis
    using ij i j by (intro that [of "order ! min i j"]) (auto simp: narrower_def level_def min_def)
qed

lemma narrower_int_meet:
  "ceiling_le (fst (narrower_int d f)) d" "ceiling_le (fst (narrower_int d f)) f"
  "snd (narrower_int d f) \<Longrightarrow> \<not> ceiling_le d f" "wf_ceiling d \<Longrightarrow> wf_ceiling f \<Longrightarrow> wf_ceiling (fst (narrower_int d f))"
  "d \<noteq> None \<Longrightarrow> snd (narrower_int d f) \<longleftrightarrow> \<not> ceiling_le d f"
  by (auto simp: narrower_int_def ceiling_le_def wf_ceiling_def split: option.splits)

lemma narrower_int_id: "ceiling_le d f \<Longrightarrow> narrower_int d f = (d, False)"
  by (auto simp: narrower_int_def ceiling_le_def split: option.splits)

lemma distinct_orders: "distinct FILESYSTEM_ORDER" "distinct ENV_ORDER" "distinct NETWORK_ORDER"
  by (simp_all add: axis_defs)

lemma clamp_roots_kept:
  assumes "clamp_roots canon mode roots flr = (kept, w)"
  shows "set kept \<subseteq> set roots" "[] \<notin> set kept"
    "mode \<noteq> FS_NONE \<Longrightarrow> mode \<noteq> FS_HOST \<Longrightarrow> r \<in> set kept \<Longrightarrow> root_allowed canon flr r"
  using assms
  by (auto simp: clamp_roots_def Let_def root_allowed_def list_ex_iff split: if_splits)

lemma clamp_roots_id:
  assumes "[] \<notin> set roots" "mode \<noteq> FS_NONE \<Longrightarrow> mode \<noteq> FS_HOST \<Longrightarrow> list_all (root_allowed canon flr) roots"
  shows "clamp_roots canon mode roots flr = (roots, False)"
proof -
  have "filter (\<lambda>r. r \<noteq> []) roots = roots" using assms(1) by (auto simp: filter_id_conv)
  moreover have "filter (\<lambda>r. list_ex (\<lambda>f. path_within (canon r) f)
        (map canon (filter (\<lambda>r. r \<noteq> []) (filesystem_roots (visibility flr))))) roots = roots"
    if "mode \<noteq> FS_NONE" "mode \<noteq> FS_HOST" "filesystem (visibility flr) \<noteq> FS_HOST"
    using assms(2) [OF that(1,2)] that(3)
    by (fastforce simp: filter_id_conv list_all_iff list_ex_iff root_allowed_def)
  ultimately show ?thesis by (auto simp: clamp_roots_def Let_def)
qed


text \<open>The fields in which a declaration asks for more than a floor grants.\<close>

definition ceiling_exceeds :: "int option \<Rightarrow> int option \<Rightarrow> bool" where
  "ceiling_exceeds d f \<longleftrightarrow> d \<noteq> None \<and> \<not> ceiling_le d f"

definition roots_exceed :: "(string \<Rightarrow> string) \<Rightarrow> ExecutionEnvironmentSpec \<Rightarrow> ExecutionEnvironmentSpec \<Rightarrow> bool" where
  "roots_exceed canon d f \<longleftrightarrow>
     filesystem (visibility d) \<noteq> FS_NONE \<and> filesystem (visibility f) \<noteq> FS_NONE
   \<and> \<not> list_all (\<lambda>r. r = [] \<or> root_allowed canon f r) (filesystem_roots (visibility d))"

definition exceeds :: "(string \<Rightarrow> string) \<Rightarrow> ExecutionEnvironmentSpec \<Rightarrow> ExecutionEnvironmentSpec \<Rightarrow> string \<Rightarrow> bool" where
  "exceeds canon d f field \<longleftrightarrow>
     field = ''visibility.filesystem''
       \<and> level FILESYSTEM_ORDER (filesystem (visibility f)) < level FILESYSTEM_ORDER (filesystem (visibility d))
   \<or> field = ''visibility.filesystem_roots'' \<and> roots_exceed canon d f
   \<or> field = ''visibility.env'' \<and> level ENV_ORDER (env_mode (visibility f)) < level ENV_ORDER (env_mode (visibility d))
   \<or> field = ''authority.network''
       \<and> level NETWORK_ORDER (network (authority f)) < level NETWORK_ORDER (network (authority d))
   \<or> field = ''authority.subprocess'' \<and> subprocess (authority d) \<and> \<not> subprocess (authority f)
   \<or> field = ''resources.wall_time_ms'' \<and> ceiling_exceeds (wall_time_ms (resources d)) (wall_time_ms (resources f))
   \<or> field = ''resources.memory_bytes'' \<and> ceiling_exceeds (memory_bytes (resources d)) (memory_bytes (resources f))
   \<or> field = ''resources.syscalls'' \<and> ceiling_exceeds (syscalls (resources d)) (syscalls (resources f))
   \<or> field = ''resources.tokens'' \<and> ceiling_exceeds (tokens (resources d)) (tokens (resources f))"

lemma length_filter_neq: "length (filter P xs) \<noteq> length xs \<longleftrightarrow> \<not> list_all P xs"
proof (induction xs)
  case (Cons x xs)
  have "length (filter P xs) \<noteq> Suc (length xs)" using length_filter_le [of P xs] by linarith
  then show ?case using Cons by simp
qed simp

lemma narrower_int_snd: "snd (narrower_int d f) = ceiling_exceeds d f"
  by (auto simp: narrower_int_def ceiling_exceeds_def ceiling_le_def split: option.splits)



lemma fs_level:
  assumes "x \<in> set FILESYSTEM_ORDER"
  shows "level FILESYSTEM_ORDER x = 0 \<longleftrightarrow> x = FS_NONE" "level FILESYSTEM_ORDER x = 3 \<longleftrightarrow> x = FS_HOST"
    "level FILESYSTEM_ORDER x \<le> 3"
  using assms by (auto simp: axis_defs level_def)

lemma clamp_roots_exceed:
  assumes "mode = filesystem (visibility d) \<or> mode = filesystem (visibility f)"
    and "level FILESYSTEM_ORDER mode = min (level FILESYSTEM_ORDER (filesystem (visibility d)))
           (level FILESYSTEM_ORDER (filesystem (visibility f)))"
    and "wf_spec d" "wf_spec f"
  shows "snd (clamp_roots canon mode (filesystem_roots (visibility d)) f) = roots_exceed canon d f"
proof -
  let ?roots = "filesystem_roots (visibility d)" and ?d = "filesystem (visibility d)" and ?f = "filesystem (visibility f)"
  have m: "mode \<in> set FILESYSTEM_ORDER" "?d \<in> set FILESYSTEM_ORDER" "?f \<in> set FILESYSTEM_ORDER"
    using assms(1,3,4) unfolding wf_spec_def by blast+
  have none: "mode = FS_NONE \<longleftrightarrow> ?d = FS_NONE \<or> ?f = FS_NONE"
    using assms(2) fs_level(1) [OF m(1)] fs_level(1) [OF m(2)] fs_level(1) [OF m(3)] by (metis min_0L min_0R min_def)
  have host: "mode = FS_HOST \<Longrightarrow> ?f = FS_HOST"
    using assms(2) fs_level(2) [OF m(1)] fs_level(2,3) [OF m(3)] by linarith
  let ?rs = "filter (\<lambda>r. r \<noteq> []) ?roots"
  let ?P = "\<lambda>r. list_ex (\<lambda>f. path_within (canon r) f) (map canon (filter (\<lambda>r. r \<noteq> []) (filesystem_roots (visibility f))))"
  show ?thesis
  proof (cases "mode = FS_NONE \<or> ?f = FS_HOST \<or> ?rs = []")
    case True
    moreover have "?rs = [] \<Longrightarrow> \<not> roots_exceed canon d f"
      by (auto simp: roots_exceed_def filter_empty_conv list_all_iff)
    moreover have "?f = FS_HOST \<Longrightarrow> \<not> roots_exceed canon d f"
      by (simp add: roots_exceed_def root_allowed_def list_all_iff)
    moreover have "mode = FS_NONE \<Longrightarrow> \<not> roots_exceed canon d f" using none by (auto simp: roots_exceed_def)
    ultimately show ?thesis by (auto simp: clamp_roots_def Let_def)
  next
    case False
    have "snd (clamp_roots canon mode ?roots f) \<longleftrightarrow> length (filter ?P ?rs) \<noteq> length ?rs"
      using False host by (auto simp: clamp_roots_def Let_def simp del: filter_filter)
    also have "\<dots> \<longleftrightarrow> \<not> list_all ?P ?rs" by (rule length_filter_neq)
    also have "\<dots> \<longleftrightarrow> roots_exceed canon d f"
      using False none by (auto simp: list_all_iff list_ex_iff root_allowed_def roots_exceed_def)
    finally show ?thesis .
  qed
qed

lemma exceeds_simps:
  "exceeds canon d f ''visibility.filesystem'' \<longleftrightarrow>
     level FILESYSTEM_ORDER (filesystem (visibility f)) < level FILESYSTEM_ORDER (filesystem (visibility d))"
  "exceeds canon d f ''visibility.filesystem_roots'' \<longleftrightarrow> roots_exceed canon d f"
  "exceeds canon d f ''visibility.env'' \<longleftrightarrow>
     level ENV_ORDER (env_mode (visibility f)) < level ENV_ORDER (env_mode (visibility d))"
  "exceeds canon d f ''authority.network'' \<longleftrightarrow>
     level NETWORK_ORDER (network (authority f)) < level NETWORK_ORDER (network (authority d))"
  "exceeds canon d f ''authority.subprocess'' \<longleftrightarrow> subprocess (authority d) \<and> \<not> subprocess (authority f)"
  "exceeds canon d f ''resources.wall_time_ms'' \<longleftrightarrow> ceiling_exceeds (wall_time_ms (resources d)) (wall_time_ms (resources f))"
  "exceeds canon d f ''resources.memory_bytes'' \<longleftrightarrow> ceiling_exceeds (memory_bytes (resources d)) (memory_bytes (resources f))"
  "exceeds canon d f ''resources.syscalls'' \<longleftrightarrow> ceiling_exceeds (syscalls (resources d)) (syscalls (resources f))"
  "exceeds canon d f ''resources.tokens'' \<longleftrightarrow> ceiling_exceeds (tokens (resources d)) (tokens (resources f))"
  by (simp_all add: exceeds_def)

lemma filter_append_if: "filter P (x # xs) = (if P x then [x] else []) @ filter P xs"
  by simp

definition CLAMPED_FIELDS :: "string list" where
  "CLAMPED_FIELDS = [''visibility.filesystem'', ''visibility.filesystem_roots'', ''visibility.env'', ''authority.network'',
     ''authority.subprocess'', ''resources.wall_time_ms'', ''resources.memory_bytes'', ''resources.syscalls'', ''resources.tokens'']"

lemma clamp_to_floor_fields:
  assumes "wf_spec d" "wf_spec f"
  obtains eff where "clamp_to_floor canon d f = Inr (eff, filter (exceeds canon d f) CLAMPED_FIELDS)"
    "filesystem (visibility eff) \<in> set FILESYSTEM_ORDER" "level FILESYSTEM_ORDER (filesystem (visibility eff)) =
       min (level FILESYSTEM_ORDER (filesystem (visibility d))) (level FILESYSTEM_ORDER (filesystem (visibility f)))"
    "env_mode (visibility eff) \<in> set ENV_ORDER" "level ENV_ORDER (env_mode (visibility eff)) =
       min (level ENV_ORDER (env_mode (visibility d))) (level ENV_ORDER (env_mode (visibility f)))"
    "network (authority eff) \<in> set NETWORK_ORDER" "level NETWORK_ORDER (network (authority eff)) =
       min (level NETWORK_ORDER (network (authority d))) (level NETWORK_ORDER (network (authority f)))"
    "filesystem_roots (visibility eff) = fst (clamp_roots canon (filesystem (visibility eff)) (filesystem_roots (visibility d)) f)"
    "subprocess (authority eff) \<longleftrightarrow> subprocess (authority d) \<and> subprocess (authority f)"
    "wall_time_ms (resources eff) = fst (narrower_int (wall_time_ms (resources d)) (wall_time_ms (resources f)))"
    "memory_bytes (resources eff) = fst (narrower_int (memory_bytes (resources d)) (memory_bytes (resources f)))"
    "syscalls (resources eff) = fst (narrower_int (syscalls (resources d)) (syscalls (resources f)))"
    "tokens (resources eff) = fst (narrower_int (tokens (resources d)) (tokens (resources f)))"
    "min_assurance eff = (if assurance_rank (min_assurance d) < assurance_rank (min_assurance f)
       then min_assurance f else min_assurance d)"
    "env_allow (visibility eff) = env_allow (visibility d)" "egress_scope (authority eff) = egress_scope (authority d)"
proof -
  have w: "filesystem (visibility d) \<in> set FILESYSTEM_ORDER" "filesystem (visibility f) \<in> set FILESYSTEM_ORDER"
    "env_mode (visibility d) \<in> set ENV_ORDER" "env_mode (visibility f) \<in> set ENV_ORDER"
    "network (authority d) \<in> set NETWORK_ORDER" "network (authority f) \<in> set NETWORK_ORDER"
    using assms by (simp_all add: wf_spec_def)
  obtain fs where fs: "narrower FILESYSTEM_ORDER (filesystem (visibility d)) (filesystem (visibility f)) =
      Inr (fs, level FILESYSTEM_ORDER (filesystem (visibility f)) < level FILESYSTEM_ORDER (filesystem (visibility d)))"
    "fs \<in> set FILESYSTEM_ORDER" "level FILESYSTEM_ORDER fs =
       min (level FILESYSTEM_ORDER (filesystem (visibility d))) (level FILESYSTEM_ORDER (filesystem (visibility f)))"
    "fs = filesystem (visibility d) \<or> fs = filesystem (visibility f)"
    by (rule narrower_meet [OF distinct_orders(1) w(1,2)])
  obtain em where em: "narrower ENV_ORDER (env_mode (visibility d)) (env_mode (visibility f)) =
      Inr (em, level ENV_ORDER (env_mode (visibility f)) < level ENV_ORDER (env_mode (visibility d)))"
    "em \<in> set ENV_ORDER" "level ENV_ORDER em = min (level ENV_ORDER (env_mode (visibility d))) (level ENV_ORDER (env_mode (visibility f)))"
    by (rule narrower_meet [OF distinct_orders(2) w(3,4)])
  obtain net where net: "narrower NETWORK_ORDER (network (authority d)) (network (authority f)) =
      Inr (net, level NETWORK_ORDER (network (authority f)) < level NETWORK_ORDER (network (authority d)))"
    "net \<in> set NETWORK_ORDER" "level NETWORK_ORDER net = min (level NETWORK_ORDER (network (authority d))) (level NETWORK_ORDER (network (authority f)))"
    by (rule narrower_meet [OF distinct_orders(3) w(5,6)])
  note r = clamp_roots_exceed [OF fs(4,3) assms, of canon]
  let ?eff = "d\<lparr>visibility := (visibility d)\<lparr>filesystem := fs,
                filesystem_roots := fst (clamp_roots canon fs (filesystem_roots (visibility d)) f), env_mode := em\<rparr>,
              authority := (authority d)\<lparr>network := net, subprocess := subprocess (authority d) \<and> subprocess (authority f)\<rparr>,
              resources := \<lparr>wall_time_ms = fst (narrower_int (wall_time_ms (resources d)) (wall_time_ms (resources f))),
                memory_bytes = fst (narrower_int (memory_bytes (resources d)) (memory_bytes (resources f))),
                syscalls = fst (narrower_int (syscalls (resources d)) (syscalls (resources f))),
                tokens = fst (narrower_int (tokens (resources d)) (tokens (resources f)))\<rparr>,
              min_assurance := (if assurance_rank (min_assurance d) < assurance_rank (min_assurance f)
                then min_assurance f else min_assurance d)\<rparr>"
  have "clamp_to_floor canon d f = Inr (?eff, filter (exceeds canon d f) CLAMPED_FIELDS)"
    by (simp only: clamp_to_floor_def CLAMPED_FIELDS_def fs(1) em(1) net(1) split_beta Let_def r narrower_int_snd exceeds_simps
        filter_append_if filter.simps(1) append_Nil2 bind_result_simps fst_conv snd_conv)
  then show ?thesis by (rule that [of ?eff]) (use fs(2,3) em(2,3) net(2,3) in simp_all)
qed

lemma narrower_int_greatest: "ceiling_le c d \<Longrightarrow> ceiling_le c f \<Longrightarrow> ceiling_le c (fst (narrower_int d f))"
  by (auto simp: narrower_int_def ceiling_le_def split: option.splits)

lemma exceeds_field: "exceeds canon d f field \<Longrightarrow> field \<in> set CLAMPED_FIELDS"
  unfolding exceeds_def CLAMPED_FIELDS_def by (elim disjE conjE) simp_all

lemma rank_order: "x \<in> set ASSURANCE_ORDER \<Longrightarrow> 0 \<le> assurance_rank x"
  using tuple_index_None [of ASSURANCE_ORDER x] by (auto simp: assurance_rank_def split: option.splits)

lemma clamp_facts:
  assumes "wf_spec d" "wf_spec f" "clamp_to_floor canon d f = Inr (eff, w)"
  shows "wf_spec eff" "confines eff d" "confines eff f"
    "set (filesystem_roots (visibility eff)) \<subseteq> set (filesystem_roots (visibility d)) - {[]}"
    "filesystem (visibility eff) \<noteq> FS_NONE \<Longrightarrow> filesystem (visibility eff) \<noteq> FS_HOST \<Longrightarrow>
       list_all (root_allowed canon f) (filesystem_roots (visibility eff))"
    "field \<in> set w \<longleftrightarrow> exceeds canon d f field"
    "env_allow (visibility eff) = env_allow (visibility d)" "egress_scope (authority eff) = egress_scope (authority d)"
    "memory_bytes (resources eff) = fst (narrower_int (memory_bytes (resources d)) (memory_bytes (resources f)))"
    "confines c d \<Longrightarrow> confines c f \<Longrightarrow> confines c eff"
proof (atomize (full), rule clamp_to_floor_fields [OF assms(1,2), of canon], goal_cases)
  case (1 e)
  then have e: "e = eff" "w = filter (exceeds canon d f) CLAMPED_FIELDS" using assms(3) by simp_all
  note facts = 1 [unfolded e]
  note r = clamp_roots_kept [where canon = canon and mode = "filesystem (visibility eff)"
      and roots = "filesystem_roots (visibility d)" and flr = f, OF surjective_pairing]
  show ?case
  proof (intro conjI impI)
    show "wf_spec eff" using assms(1,2) facts by (simp add: wf_spec_def narrower_int_meet(4))
    show "confines eff d" "confines eff f" using facts by (simp_all add: confines_def narrower_int_meet)
    show "set (filesystem_roots (visibility eff)) \<subseteq> set (filesystem_roots (visibility d)) - {[]}"
      using r(1,2) facts by auto
    show "list_all (root_allowed canon f) (filesystem_roots (visibility eff))"
      if "filesystem (visibility eff) \<noteq> FS_NONE" "filesystem (visibility eff) \<noteq> FS_HOST"
      using that r(3) facts by (simp add: list_all_iff)
    show "field \<in> set w \<longleftrightarrow> exceeds canon d f field"
      using exceeds_field [of canon d f field] unfolding e(2) by (simp only: set_filter mem_Collect_eq) blast
    show "confines c eff" if "confines c d" "confines c f"
      using that facts by (auto simp: confines_def narrower_int_greatest)
  qed (use facts in simp_all)
qed


lemma level_inj: "x \<in> set order \<Longrightarrow> y \<in> set order \<Longrightarrow> level order x = level order y \<Longrightarrow> x = y"
proof -
  assume "x \<in> set order" "y \<in> set order" and l: "level order x = level order y"
  then obtain i j where ij: "tuple_index order x = Some i" "tuple_index order y = Some j"
    using tuple_index_None by (metis not_None_eq)
  then have "i = j" using l by (simp add: level_def)
  then show "x = y" using tuple_index_Some [OF ij(1)] tuple_index_Some [OF ij(2)] by simp
qed

lemma confined_not_exceeds:
  assumes "confines d f" "\<not> roots_exceed canon d f"
  shows "\<not> exceeds canon d f field"
  using assms unfolding exceeds_def confines_def ceiling_exceeds_def by linarith

lemma clamp_id:
  assumes "wf_spec d" "wf_spec f" "confines d f" "[] \<notin> set (filesystem_roots (visibility d))"
    and "filesystem (visibility d) \<noteq> FS_NONE \<Longrightarrow> filesystem (visibility d) \<noteq> FS_HOST \<Longrightarrow>
       list_all (root_allowed canon f) (filesystem_roots (visibility d))"
  shows "clamp_to_floor canon d f = Inr (d, [])"
proof (rule clamp_to_floor_fields [OF assms(1,2), of canon], goal_cases)
  case (1 e)
  have m: "filesystem (visibility d) \<in> set FILESYSTEM_ORDER" "env_mode (visibility d) \<in> set ENV_ORDER"
    "network (authority d) \<in> set NETWORK_ORDER" "filesystem (visibility f) \<in> set FILESYSTEM_ORDER"
    using assms(1,2) by (simp_all add: wf_spec_def)
  note c = assms(3) [unfolded confines_def]
  have fs: "filesystem (visibility e) = filesystem (visibility d)"
    by (rule level_inj [OF 1(2) m(1)]) (use 1(3) c in simp)
  have em: "env_mode (visibility e) = env_mode (visibility d)" by (rule level_inj [OF 1(4) m(2)]) (use 1(5) c in simp)
  have net: "network (authority e) = network (authority d)" by (rule level_inj [OF 1(6) m(3)]) (use 1(7) c in simp)
  have roots: "filesystem_roots (visibility e) = filesystem_roots (visibility d)"
    using 1(8) clamp_roots_id [OF assms(4,5)] fs by simp
  have "filesystem (visibility d) = FS_HOST \<Longrightarrow> filesystem (visibility f) = FS_HOST"
    using c fs_level(2) [OF m(1)] fs_level(2,3) [OF m(4)] by linarith
  then have re: "\<not> roots_exceed canon d f"
    using assms(5) by (auto simp: roots_exceed_def root_allowed_def list_all_iff)
  have "e = d"
    using 1 c fs em net roots by (intro ExecutionEnvironmentSpec.equality Visibility.equality Authority.equality Resources.equality)
      (auto simp: narrower_int_id)
  moreover have "filter (exceeds canon d f) CLAMPED_FIELDS = []"
    using confined_not_exceeds [OF assms(3) re] by (simp add: filter_empty_conv)
  ultimately show ?case using 1(1) by simp
qed


section \<open>Properties\<close>


definition sample_declared :: ExecutionEnvironmentSpec where
  "sample_declared = default_spec\<lparr>
     visibility := \<lparr>filesystem = FS_SCOPED, filesystem_roots = [''/srv/data'', ''/etc''], env_mode = ENV_INHERIT, env_allow = [''KEY'']\<rparr>,
     resources := default_Resources\<lparr>memory_bytes := Some 0\<rparr>,
     min_assurance := ASSURANCE_CONTAINER\<rparr>"

definition sample_floor :: ExecutionEnvironmentSpec where
  "sample_floor = GUEST_FLOOR\<lparr>visibility := (visibility GUEST_FLOOR)\<lparr>filesystem_roots := [''/srv'']\<rparr>\<rparr>"


text \<open>
  C29. What the reader of a declaration accepts is well formed, and writing it out and reading it again
  gives the same spec.
\<close>

theorem accepted_spec_well_formed:
  assumes "spec_from_dict raw = Inr s"
  shows "wf_spec s \<and> spec_from_dict (spec_to_dict s) = Inr s"
  using spec_from_dict_wf [OF assms] spec_to_from_dict by simp

theorem accepted_spec_well_formed_witness:
  "\<exists>s. spec_from_dict (PDict [(''visibility'', PDict [(''filesystem'', PStr ''none'')]), (''resources'', PDict [(''tokens'', PInt 5)])]) = Inr s
     \<and> wf_spec s \<and> spec_from_dict (spec_to_dict s) = Inr s"
proof -
  let ?raw = "PDict [(''visibility'', PDict [(''filesystem'', PStr ''none'')]), (''resources'', PDict [(''tokens'', PInt 5)])]"
  let ?s = "default_spec\<lparr>visibility := default_Visibility\<lparr>filesystem := FS_NONE\<rparr>, resources := default_Resources\<lparr>tokens := Some 5\<rparr>\<rparr>"
  have "spec_from_dict ?raw = Inr ?s" by code_simp
  with accepted_spec_well_formed [OF this] show ?thesis by blast
qed




lemma guest_floor_wf: "guest_memory_floor_bytes float_of ev = Some m \<Longrightarrow> 0 < m \<Longrightarrow> wf_spec (guest_floor float_of ev)"
  by (simp add: guest_floor_def wf_spec_def wf_ceiling_def GUEST_FLOOR_def default_spec_def default_Visibility_def
      default_Authority_def default_Resources_def axis_defs)

lemma guest_floor_memory: "guest_memory_floor_bytes float_of ev = Some m \<Longrightarrow> memory_bytes (resources (guest_floor float_of ev)) = Some m"
  by (simp add: guest_floor_def)

text \<open>
  A ceiling of zero lifts the operator's: when the operator bounds the memory of every guest and a
  submitted script declares a memory ceiling of zero bytes, the guest is started without any memory
  bound, where the same script without a declaration is bounded.
\<close>

theorem zero_ceiling_lifts_guest_memory_bound:
  assumes "guest_memory_floor_bytes float_of ev = Some m" "0 < m"
    and "pget p ''env_spec'' = raw" "truthy raw" "spec_from_dict raw = Inr d" "memory_bytes (resources d) = Some 0"
  shows "nk_max_memory (environment_kwargs canon float_of ev p scratch) = None
    \<and> nk_max_memory (environment_kwargs canon float_of ev [] scratch) = Some m"
proof -
  have wf: "wf_spec d" "wf_spec (guest_floor float_of ev)"
    using spec_from_dict_wf [OF assms(5)] guest_floor_wf [OF assms(1,2)] by simp_all
  obtain eff w where c: "clamp_to_floor canon d (guest_floor float_of ev) = Inr (eff, w)"
    by (rule clamp_to_floor_fields [OF wf, of canon]) simp
  have "memory_bytes (resources eff) = Some 0"
    using clamp_facts(9) [OF wf c] assms(2,6) guest_floor_memory [OF assms(1)] by (simp add: narrower_int_def)
  then show ?thesis
    using assms(2-5) c guest_floor_memory [OF assms(1)]
    by (simp add: environment_kwargs_def nodus_runtime_kwargs_def Let_def pget_def dget_or_def)
qed

theorem zero_ceiling_lifts_guest_memory_bound_witness:
  "nk_max_memory (environment_kwargs id (\<lambda>_. Some 512) (\<lambda>_. Some ''512'') [(''env_spec'', spec_to_dict sample_declared)] ''/tmp'') = None
     \<and> nk_max_memory (environment_kwargs id (\<lambda>_. Some 512) (\<lambda>_. Some ''512'') [] ''/tmp'') = Some 536870912"
proof -
  have "py_strip ''512'' = ''512''" by code_simp
  then have 1: "guest_memory_floor_bytes (\<lambda>_. Some 512) (\<lambda>_. Some ''512'') = Some 536870912"
    by (simp add: guest_memory_floor_bytes_def)
  have 2: "pget [(''env_spec'', spec_to_dict sample_declared)] ''env_spec'' = spec_to_dict sample_declared"
    by (simp add: pget_def dget_or_def)
  have 3: "truthy (spec_to_dict sample_declared)" "memory_bytes (resources sample_declared) = Some 0" "wf_spec sample_declared"
    by code_simp+
  from zero_ceiling_lifts_guest_memory_bound [OF 1 _ 2 3(1) spec_to_from_dict [OF 3(3)] 3(2)] show ?thesis by simp
qed

text \<open>
  The lists of names pass the clamp untouched: whatever the floor allows, the effective spec keeps
  the declared variables and the declared egress scope and reports neither, and a worker started
  under a floor that allows no environment at all still receives the declared variables.
\<close>

theorem declared_variables_pass_floor:
  assumes "wf_spec d" "wf_spec f" "clamp_to_floor canon d f = Inr (eff, w)"
    and "env_mode (visibility f) = ENV_NONE" "k \<in> set (env_allow (visibility d))" "(k, v) \<in> set environ"
  shows "egress_scope (authority eff) = egress_scope (authority d)
    \<and> ''visibility.env_allow'' \<notin> set w \<and> ''authority.egress_scope'' \<notin> set w
    \<and> env_mode (visibility eff) = ENV_NONE
    \<and> (\<exists>e. wk_env (subprocess_confinement environ eff scratch t) = Some e \<and> (k, v) \<in> set e)"
proof -
  note facts = clamp_facts [OF assms(1-3)]
  have "level ENV_ORDER (env_mode (visibility eff)) = 0"
    using facts(3) assms(4) by (simp add: confines_def level_def axis_defs)
  moreover have "level ENV_ORDER ENV_NONE = 0" "ENV_NONE \<in> set ENV_ORDER" by (simp_all add: level_def axis_defs)
  moreover have "env_mode (visibility eff) \<in> set ENV_ORDER" using facts(1) by (simp add: wf_spec_def)
  ultimately have "env_mode (visibility eff) = ENV_NONE" using level_inj [of _ ENV_ORDER] by metis
  moreover have "\<not> exceeds canon d f ''visibility.env_allow''" "\<not> exceeds canon d f ''authority.egress_scope''"
    by (simp_all add: exceeds_def)
  ultimately show ?thesis
    using facts(6) facts(7,8) assms(5,6) by (auto simp: subprocess_confinement_def)
qed


theorem declared_variables_pass_floor_witness:
  "\<exists>eff w e. clamp_to_floor id sample_declared GUEST_FLOOR = Inr (eff, w) \<and> env_mode (visibility eff) = ENV_NONE
     \<and> wk_env (subprocess_confinement [(''KEY'', ''secret'')] eff ''/tmp'' 0) = Some e \<and> (''KEY'', ''secret'') \<in> set e"
proof -
  have wf: "wf_spec sample_declared" "wf_spec GUEST_FLOOR" by code_simp+
  obtain eff w where c: "clamp_to_floor id sample_declared GUEST_FLOOR = Inr (eff, w)"
    by (rule clamp_to_floor_fields [OF wf, of id])
  have "env_mode (visibility GUEST_FLOOR) = ENV_NONE" "''KEY'' \<in> set (env_allow (visibility sample_declared))"
    by code_simp+
  from declared_variables_pass_floor [OF wf c this, of "''secret''" "[(''KEY'', ''secret'')]" "''/tmp''" 0] c
  show ?thesis by auto
qed

end
