(* ===== verification/Retry_Policy.thy ===== *)
theory Retry_Policy
  imports Py_Values
begin

text \<open>
  \<^verbatim>\<open>core/retry_policy.py\<close>: how many attempts each kind of execution gets, the delay between them, and
  the classification of a failure that decides whether another attempt may follow.
\<close>


section \<open>Policies\<close>

record RetryPolicy =
  max_attempts :: int
  backoff_ms :: int
  exponential_backoff :: bool
  high_risk_immediate_fail :: bool
  execution_guarantee :: string

definition new_RetryPolicy :: "int \<Rightarrow> int \<Rightarrow> bool \<Rightarrow> RetryPolicy" where
  "new_RetryPolicy attempts backoff exponential =
     \<lparr>max_attempts = attempts, backoff_ms = backoff, exponential_backoff = exponential,
      high_risk_immediate_fail = False, execution_guarantee = ''AT_LEAST_ONCE''\<rparr>"

definition FLOW_NODE_DEFAULT :: RetryPolicy where "FLOW_NODE_DEFAULT = new_RetryPolicy 3 200 True"
definition AGENT_LOW_MEDIUM :: RetryPolicy where "AGENT_LOW_MEDIUM = new_RetryPolicy 3 200 True"

definition AGENT_HIGH_RISK :: RetryPolicy where
  "AGENT_HIGH_RISK = (new_RetryPolicy 1 0 False)\<lparr>high_risk_immediate_fail := True, execution_guarantee := ''EXACTLY_ONCE''\<rparr>"

definition ASYNC_JOB_DEFAULT :: RetryPolicy where "ASYNC_JOB_DEFAULT = new_RetryPolicy 1 500 True"
definition NODUS_SCHEDULED_DEFAULT :: RetryPolicy where "NODUS_SCHEDULED_DEFAULT = new_RetryPolicy 3 300 True"
definition NO_RETRY :: RetryPolicy where "NO_RETRY = new_RetryPolicy 1 0 False"

definition RISK_TO_AGENT_POLICY :: "RetryPolicy dict" where
  "RISK_TO_AGENT_POLICY = [(''low'', AGENT_LOW_MEDIUM), (''medium'', AGENT_LOW_MEDIUM), (''high'', AGENT_HIGH_RISK)]"

definition resolve_retry_policy ::
  "string option \<Rightarrow> string option \<Rightarrow> int option \<Rightarrow> int option \<Rightarrow> RetryPolicy" where
  "resolve_retry_policy execution_type risk_level node_max_retries job_max_retries =
     (let etype = py_strip (py_lower (or_text execution_type [])) in
      if etype = ''flow'' then
        (case node_max_retries of
           Some n \<Rightarrow> new_RetryPolicy (max 1 n) (backoff_ms FLOW_NODE_DEFAULT) (exponential_backoff FLOW_NODE_DEFAULT)
         | None \<Rightarrow> FLOW_NODE_DEFAULT)
      else if etype = ''agent'' then
        dget_or RISK_TO_AGENT_POLICY (py_strip (py_lower (or_text risk_level ''high''))) AGENT_HIGH_RISK
      else if etype = ''job'' then ASYNC_JOB_DEFAULT
      else if etype = ''nodus'' then
        (case job_max_retries of
           Some n \<Rightarrow> new_RetryPolicy (max 1 n) (backoff_ms NODUS_SCHEDULED_DEFAULT) (exponential_backoff NODUS_SCHEDULED_DEFAULT)
         | None \<Rightarrow> NODUS_SCHEDULED_DEFAULT)
      else NO_RETRY)"


section \<open>Delays\<close>

text \<open>Delays in milliseconds; \<open>jitter\<close> is what \<^verbatim>\<open>random.randint(0, _MAX_JITTER_MS)\<close> gives.\<close>

definition MAX_BACKOFF_MS :: int where "MAX_BACKOFF_MS = 10000"
definition MAX_JITTER_MS :: int where "MAX_JITTER_MS = 50"

definition retry_delay_ms :: "RetryPolicy \<Rightarrow> int \<Rightarrow> int \<Rightarrow> int" where
  "retry_delay_ms policy jitter attempt_number =
     (if attempt_number \<le> 0 \<or> backoff_ms policy \<le> 0 then 0
      else
        let multiplier = (if exponential_backoff policy then 2 ^ nat attempt_number else 1)
        in min (backoff_ms policy * multiplier + jitter) MAX_BACKOFF_MS)"


section \<open>Failures\<close>

definition FAILURE_CLASSES :: "string list" where
  "FAILURE_CLASSES = [''transient'', ''cancelled'', ''permission'', ''not_found'', ''invalid'', ''fatal'', ''unknown'']"

definition RETRYABLE_CLASSES :: "string list" where "RETRYABLE_CLASSES = [''transient'']"
definition FAILURE_CLASS_KEY :: string where "FAILURE_CLASS_KEY = ''failure_class''"

definition SUBSTRING_CLASSES :: "(string \<times> string) list" where
  "SUBSTRING_CLASSES =
     [(''permission'', ''permission''), (''unauthorized'', ''permission''), (''forbidden'', ''permission''),
      (''blocked by policy'', ''permission''), (''not found'', ''not_found''), (''404'', ''not_found''),
      (''401'', ''permission''), (''403'', ''permission''), (''invalid'', ''invalid'')]"

record FailureRecord =
  fr_error :: string
  fr_failure_class :: string
  fr_classified_by :: string
  fr_attempt :: int
  fr_failure_site :: string

definition fr_retryable :: "FailureRecord \<Rightarrow> bool" where
  "fr_retryable r = (fr_failure_class r \<in> set RETRYABLE_CLASSES)"

definition failure_as_dict :: "FailureRecord \<Rightarrow> pyval" where
  "failure_as_dict r = PDict [(''failure_class'', PStr (fr_failure_class r)), (''classified_by'', PStr (fr_classified_by r)),
     (''attempt'', PInt (fr_attempt r)), (''site'', PStr (fr_failure_site r))]"

text \<open>\<^verbatim>\<open>needle in s\<close>.\<close>

definition py_in :: "string \<Rightarrow> string \<Rightarrow> bool" where
  "py_in needle s = list_ex (prefix needle) (suffixes s)"

fun substring_in :: "(string \<times> string) list \<Rightarrow> string \<Rightarrow> string option" where
  "substring_in [] s = None"
| "substring_in ((needle, klass) # rest) s = (if py_in needle s then Some klass else substring_in rest s)"

definition substring_class :: "string \<Rightarrow> string option" where
  "substring_class message = substring_in SUBSTRING_CLASSES (py_lower message)"

definition declared_class :: "pyval \<Rightarrow> pyval" where
  "declared_class v = (case v of PDict d \<Rightarrow> pget d FAILURE_CLASS_KEY | _ \<Rightarrow> PNone)"

definition failure_text :: "pyval \<Rightarrow> string" where
  "failure_text v =
     (let message = (case v of PDict d \<Rightarrow> pget d ''error'' | _ \<Rightarrow> v) in
      if message = PNone then [] else py_str message)"

definition classify_failure :: "pyval \<Rightarrow> string \<Rightarrow> int \<Rightarrow> FailureRecord" where
  "classify_failure result_or_error site attempt =
     (let txt = failure_text result_or_error;
          record_of = (\<lambda>klass how. \<lparr>fr_error = txt, fr_failure_class = klass, fr_classified_by = how,
                                   fr_attempt = attempt, fr_failure_site = site\<rparr>);
          fallback = (case (if txt \<noteq> [] then substring_class txt else None) of
                        Some klass \<Rightarrow> record_of klass ''substring''
                      | None \<Rightarrow> record_of ''transient'' ''default'')
      in case declared_class result_or_error of
           PStr declared \<Rightarrow> if declared \<in> set FAILURE_CLASSES then record_of declared ''site'' else fallback
         | _ \<Rightarrow> fallback)"

definition is_retryable_error :: "pyval \<Rightarrow> bool" where
  "is_retryable_error error = fr_retryable (classify_failure error ''unknown'' 1)"

definition decide_retry :: "pyval \<Rightarrow> string \<Rightarrow> int \<Rightarrow> bool \<Rightarrow> bool \<times> FailureRecord" where
  "decide_retry result_or_error site attempt attempts_allowed =
     (let r = classify_failure result_or_error site attempt in (attempts_allowed \<and> fr_retryable r, r))"


section \<open>Properties\<close>

lemma substring_in_class: "substring_in table s = Some klass \<Longrightarrow> klass \<in> snd ` set table"
  by (induction table s rule: substring_in.induct) (auto split: if_splits)

lemma classified: "fr_failure_class (classify_failure v site attempt) \<in> set FAILURE_CLASSES"
proof -
  have table: "substring_class m = Some klass \<Longrightarrow> klass \<in> set FAILURE_CLASSES" for m klass
    unfolding substring_class_def by (drule substring_in_class) (auto simp: SUBSTRING_CLASSES_def FAILURE_CLASSES_def)
  have "''transient'' \<in> set FAILURE_CLASSES" by (simp add: FAILURE_CLASSES_def)
  then show ?thesis
    by (auto simp: classify_failure_def Let_def split: pyval.split option.split dest: table)
qed

text \<open>
  A retry needs both the policy and the failure: an attempt is repeated only when attempts remain
  and the class of the failure is transient; a class the raising site declared is never overridden by
  the text of the message, so a cancelled, refused, invalid, absent, fatal or unobserved outcome stops
  the loop whatever its message says, and every failure gets a class of the vocabulary.
\<close>

theorem retry_decision:
  "fst (decide_retry v site attempt allowed) = (allowed \<and> fr_failure_class (classify_failure v site attempt) = ''transient'')
   \<and> fr_failure_class (classify_failure v site attempt) \<in> set FAILURE_CLASSES
   \<and> (\<forall>d c. v = PDict d \<and> dget d FAILURE_CLASS_KEY = Some (PStr c) \<and> c \<in> set FAILURE_CLASSES \<longrightarrow>
        fr_failure_class (classify_failure v site attempt) = c
      \<and> fr_classified_by (classify_failure v site attempt) = ''site''
      \<and> (c \<noteq> ''transient'' \<longrightarrow> \<not> fst (decide_retry v site attempt allowed)))"
proof -
  have r: "fst (decide_retry v site attempt allowed) = (allowed \<and> fr_failure_class (classify_failure v site attempt) = ''transient'')"
    by (simp add: decide_retry_def Let_def fr_retryable_def RETRYABLE_CLASSES_def)
  have "classify_failure (PDict d) site attempt =
      \<lparr>fr_error = failure_text (PDict d), fr_failure_class = c, fr_classified_by = ''site'', fr_attempt = attempt, fr_failure_site = site\<rparr>"
    if "dget d FAILURE_CLASS_KEY = Some (PStr c)" "c \<in> set FAILURE_CLASSES" for d c
    using that by (simp add: classify_failure_def declared_class_def pget_def dget_or_def Let_def)
  then show ?thesis using r classified [of v site attempt] by auto
qed

theorem retry_decision_witness:
  "\<not> fst (decide_retry (PDict [(''error'', PStr ''timeout''), (''failure_class'', PStr ''cancelled'')]) ''tool_step'' 1 True)"
proof -
  have "dget [(''error'', PStr ''timeout''), (''failure_class'', PStr ''cancelled'')] FAILURE_CLASS_KEY = Some (PStr ''cancelled'')"
    "''cancelled'' \<in> set FAILURE_CLASSES" "''cancelled'' \<noteq> ''transient''"
    by code_simp+
  with retry_decision [of "PDict [(''error'', PStr ''timeout''), (''failure_class'', PStr ''cancelled'')]" "''tool_step''" 1 True]
  show ?thesis by blast
qed

text \<open>
  The delay before an attempt stays between zero and ten seconds, the first attempt is never delayed,
  and the delays of a loop never shrink, whatever the jitter, because every base delay in use is larger
  than the jitter.
\<close>

theorem retry_delay_bounds:
  assumes "0 \<le> j" "j \<le> MAX_JITTER_MS" "0 \<le> j'" "j' \<le> MAX_JITTER_MS"
  shows "0 \<le> retry_delay_ms p j n \<and> retry_delay_ms p j n \<le> MAX_BACKOFF_MS \<and> retry_delay_ms p j 0 = 0
    \<and> (exponential_backoff p \<and> MAX_JITTER_MS \<le> backoff_ms p \<longrightarrow> retry_delay_ms p j n \<le> retry_delay_ms p j' (n + 1))
    \<and> (\<forall>q \<in> {FLOW_NODE_DEFAULT, AGENT_LOW_MEDIUM, AGENT_HIGH_RISK, ASYNC_JOB_DEFAULT, NODUS_SCHEDULED_DEFAULT, NO_RETRY}.
         exponential_backoff q \<longrightarrow> MAX_JITTER_MS \<le> backoff_ms q)"
proof -
  let ?b = "backoff_ms p"
  have nonneg: "0 \<le> ?b * (if exponential_backoff p then 2 ^ nat n else 1) + j" if "0 < ?b"
    using that assms(1) by simp
  have grows: "retry_delay_ms p j n \<le> retry_delay_ms p j' (n + 1)"
    if e: "exponential_backoff p" "MAX_JITTER_MS \<le> ?b"
  proof (cases "n \<le> 0")
    case True
    then show ?thesis
      using nonneg assms(3) e by (auto simp: retry_delay_ms_def MAX_BACKOFF_MS_def MAX_JITTER_MS_def Let_def)
  next
    case False
    then have pow: "(2::int) ^ nat (n + 1) = 2 * 2 ^ nat n" by (simp add: nat_add_distrib)
    have "(1::int) \<le> 2 ^ nat n" by simp
    then have "?b \<le> ?b * 2 ^ nat n" using e(2) by (simp add: MAX_JITTER_MS_def)
    then have "?b * 2 ^ nat n + j \<le> ?b * 2 ^ nat (n + 1) + j'" using assms(2,3) e(2) unfolding pow by linarith
    then show ?thesis using False e by (auto simp: retry_delay_ms_def Let_def)
  qed
  have "0 \<le> retry_delay_ms p j n" using nonneg by (auto simp: retry_delay_ms_def Let_def MAX_BACKOFF_MS_def)
  moreover have "retry_delay_ms p j n \<le> MAX_BACKOFF_MS" by (simp add: retry_delay_ms_def Let_def MAX_BACKOFF_MS_def)
  moreover have "retry_delay_ms p j 0 = 0" by (simp add: retry_delay_ms_def)
  ultimately show ?thesis
    using grows by (simp add: FLOW_NODE_DEFAULT_def AGENT_LOW_MEDIUM_def AGENT_HIGH_RISK_def ASYNC_JOB_DEFAULT_def
        NODUS_SCHEDULED_DEFAULT_def NO_RETRY_def new_RetryPolicy_def MAX_JITTER_MS_def)
qed

theorem retry_delay_bounds_witness:
  "retry_delay_ms FLOW_NODE_DEFAULT 50 1 \<le> retry_delay_ms FLOW_NODE_DEFAULT 0 2"
proof -
  have "0 \<le> (50::int)" "50 \<le> MAX_JITTER_MS" "0 \<le> (0::int)" "0 \<le> MAX_JITTER_MS" "exponential_backoff FLOW_NODE_DEFAULT"
    "MAX_JITTER_MS \<le> backoff_ms FLOW_NODE_DEFAULT"
    by code_simp+
  with retry_delay_bounds [of 50 0 FLOW_NODE_DEFAULT 1] show ?thesis by simp
qed

end
