(* ===== verification/Execution_Unit.thy ===== *)
theory Execution_Unit
  imports Py_Values Wait_Condition
begin

text \<open>
  The execution units (\<^verbatim>\<open>core/execution_unit_service.py\<close>, \<^verbatim>\<open>db/models/execution_unit.py\<close>): the row every
  execution has, its status machine, and the service that creates, moves, parks and resumes units
  on a database session.
\<close>


section \<open>The status machine\<close>

definition STATUS_TRANSITIONS :: "string list dict" where
  "STATUS_TRANSITIONS =
     [(''pending'', [''executing'', ''failed'']),
      (''executing'', [''waiting'', ''resumed'', ''completed'', ''failed'']),
      (''waiting'', [''resumed'', ''executing'', ''failed'']),
      (''resumed'', [''executing'', ''failed'']),
      (''completed'', []),
      (''failed'', []),
      (''refused'', [])]"

definition allowed_next :: "string \<Rightarrow> string list" where
  "allowed_next status = dget_or STATUS_TRANSITIONS status []"

definition RUN_TO_UNIT_TERMINAL :: "string dict" where
  "RUN_TO_UNIT_TERMINAL =
     [(''completed'', ''completed''), (''failed'', ''failed''), (''verify_failed'', ''failed''),
      (''cancelled'', ''failed''), (''refused'', ''failed'')]"


section \<open>Rows and sessions\<close>

record ExecutionUnit =
  xu_type :: string
  xu_status :: string
  xu_user_id :: "nat option"
  xu_source_type :: "string option"
  xu_source_id :: "string option"
  xu_parent_id :: "nat option"
  xu_flow_run_id :: "string option"
  xu_correlation_id :: "string option"
  xu_memory_context_ids :: "string list"
  xu_output_memory_ids :: "string list"
  xu_wait_condition :: "wait_dict option"
  xu_extra :: pyval
  xu_env_spec :: pyval
  xu_env_applied :: pyval
  xu_env_evidence_class :: "string option"
  xu_created_at :: time
  xu_updated_at :: time
  xu_completed_at :: "time option"

type_synonym units = "(nat \<times> ExecutionUnit) list"

text \<open>
  A session sees the rows as they were when it read them, with its own writes on top: a loaded object
  keeps its columns until the transaction ends, and a flushed \<^verbatim>\<open>UPDATE\<close> names the changed columns of one
  row. A statement that fails leaves the transaction aborted: every later statement raises until a
  rollback. A commit applies the writes to the rows of that moment.
\<close>

datatype unit_write =
    Create ExecutionUnit
  | Set_status string time "time option"
  | Set_wait "wait_dict option" time
  | Set_flow_run string time
  | Set_context "string list" time
  | Set_output "string list" time
  | Set_extra pyval

record session =
  ss_seen :: units
  ss_writes :: "(nat \<times> unit_write) list"
  ss_broken :: bool

fun write_columns :: "unit_write \<Rightarrow> ExecutionUnit \<Rightarrow> ExecutionUnit" where
  "write_columns (Create u) _ = u"
| "write_columns (Set_status st t done) u =
     (let u1 = u\<lparr>xu_status := st, xu_updated_at := t\<rparr> in
      case done of None \<Rightarrow> u1 | Some c \<Rightarrow> u1\<lparr>xu_completed_at := Some c\<rparr>)"
| "write_columns (Set_wait w t) u = u\<lparr>xu_wait_condition := w, xu_updated_at := t\<rparr>"
| "write_columns (Set_flow_run r t) u = u\<lparr>xu_flow_run_id := Some r, xu_updated_at := t\<rparr>"
| "write_columns (Set_context ids t) u = u\<lparr>xu_memory_context_ids := ids, xu_updated_at := t\<rparr>"
| "write_columns (Set_output ids t) u = u\<lparr>xu_output_memory_ids := ids, xu_updated_at := t\<rparr>"
| "write_columns (Set_extra v) u = u\<lparr>xu_extra := v\<rparr>"

definition apply_write :: "nat \<times> unit_write \<Rightarrow> units \<Rightarrow> units" where
  "apply_write w rows =
     (case w of (n, c) \<Rightarrow>
        (case c of
           Create u \<Rightarrow> AList.update n u rows
         | _ \<Rightarrow> (case map_of rows n of None \<Rightarrow> rows | Some u \<Rightarrow> AList.update n (write_columns c u) rows)))"

definition view :: "session \<Rightarrow> units" where
  "view s = fold apply_write (ss_writes s) (ss_seen s)"

definition begin_session :: "units \<Rightarrow> session" where
  "begin_session rows = \<lparr>ss_seen = rows, ss_writes = [], ss_broken = False\<rparr>"

definition commit_session :: "session \<Rightarrow> units \<Rightarrow> units" where
  "commit_session s rows = (if ss_broken s then rows else fold apply_write (ss_writes s) rows)"

text \<open>Whether the \<open>i\<close>-th statement of a call succeeds, and the clock at it.\<close>

record unit_env =
  ue_ok :: "nat \<Rightarrow> bool"
  ue_now :: "nat \<Rightarrow> time"


section \<open>The service\<close>

definition coerce_uuid :: "pyval \<Rightarrow> nat option" where
  "coerce_uuid v = (case v of PNone \<Rightarrow> None | PUuid n \<Rightarrow> Some n | _ \<Rightarrow> uuid_parse (py_str v))"

definition broken :: "session \<Rightarrow> session" where
  "broken s = s\<lparr>ss_broken := True\<rparr>"

text \<open>\<^verbatim>\<open>db.query(ExecutionUnit).filter(ExecutionUnit.id == ...).first()\<close>: the statement may raise.\<close>

definition fetch :: "unit_env \<Rightarrow> nat \<Rightarrow> pyval \<Rightarrow> session \<Rightarrow> (nat \<times> ExecutionUnit) option option" where
  "fetch e i eu_id s =
     (if ss_broken s \<or> \<not> ue_ok e i then None
      else Some (case coerce_uuid eu_id of
             None \<Rightarrow> None
           | Some n \<Rightarrow> map_option (Pair n) (map_of (view s) n)))"

text \<open>
  The shape the operations on one unit share: read it, decide on a change of its columns, flush; any
  exception answers \<^verbatim>\<open>False\<close>.
\<close>

definition touch_unit :: "unit_env \<Rightarrow> nat \<Rightarrow> pyval \<Rightarrow> (ExecutionUnit \<Rightarrow> unit_write option) \<Rightarrow> session \<Rightarrow> bool \<times> session" where
  "touch_unit e i eu_id change s =
     (case fetch e i eu_id s of
        None \<Rightarrow> (False, broken s)
      | Some None \<Rightarrow> (False, s)
      | Some (Some (n, u)) \<Rightarrow>
          (case change u of
             None \<Rightarrow> (False, s)
           | Some w \<Rightarrow>
               if ue_ok e (i + 1) then (True, s\<lparr>ss_writes := ss_writes s @ [(n, w)]\<rparr>) else (False, broken s)))"

text \<open>\<^verbatim>\<open>create\<close>: \<open>fresh\<close> is the value of \<^verbatim>\<open>uuid.uuid4()\<close>; it returns the id, or nothing when the insert fails.\<close>

record unit_args =
  ua_type :: string
  ua_user_id :: pyval
  ua_source_type :: "string option"
  ua_source_id :: "string option"
  ua_parent_id :: pyval
  ua_flow_run_id :: "string option"
  ua_correlation_id :: "string option"
  ua_extra :: pyval
  ua_status :: string
  ua_env_spec :: pyval
  ua_env_applied :: pyval
  ua_env_evidence_class :: "string option"

definition new_unit :: "unit_env \<Rightarrow> nat \<Rightarrow> unit_args \<Rightarrow> ExecutionUnit" where
  "new_unit e i a =
     \<lparr>xu_type = ua_type a, xu_status = ua_status a, xu_user_id = coerce_uuid (ua_user_id a),
      xu_source_type = ua_source_type a, xu_source_id = ua_source_id a, xu_parent_id = coerce_uuid (ua_parent_id a),
      xu_flow_run_id = ua_flow_run_id a, xu_correlation_id = ua_correlation_id a,
      xu_memory_context_ids = [], xu_output_memory_ids = [], xu_wait_condition = None, xu_extra = ua_extra a,
      xu_env_spec = ua_env_spec a, xu_env_applied = ua_env_applied a, xu_env_evidence_class = ua_env_evidence_class a,
      xu_created_at = ue_now e i, xu_updated_at = ue_now e i, xu_completed_at = None\<rparr>"

definition create_unit :: "unit_env \<Rightarrow> nat \<Rightarrow> nat \<Rightarrow> unit_args \<Rightarrow> session \<Rightarrow> nat option \<times> session" where
  "create_unit e i fresh a s =
     (if ss_broken s \<or> \<not> ue_ok e i then (None, broken s)
      else (Some fresh, s\<lparr>ss_writes := ss_writes s @ [(fresh, Create (new_unit e i a))]\<rparr>))"

definition status_write :: "unit_env \<Rightarrow> nat \<Rightarrow> string \<Rightarrow> ExecutionUnit \<Rightarrow> unit_write option" where
  "status_write e i new_status u =
     (if new_status \<in> set (allowed_next (xu_status u))
      then Some (Set_status new_status (ue_now e i)
             (if new_status = ''completed'' \<or> new_status = ''failed'' then Some (ue_now e (i + 1)) else None))
      else None)"

definition update_status :: "unit_env \<Rightarrow> nat \<Rightarrow> pyval \<Rightarrow> string \<Rightarrow> session \<Rightarrow> bool \<times> session" where
  "update_status e i eu_id new_status s = touch_unit e i eu_id (status_write e i new_status) s"

definition finalize_for_run_status :: "unit_env \<Rightarrow> pyval \<Rightarrow> string \<Rightarrow> session \<Rightarrow> bool \<times> session" where
  "finalize_for_run_status e eu_id run_status s =
     (case dget RUN_TO_UNIT_TERMINAL run_status of
        None \<Rightarrow> (False, s)
      | Some target \<Rightarrow>
          (case fetch e 0 eu_id s of
             None \<Rightarrow> (False, broken s)
           | Some None \<Rightarrow> (False, s)
           | Some (Some (n, u)) \<Rightarrow>
               if xu_status u \<in> set [''completed'', ''failed'', ''refused''] then (False, s)
               else update_status e 1 (PUuid n) target s))"

definition clear_wait :: "unit_env \<Rightarrow> nat \<Rightarrow> ExecutionUnit \<Rightarrow> unit_write option" where
  "clear_wait e i u = (if xu_wait_condition u = None then None else Some (Set_wait None (ue_now e i)))"

definition ALREADY_RESUMED :: "string list" where
  "ALREADY_RESUMED = [''resumed'', ''executing'', ''completed'']"

definition resume_execution_unit :: "unit_env \<Rightarrow> pyval \<Rightarrow> session \<Rightarrow> bool \<times> session" where
  "resume_execution_unit e eu_id s =
     (let check = fetch e 0 eu_id s;
          s0 = (if check = None then broken s else s);
          skip = (case check of Some (Some (n, u)) \<Rightarrow> xu_status u \<in> set ALREADY_RESUMED | _ \<Rightarrow> False)
      in if skip then (True, s0)
         else
           let (ok, s1) = update_status e 1 eu_id ''resumed'' s0
           in if \<not> ok then (False, s1)
              else
                let (cleared, s2) = touch_unit e 3 eu_id (clear_wait e 3) s1
                in update_status e 5 eu_id ''executing'' s2)"

text \<open>\<^verbatim>\<open>set_wait_condition\<close> takes nothing, a dictionary, or a \<^verbatim>\<open>WaitCondition\<close>.\<close>

datatype unit_condition = Clear_condition | Plain_condition wait_dict | Object_condition WaitCondition

definition condition_dict :: "(datetime \<Rightarrow> string) \<Rightarrow> unit_condition \<Rightarrow> wait_dict option" where
  "condition_dict isoformat c =
     (case c of
        Clear_condition \<Rightarrow> None
      | Plain_condition d \<Rightarrow> Some d
      | Object_condition w \<Rightarrow> Some (wait_to_dict isoformat w))"

definition set_wait_condition ::
  "unit_env \<Rightarrow> (datetime \<Rightarrow> string) \<Rightarrow> pyval \<Rightarrow> unit_condition \<Rightarrow> session \<Rightarrow> bool \<times> session" where
  "set_wait_condition e isoformat eu_id condition s =
     touch_unit e 0 eu_id (\<lambda>u. Some (Set_wait (condition_dict isoformat condition) (ue_now e 0))) s"

definition link_flow_run :: "unit_env \<Rightarrow> pyval \<Rightarrow> string \<Rightarrow> session \<Rightarrow> bool \<times> session" where
  "link_flow_run e eu_id flow_run_id s = touch_unit e 0 eu_id (\<lambda>u. Some (Set_flow_run flow_run_id (ue_now e 0))) s"

definition link_memory_context :: "unit_env \<Rightarrow> pyval \<Rightarrow> string list \<Rightarrow> session \<Rightarrow> bool \<times> session" where
  "link_memory_context e eu_id memory_ids s = touch_unit e 0 eu_id (\<lambda>u. Some (Set_context memory_ids (ue_now e 0))) s"

definition append_output_memory :: "unit_env \<Rightarrow> pyval \<Rightarrow> string \<Rightarrow> session \<Rightarrow> bool \<times> session" where
  "append_output_memory e eu_id mid s =
     touch_unit e 0 eu_id (\<lambda>u.
       let current = xu_output_memory_ids u
       in Some (Set_output (if mid \<in> set current then current else current @ [mid]) (ue_now e 0))) s"

text \<open>
  The queries, in the order of \<^verbatim>\<open>created_at\<close>. Rows with equal readings come in the order of their
  insertion, the database does not promise one.
\<close>

definition get_by_source :: "unit_env \<Rightarrow> nat \<Rightarrow> string \<Rightarrow> string \<Rightarrow> session \<Rightarrow> (nat \<times> ExecutionUnit) option \<times> session" where
  "get_by_source e i source_type source_id s =
     (if ss_broken s \<or> \<not> ue_ok e i then (None, broken s)
      else
        let found = filter (\<lambda>(n, u). xu_source_type u = Some source_type \<and> xu_source_id u = Some source_id) (view s)
        in (case rev (sort_key (\<lambda>(n, u). xu_created_at u) found) of [] \<Rightarrow> None | r # rest \<Rightarrow> Some r, s))"

definition get_by_correlation :: "unit_env \<Rightarrow> string \<Rightarrow> session \<Rightarrow> units \<times> session" where
  "get_by_correlation e correlation_id s =
     (if ss_broken s \<or> \<not> ue_ok e 0 then ([], broken s)
      else (sort_key (\<lambda>(n, u). xu_created_at u) (filter (\<lambda>(n, u). xu_correlation_id u = Some correlation_id) (view s)), s))"

definition get_children :: "unit_env \<Rightarrow> pyval \<Rightarrow> session \<Rightarrow> units \<times> session" where
  "get_children e parent_eu_id s =
     (if ss_broken s \<or> \<not> ue_ok e 0 then ([], broken s)
      else (case coerce_uuid parent_eu_id of
          None \<Rightarrow> (sort_key (\<lambda>(n, u). xu_created_at u) (filter (\<lambda>(n, u). xu_parent_id u = None) (view s)), s)
        | Some p \<Rightarrow> (sort_key (\<lambda>(n, u). xu_created_at u) (filter (\<lambda>(n, u). xu_parent_id u = Some p) (view s)), s)))"



section \<open>What a call writes\<close>

lemma view_write: "view (s\<lparr>ss_writes := ss_writes s @ [w]\<rparr>) = apply_write w (view s)"
  by (simp add: view_def)

lemma view_broken [simp]: "view (broken s) = view s" "ss_seen (broken s) = ss_seen s" "ss_writes (broken s) = ss_writes s"
  by (simp_all add: view_def broken_def)

lemma map_of_apply_write:
  "map_of (apply_write (n, w) rows) m =
     (if m = n then (case w of Create u \<Rightarrow> Some u | _ \<Rightarrow> map_option (write_columns w) (map_of rows n)) else map_of rows m)"
  by (cases w; cases "map_of rows n") (simp_all add: apply_write_def update_conv')

lemma map_of_written:
  "map_of rows n = Some u \<Longrightarrow>
     map_of (apply_write (n, w) rows) m = (if m = n then Some (write_columns w u) else map_of rows m)"
  by (cases w) (simp_all add: map_of_apply_write)

lemma touch_unit_cases:
  obtains (failed) s' where "touch_unit e i eu_id change s = (False, s')" "view s' = view s" "ss_seen s' = ss_seen s"
      "ss_writes s' = ss_writes s" "s' = s \<or> s' = broken s"
  | (written) n u w where "touch_unit e i eu_id change s = (True, s\<lparr>ss_writes := ss_writes s @ [(n, w)]\<rparr>)"
      "\<not> ss_broken s" "coerce_uuid eu_id = Some n" "map_of (view s) n = Some u" "change u = Some w"
proof (cases "fetch e i eu_id s")
  case None
  then show ?thesis by (intro failed [of "broken s"]) (simp_all add: touch_unit_def)
next
  case (Some r)
  then have f: "\<not> ss_broken s" "r = (case coerce_uuid eu_id of None \<Rightarrow> None | Some n \<Rightarrow> map_option (Pair n) (map_of (view s) n))"
    by (simp_all add: fetch_def split: if_splits)
  show ?thesis
  proof (cases r)
    case None
    then show ?thesis using Some by (intro failed [of s]) (simp_all add: touch_unit_def)
  next
    case (Some nu)
    then obtain n u where nu: "nu = (n, u)" "coerce_uuid eu_id = Some n" "map_of (view s) n = Some u"
      using f(2) by (auto split: option.splits)
    show ?thesis
    proof (cases "change u")
      case None
      then show ?thesis using \<open>fetch e i eu_id s = Some r\<close> Some nu by (intro failed [of s]) (simp_all add: touch_unit_def)
    next
      case (Some w)
      show ?thesis
      proof (cases "ue_ok e (i + 1)")
        case True
        then show ?thesis
          using \<open>fetch e i eu_id s = Some r\<close> \<open>r = Some nu\<close> nu Some f(1)
          by (intro written [of n w u]) (simp_all add: touch_unit_def)
      next
        case False
        then show ?thesis
          using \<open>fetch e i eu_id s = Some r\<close> \<open>r = Some nu\<close> nu Some
          by (intro failed [of "broken s"]) (simp_all add: touch_unit_def)
      qed
    qed
  qed
qed


section \<open>The interface of a status machine\<close>

text \<open>
  What a client of a machine relies on: an update that succeeds moves one key along an edge, one that
  does not succeed moves nothing. Then the history of a key is a path, and a status without outgoing
  edges is final.
\<close>

locale status_machine =
  fixes follow :: "'st \<Rightarrow> 'st list"
    and status :: "'s \<Rightarrow> 'k \<Rightarrow> 'st option"
    and set_status :: "'c \<Rightarrow> 'k \<Rightarrow> 'st \<Rightarrow> 's \<Rightarrow> bool \<times> 's"
  assumes moved: "set_status c k b s = (True, s') \<Longrightarrow>
      \<exists>a. status s k = Some a \<and> b \<in> set (follow a) \<and> status s' = (status s)(k \<mapsto> b)"
    and kept: "set_status c k b s = (False, s') \<Longrightarrow> status s' = status s"
begin

definition edges :: "('st \<times> 'st) set" where
  "edges = {(a, b). b \<in> set (follow a)}"

fun run_updates :: "('c \<times> 'k \<times> 'st) list \<Rightarrow> 's \<Rightarrow> 's" where
  "run_updates [] s = s"
| "run_updates ((c, k, b) # us) s = run_updates us (snd (set_status c k b s))"

lemma update_path:
  assumes "status s k = Some a"
  shows "\<exists>b. status (snd (set_status c j st s)) k = Some b \<and> (a, b) \<in> edges\<^sup>*"
proof (cases "set_status c j st s")
  case (Pair ok s')
  show ?thesis
  proof (cases ok)
    case True
    then have "\<exists>a. status s j = Some a \<and> st \<in> set (follow a) \<and> status s' = (status s)(j \<mapsto> st)"
      using Pair moved by simp
    then show ?thesis using assms Pair by (cases "j = k") (auto simp: edges_def)
  next
    case False
    then show ?thesis using kept [of c j st s s'] assms Pair by auto
  qed
qed

lemma run_path:
  "status s k = Some a \<Longrightarrow> \<exists>b. status (run_updates us s) k = Some b \<and> (a, b) \<in> edges\<^sup>*"
proof (induction us s arbitrary: a rule: run_updates.induct)
  case (2 c j st us s)
  from update_path [OF 2(2), of c j st] obtain b where b: "status (snd (set_status c j st s)) k = Some b" "(a, b) \<in> edges\<^sup>*"
    by blast
  from 2(1) [OF b(1)] b(2) show ?case by (auto intro: rtrancl_trans)
qed auto

lemma final_path: "(a, b) \<in> edges\<^sup>* \<Longrightarrow> follow a = [] \<Longrightarrow> b = a"
  by (induction rule: converse_rtrancl_induct) (auto simp: edges_def)

lemma final_stays: "status s k = Some a \<Longrightarrow> follow a = [] \<Longrightarrow> status (run_updates us s) k = Some a"
  using run_path [of s k a us] final_path by auto

end

definition unit_status :: "session \<Rightarrow> nat \<Rightarrow> string option" where
  "unit_status s n = map_option xu_status (map_of (view s) n)"

definition move_unit :: "unit_env \<times> nat \<Rightarrow> nat \<Rightarrow> string \<Rightarrow> session \<Rightarrow> bool \<times> session" where
  "move_unit c n st s = update_status (fst c) (snd c) (PUuid n) st s"

lemma status_writeD:
  "status_write e i st u = Some w \<Longrightarrow> st \<in> set (allowed_next (xu_status u)) \<and> xu_status (write_columns w u) = st
     \<and> (\<exists>t c. w = Set_status st t c \<and> (c \<noteq> None \<longleftrightarrow> st = ''completed'' \<or> st = ''failed''))"
  by (auto simp: status_write_def Let_def split: if_splits)

interpretation unit_machine: status_machine allowed_next unit_status move_unit
proof (unfold_locales, goal_cases)
  case (1 c n b s s')
  then show ?case unfolding move_unit_def update_status_def
  proof (cases rule: touch_unit_cases [of "fst c" "snd c" "PUuid n" "status_write (fst c) (snd c) b" s])
    case (written m u w)
    then have "m = n" by (simp add: coerce_uuid_def)
    moreover note status_writeD [OF written(5)]
    moreover have "unit_status s' = (unit_status s)(n \<mapsto> b)"
      using 1 written(1) \<open>m = n\<close> status_writeD [OF written(5)] map_of_written [OF written(4)]
      by (auto simp: fun_eq_iff unit_status_def view_write move_unit_def update_status_def)
    ultimately show ?thesis using written(4) by (auto simp: unit_status_def)
  qed (use 1 in \<open>simp add: move_unit_def update_status_def\<close>)
next
  case (2 c n b s s')
  show ?case
  proof (cases rule: touch_unit_cases [of "fst c" "snd c" "PUuid n" "status_write (fst c) (snd c) b" s])
    case (failed s2)
    then show ?thesis using 2 by (simp add: move_unit_def update_status_def unit_status_def fun_eq_iff)
  qed (use 2 in \<open>simp add: move_unit_def update_status_def\<close>)
qed



section \<open>Histories of units\<close>

text \<open>
  A well-formed unit has a status of the machine, is stamped as completed exactly when it ended, and
  lists each output once. What a unit is (its type, owner, source and parent) never changes, and its
  status moves along the edges.
\<close>

definition unit_ok :: "ExecutionUnit \<Rightarrow> bool" where
  "unit_ok u \<longleftrightarrow> xu_status u \<in> set (dkeys STATUS_TRANSITIONS)
     \<and> (xu_completed_at u \<noteq> None \<longleftrightarrow> xu_status u = ''completed'' \<or> xu_status u = ''failed'')
     \<and> distinct (xu_output_memory_ids u)"

definition units_ok :: "units \<Rightarrow> bool" where
  "units_ok rows \<longleftrightarrow> (\<forall>n u. map_of rows n = Some u \<longrightarrow> unit_ok u)"

definition evolved :: "ExecutionUnit \<Rightarrow> ExecutionUnit \<Rightarrow> bool" where
  "evolved u u' \<longleftrightarrow> (xu_status u, xu_status u') \<in> unit_machine.edges\<^sup>*
     \<and> xu_type u' = xu_type u \<and> xu_user_id u' = xu_user_id u \<and> xu_source_type u' = xu_source_type u
     \<and> xu_source_id u' = xu_source_id u \<and> xu_parent_id u' = xu_parent_id u \<and> xu_created_at u' = xu_created_at u
     \<and> (allowed_next (xu_status u) = [] \<longrightarrow> xu_completed_at u' = xu_completed_at u)"

definition grown :: "units \<Rightarrow> units \<Rightarrow> bool" where
  "grown rows rows' \<longleftrightarrow> (\<forall>n u. map_of rows n = Some u \<longrightarrow> (\<exists>u'. map_of rows' n = Some u' \<and> evolved u u'))"

fun admissible :: "ExecutionUnit \<Rightarrow> unit_write \<Rightarrow> bool" where
  "admissible u (Create v) = False"
| "admissible u (Set_status st t c) =
     (st \<in> set (allowed_next (xu_status u)) \<and> (c \<noteq> None \<longleftrightarrow> st = ''completed'' \<or> st = ''failed''))"
| "admissible u (Set_output ids t) = (distinct (xu_output_memory_ids u) \<longrightarrow> distinct ids)"
| "admissible u _ = True"

lemma evolved_refl: "evolved u u"
  by (simp add: evolved_def)

lemma evolved_trans: "evolved u v \<Longrightarrow> evolved v w \<Longrightarrow> evolved u w"
  unfolding evolved_def using unit_machine.final_path by (metis rtrancl_trans)

lemma grown_refl [simp]: "grown rows rows"
  by (auto simp: grown_def evolved_refl)

lemma grown_trans: "grown r1 r2 \<Longrightarrow> grown r2 r3 \<Longrightarrow> grown r1 r3"
  unfolding grown_def by (metis evolved_trans)

lemma next_in_machine: "st \<in> set (allowed_next a) \<Longrightarrow> st \<in> set (dkeys STATUS_TRANSITIONS)"
  by (auto simp: allowed_next_def STATUS_TRANSITIONS_def dget_or_def split: if_splits option.splits)

lemma final_statuses: "allowed_next ''completed'' = []" "allowed_next ''failed'' = []" "allowed_next ''refused'' = []"
  by (simp_all add: allowed_next_def STATUS_TRANSITIONS_def dget_or_def)

lemma admissible_evolved:
  assumes "admissible u w"
  shows "evolved u (write_columns w u)" "unit_ok u \<Longrightarrow> unit_ok (write_columns w u)"
proof -
  show "evolved u (write_columns w u)"
    using assms by (cases "(u, w)" rule: admissible.cases)
      (auto simp: evolved_def unit_machine.edges_def Let_def split: option.splits)
  show "unit_ok (write_columns w u)" if "unit_ok u"
  proof (cases w)
    case (Set_status st t c)
    then have a: "st \<in> set (allowed_next (xu_status u))" "c \<noteq> None \<longleftrightarrow> st = ''completed'' \<or> st = ''failed''"
      using assms by simp_all
    then have "xu_status u \<noteq> ''completed''" "xu_status u \<noteq> ''failed''" using final_statuses by auto
    then have "xu_completed_at u = None" using that by (simp add: unit_ok_def)
    then show ?thesis using Set_status a next_in_machine that
      by (auto simp: unit_ok_def Let_def split: option.splits)
  qed (use assms that in \<open>simp_all add: unit_ok_def\<close>)
qed

lemma touch_grown:
  assumes "\<And>n u w. map_of (view s) n = Some u \<Longrightarrow> change u = Some w \<Longrightarrow> admissible u w"
  shows "grown (view s) (view (snd (touch_unit e i eu_id change s)))
    \<and> (units_ok (view s) \<longrightarrow> units_ok (view (snd (touch_unit e i eu_id change s))))
    \<and> ss_seen (snd (touch_unit e i eu_id change s)) = ss_seen s"
proof (cases rule: touch_unit_cases [of e i eu_id change s])
  case (written n u w)
  have a: "admissible u w" by (rule assms [OF written(4,5)])
  have v: "map_of (view (s\<lparr>ss_writes := ss_writes s @ [(n, w)]\<rparr>)) m = (if m = n then Some (write_columns w u) else map_of (view s) m)" for m
    using map_of_written [OF written(4)] by (simp add: view_write)
  show ?thesis
    using written(1,4) admissible_evolved [OF a] by (auto simp: grown_def units_ok_def v evolved_refl)
qed simp

lemma update_status_grown:
  "grown (view s) (view (snd (update_status e i eu_id st s)))
   \<and> (units_ok (view s) \<longrightarrow> units_ok (view (snd (update_status e i eu_id st s))))
   \<and> ss_seen (snd (update_status e i eu_id st s)) = ss_seen s"
  unfolding update_status_def by (rule touch_grown) (auto simp: status_write_def split: if_splits)

lemma resume_grown:
  "grown (view s) (view (snd (resume_execution_unit e eu_id s)))
   \<and> (units_ok (view s) \<longrightarrow> units_ok (view (snd (resume_execution_unit e eu_id s))))
   \<and> ss_seen (snd (resume_execution_unit e eu_id s)) = ss_seen s"
proof -
  define s0 where "s0 = (if fetch e 0 eu_id s = None then broken s else s)"
  define s1 where "s1 = snd (update_status e 1 eu_id ''resumed'' s0)"
  define s2 where "s2 = snd (touch_unit e 3 eu_id (clear_wait e 3) s1)"
  have "snd (resume_execution_unit e eu_id s) \<in> {s0, s1, snd (update_status e 5 eu_id ''executing'' s2)}"
    by (auto simp: resume_execution_unit_def s0_def s1_def s2_def Let_def split_beta)
  moreover have "view s0 = view s" "ss_seen s0 = ss_seen s" by (simp_all add: s0_def)
  moreover note update_status_grown [of s0 e 1 eu_id "''resumed''", folded s1_def]
  moreover have "grown (view s1) (view s2) \<and> (units_ok (view s1) \<longrightarrow> units_ok (view s2)) \<and> ss_seen s2 = ss_seen s1"
    unfolding s2_def by (rule touch_grown) (auto simp: clear_wait_def split: if_splits)
  moreover note update_status_grown [of s2 e 5 eu_id "''executing''"]
  ultimately show ?thesis by (auto intro: grown_trans)
qed

text \<open>The calls of the service, as a client issues them, and the ends of a transaction.\<close>

datatype unit_call =
    Call_create nat unit_args
  | Call_update pyval string
  | Call_finalize pyval string
  | Call_resume pyval
  | Call_wait pyval unit_condition
  | Call_flow_run pyval string
  | Call_context pyval "string list"
  | Call_output pyval string

fun serve :: "unit_env \<Rightarrow> (datetime \<Rightarrow> string) \<Rightarrow> unit_call \<Rightarrow> session \<Rightarrow> session" where
  "serve e iso_text (Call_create fresh a) s = snd (create_unit e 0 fresh a s)"
| "serve e iso_text (Call_update eu_id st) s = snd (update_status e 0 eu_id st s)"
| "serve e iso_text (Call_finalize eu_id run_status) s = snd (finalize_for_run_status e eu_id run_status s)"
| "serve e iso_text (Call_resume eu_id) s = snd (resume_execution_unit e eu_id s)"
| "serve e iso_text (Call_wait eu_id c) s = snd (set_wait_condition e iso_text eu_id c s)"
| "serve e iso_text (Call_flow_run eu_id r) s = snd (link_flow_run e eu_id r s)"
| "serve e iso_text (Call_context eu_id ids) s = snd (link_memory_context e eu_id ids s)"
| "serve e iso_text (Call_output eu_id mid) s = snd (append_output_memory e eu_id mid s)"

text \<open>A \<^verbatim>\<open>uuid4\<close> is new, and the callers create units as pending, executing or refused.\<close>

fun call_ok :: "session \<Rightarrow> unit_call \<Rightarrow> bool" where
  "call_ok s (Call_create fresh a) =
     (map_of (view s) fresh = None \<and> ua_status a \<in> set [''pending'', ''executing'', ''refused''])"
| "call_ok s _ = True"

inductive unit_step :: "units \<times> session \<Rightarrow> units \<times> session \<Rightarrow> bool" where
  call: "call_ok s c \<Longrightarrow> unit_step (rows, s) (rows, serve e iso_text c s)"
| commit: "rows' = commit_session s rows \<Longrightarrow> unit_step (rows, s) (rows', begin_session rows')"
| rollback: "unit_step (rows, s) (rows, begin_session rows)"

inductive_cases unit_stepE: "unit_step x y"


lemma create_grown:
  assumes "map_of (view s) fresh = None" "ua_status a \<in> set [''pending'', ''executing'', ''refused'']"
  shows "grown (view s) (view (snd (create_unit e i fresh a s)))
    \<and> (units_ok (view s) \<longrightarrow> units_ok (view (snd (create_unit e i fresh a s))))
    \<and> ss_seen (snd (create_unit e i fresh a s)) = ss_seen s"
proof -
  have "unit_ok (new_unit e i a)" using assms(2) by (auto simp: unit_ok_def new_unit_def STATUS_TRANSITIONS_def)
  moreover have "view (s\<lparr>ss_writes := ss_writes s @ [(fresh, Create (new_unit e i a))]\<rparr>) =
      apply_write (fresh, Create (new_unit e i a)) (view s)" by (rule view_write)
  ultimately show ?thesis
    using assms(1) by (auto simp: create_unit_def grown_def units_ok_def map_of_apply_write evolved_refl)
qed

lemma finalize_grown:
  "grown (view s) (view (snd (finalize_for_run_status e eu_id run_status s)))
   \<and> (units_ok (view s) \<longrightarrow> units_ok (view (snd (finalize_for_run_status e eu_id run_status s))))
   \<and> ss_seen (snd (finalize_for_run_status e eu_id run_status s)) = ss_seen s"
  using update_status_grown by (auto simp: finalize_for_run_status_def split: option.splits)

lemma serve_grown:
  assumes "call_ok s c"
  shows "grown (view s) (view (serve e iso_text c s)) \<and> (units_ok (view s) \<longrightarrow> units_ok (view (serve e iso_text c s)))
    \<and> ss_seen (serve e iso_text c s) = ss_seen s"
proof (cases c)
  case (Call_create fresh a)
  then show ?thesis using create_grown [of s fresh a e 0] assms by simp
next
  case (Call_output eu_id mid)
  show ?thesis unfolding Call_output serve.simps append_output_memory_def by (rule touch_grown) (auto simp: Let_def)
qed (simp_all add: update_status_grown finalize_grown resume_grown set_wait_condition_def link_flow_run_def
    link_memory_context_def, (rule touch_grown; force)+)

lemma unit_reach:
  assumes "reach (\<lambda>x. x = (rows0, begin_session rows0)) unit_step (rows, s)"
  shows "ss_seen s = rows \<and> grown rows0 rows \<and> grown rows (view s)
    \<and> (units_ok rows0 \<longrightarrow> units_ok rows \<and> units_ok (view s))"
  using assms
proof (induction "(rows, s)" arbitrary: rows s rule: reach.induct)
  case (reach_init rows s)
  then show ?case by (simp add: begin_session_def view_def)
next
  case (reach_step x rows' s')
  obtain rows s where x: "x = (rows, s)" by (cases x)
  note IH = reach_step(2) [OF x]
  from reach_step(3) [unfolded x] show ?case
  proof (cases rule: unit_step.cases)
    case (call c e iso_text)
    then show ?thesis using IH serve_grown [of s c e iso_text] by (auto intro: grown_trans)
  next
    case commit
    have "fold apply_write (ss_writes s) rows = view s" using IH by (simp add: view_def)
    then show ?thesis using commit IH by (auto simp: commit_session_def begin_session_def view_def intro: grown_trans)
  next
    case rollback
    then show ?thesis using IH by (simp add: begin_session_def view_def)
  qed
qed


section \<open>Properties\<close>

text \<open>
  C5. One writer at a time keeps every unit on the machine: over any sequence of calls of the service,
  failing statements, commits and rollbacks, the committed rows stay well formed, every unit that was
  committed is still there with the same type, owner, source and parent, its status has moved along the
  edges, and a unit that had ended has kept its status and its completion time.
\<close>

theorem unit_histories_follow_machine:
  assumes "reach (\<lambda>x. x = (rows0, begin_session rows0)) unit_step (rows, s)"
    and "units_ok rows0" "map_of rows0 n = Some u"
  shows "units_ok rows \<and> (\<exists>u'. map_of rows n = Some u' \<and> evolved u u'
    \<and> (allowed_next (xu_status u) = [] \<longrightarrow> xu_status u' = xu_status u \<and> xu_completed_at u' = xu_completed_at u))"
proof -
  from unit_reach [OF assms(1)] assms(2,3) obtain u' where "units_ok rows" "map_of rows n = Some u'" "evolved u u'"
    unfolding grown_def by blast
  then show ?thesis using unit_machine.final_path by (auto simp: evolved_def)
qed

definition sample_unit_env :: unit_env where
  "sample_unit_env = \<lparr>ue_ok = (\<lambda>_. True), ue_now = (\<lambda>i. int i)\<rparr>"

definition sample_unit :: "string \<Rightarrow> ExecutionUnit" where
  "sample_unit st = \<lparr>xu_type = ''flow'', xu_status = st, xu_user_id = None, xu_source_type = Some ''flow_run'',
     xu_source_id = Some ''r'', xu_parent_id = None, xu_flow_run_id = None, xu_correlation_id = None,
     xu_memory_context_ids = [], xu_output_memory_ids = [], xu_wait_condition = None, xu_extra = PNone,
     xu_env_spec = PNone, xu_env_applied = PNone, xu_env_evidence_class = None,
     xu_created_at = 0, xu_updated_at = 0, xu_completed_at = None\<rparr>"

theorem unit_histories_follow_machine_witness:
  "\<exists>rows s u'. reach (\<lambda>x. x = ([(1, sample_unit ''waiting'')], begin_session [(1, sample_unit ''waiting'')])) unit_step (rows, s)
     \<and> map_of rows 1 = Some u' \<and> xu_status u' = ''executing'' \<and> evolved (sample_unit ''waiting'') u'"
proof -
  let ?r = "[(1, sample_unit ''waiting'')]" and ?e = sample_unit_env
  let ?s = "serve ?e (\<lambda>_. []) (Call_resume (PUuid 1)) (begin_session ?r)"
  let ?rows = "commit_session ?s ?r"
  have "reach (\<lambda>x. x = (?r, begin_session ?r)) unit_step (?r, begin_session ?r)" by (rule reach_init) simp
  from reach_step [OF this, OF unit_step.call [of _ "Call_resume (PUuid 1)" _ ?e "\<lambda>_. []"]]
  have "reach (\<lambda>x. x = (?r, begin_session ?r)) unit_step (?r, ?s)" by simp
  from reach_step [OF this, OF unit_step.commit [OF refl]]
  have r: "reach (\<lambda>x. x = (?r, begin_session ?r)) unit_step (?rows, begin_session ?rows)" .
  have "units_ok ?r" by (auto simp: units_ok_def unit_ok_def sample_unit_def STATUS_TRANSITIONS_def split: if_splits)
  from unit_histories_follow_machine [OF r this, of 1 "sample_unit ''waiting''"] obtain u' where
    u': "map_of ?rows 1 = Some u'" "evolved (sample_unit ''waiting'') u'" by auto
  have "map_option xu_status (map_of ?rows 1) = Some ''executing''" by code_simp
  then show ?thesis using r u' by auto
qed


text \<open>Calls whose statements all succeed, on a session that is not aborted.\<close>

definition live :: "unit_env \<Rightarrow> session \<Rightarrow> bool" where
  "live e s \<longleftrightarrow> \<not> ss_broken s \<and> (\<forall>i. ue_ok e i)"

lemma touch_live:
  assumes "live e s" "coerce_uuid eu_id = Some n" "map_of (view s) n = Some u"
  shows "touch_unit e i eu_id change s =
    (case change u of None \<Rightarrow> (False, s) | Some w \<Rightarrow> (True, s\<lparr>ss_writes := ss_writes s @ [(n, w)]\<rparr>))"
  using assms by (simp add: touch_unit_def fetch_def live_def split: option.split)

lemma fetch_live:
  assumes "live e s" "coerce_uuid eu_id = Some n" "map_of (view s) n = Some u"
  shows "fetch e i eu_id s = Some (Some (n, u))"
  using assms by (simp add: fetch_def live_def)

lemma live_write [simp]: "live e (s\<lparr>ss_writes := ws\<rparr>) = live e s"
  by (simp add: live_def)

lemma update_live:
  assumes "live e s" "coerce_uuid eu_id = Some n" "map_of (view s) n = Some u"
  shows "st \<notin> set (allowed_next (xu_status u)) \<Longrightarrow> update_status e i eu_id st s = (False, s)"
    and "st \<in> set (allowed_next (xu_status u)) \<Longrightarrow> \<exists>s' u'. update_status e i eu_id st s = (True, s') \<and> live e s'
      \<and> map_of (view s') n = Some u' \<and> xu_status u' = st \<and> xu_wait_condition u' = xu_wait_condition u
      \<and> (xu_completed_at u' = xu_completed_at u \<or> st = ''completed'' \<or> st = ''failed'')"
proof -
  show "update_status e i eu_id st s = (False, s)" if "st \<notin> set (allowed_next (xu_status u))"
    using that touch_live [OF assms] by (simp add: update_status_def status_write_def)
  assume "st \<in> set (allowed_next (xu_status u))"
  then obtain w where w: "status_write e i st u = Some w" "xu_wait_condition (write_columns w u) = xu_wait_condition u"
      "xu_completed_at (write_columns w u) = xu_completed_at u \<or> st = ''completed'' \<or> st = ''failed''"
    by (auto simp: status_write_def Let_def)
  have "update_status e i eu_id st s = (True, s\<lparr>ss_writes := ss_writes s @ [(n, w)]\<rparr>)"
    using touch_live [OF assms] w(1) by (simp add: update_status_def)
  then show "\<exists>s' u'. update_status e i eu_id st s = (True, s') \<and> live e s' \<and> map_of (view s') n = Some u' \<and> xu_status u' = st
      \<and> xu_wait_condition u' = xu_wait_condition u \<and> (xu_completed_at u' = xu_completed_at u \<or> st = ''completed'' \<or> st = ''failed'')"
    using status_writeD [OF w(1)] w(2,3) assms(1) map_of_written [OF assms(3)] by (simp add: view_write)
qed

lemma clear_live:
  assumes "live e s" "coerce_uuid eu_id = Some n" "map_of (view s) n = Some u"
  shows "\<exists>s' u'. snd (touch_unit e i eu_id (clear_wait e i) s) = s' \<and> live e s' \<and> map_of (view s') n = Some u'
    \<and> xu_status u' = xu_status u \<and> xu_wait_condition u' = None"
  using touch_live [OF assms, of i "clear_wait e i"] assms map_of_written [OF assms(3)]
  by (cases "xu_wait_condition u") (simp_all add: clear_wait_def view_write)

text \<open>
  Resuming is safe to repeat: a waiting unit is moved through resumed to executing with its wait
  condition cleared; a unit that is resumed, executing or completed is left exactly as it is and the
  call still answers true, so a second resume changes nothing; a pending, failed or refused unit and an
  id that names no unit are answered false and left as they are.
\<close>

theorem resume_execution_unit_outcome:
  assumes "live e s" "coerce_uuid eu_id = Some n" "map_of (view s) n = Some u" "unit_ok u"
  shows "if xu_status u = ''waiting'' then
      \<exists>s' u'. resume_execution_unit e eu_id s = (True, s') \<and> map_of (view s') n = Some u'
        \<and> xu_status u' = ''executing'' \<and> xu_wait_condition u' = None
        \<and> resume_execution_unit e eu_id s' = (True, s')
    else resume_execution_unit e eu_id s = (xu_status u \<in> set ALREADY_RESUMED, s)"
proof (cases "xu_status u = ''waiting''")
  case True
  have "''resumed'' \<in> set (allowed_next (xu_status u))"
    using True by (simp add: allowed_next_def STATUS_TRANSITIONS_def dget_or_def)
  from update_live(2) [OF assms(1-3) this, of 1] obtain s1 u1 where 1: "update_status e 1 eu_id ''resumed'' s = (True, s1)"
    "live e s1" "map_of (view s1) n = Some u1" "xu_status u1 = ''resumed''" by blast
  from clear_live [OF 1(2) assms(2) 1(3), of 3] obtain s2 u2 where 2: "snd (touch_unit e 3 eu_id (clear_wait e 3) s1) = s2"
    "live e s2" "map_of (view s2) n = Some u2" "xu_status u2 = ''resumed''" "xu_wait_condition u2 = None"
    using 1(4) by auto
  have "''executing'' \<in> set (allowed_next (xu_status u2))"
    using 2(4) by (simp add: allowed_next_def STATUS_TRANSITIONS_def dget_or_def)
  from update_live(2) [OF 2(2) assms(2) 2(3) this, of 5] obtain s3 u3 where 3: "update_status e 5 eu_id ''executing'' s2 = (True, s3)"
    "live e s3" "map_of (view s3) n = Some u3" "xu_status u3 = ''executing''" "xu_wait_condition u3 = None"
    using 2(5) by auto
  have "resume_execution_unit e eu_id s = (True, s3)"
    using True 1(1) 2(1) 3(1) fetch_live [OF assms(1-3)] by (simp add: resume_execution_unit_def ALREADY_RESUMED_def split_beta)
  moreover have "resume_execution_unit e eu_id s3 = (True, s3)"
    using 3(4) fetch_live [OF 3(2) assms(2) 3(3)] by (simp add: resume_execution_unit_def ALREADY_RESUMED_def)
  ultimately show ?thesis using True 3 by auto
next
  case False
  have "xu_status u \<in> set ALREADY_RESUMED \<or> ''resumed'' \<notin> set (allowed_next (xu_status u))"
    using False assms(4) by (auto simp: unit_ok_def STATUS_TRANSITIONS_def allowed_next_def dget_or_def ALREADY_RESUMED_def)
  then show ?thesis
    using False fetch_live [OF assms(1-3)] update_live(1) [OF assms(1-3), of "''resumed''"]
    by (auto simp: resume_execution_unit_def)
qed

theorem resume_execution_unit_outcome_witness:
  "\<exists>s'. resume_execution_unit sample_unit_env (PUuid 1) (begin_session [(1, sample_unit ''waiting'')]) = (True, s')
     \<and> resume_execution_unit sample_unit_env (PUuid 1) s' = (True, s')"
proof -
  let ?s = "begin_session [(1, sample_unit ''waiting'')]"
  have "live sample_unit_env ?s" by (simp add: live_def begin_session_def sample_unit_env_def)
  moreover have "coerce_uuid (PUuid 1) = Some 1" "map_of (view ?s) 1 = Some (sample_unit ''waiting'')"
    "unit_ok (sample_unit ''waiting'')"
    by (simp_all add: coerce_uuid_def view_def begin_session_def unit_ok_def sample_unit_def STATUS_TRANSITIONS_def)
  moreover have "xu_status (sample_unit ''waiting'') = ''waiting''" by (simp add: sample_unit_def)
  ultimately show ?thesis using resume_execution_unit_outcome [of sample_unit_env ?s "PUuid 1" 1 "sample_unit ''waiting''"] by auto
qed

text \<open>
  A run that completes ends its unit only if the unit is executing: mirroring the end of a run moves
  the unit exactly when the machine has the edge, and a completed run leaves a pending, waiting or
  resumed unit open; a run that failed, was cancelled or refused ends every open unit, and a unit that
  has ended is never moved.
\<close>

theorem finalize_moves_exactly:
  assumes "live e s" "map_of (view s) n = Some u" "unit_ok u" "dget RUN_TO_UNIT_TERMINAL run_status = Some target"
  shows "if xu_status u = ''executing'' \<or> target = ''failed'' \<and> xu_status u \<in> {''pending'', ''waiting'', ''resumed''}
    then \<exists>s' u'. finalize_for_run_status e (PUuid n) run_status s = (True, s') \<and> map_of (view s') n = Some u' \<and> xu_status u' = target
    else finalize_for_run_status e (PUuid n) run_status s = (False, s)"
proof -
  have id: "coerce_uuid (PUuid n) = Some n" by (simp add: coerce_uuid_def)
  have t: "target = ''completed'' \<or> target = ''failed''"
    using assms(4) by (auto simp: RUN_TO_UNIT_TERMINAL_def split: if_splits)
  have f: "finalize_for_run_status e (PUuid n) run_status s =
      (if xu_status u \<in> set [''completed'', ''failed'', ''refused''] then (False, s) else update_status e 1 (PUuid n) target s)"
    using fetch_live [OF assms(1) id assms(2), of 0] assms(4) by (simp add: finalize_for_run_status_def)
  have edge: "target \<in> set (allowed_next (xu_status u)) \<longleftrightarrow>
      xu_status u = ''executing'' \<or> target = ''failed'' \<and> xu_status u \<in> {''pending'', ''waiting'', ''resumed''}"
    using t assms(3) by (auto simp: unit_ok_def STATUS_TRANSITIONS_def allowed_next_def dget_or_def)
  show ?thesis
  proof (cases "target \<in> set (allowed_next (xu_status u))")
    case True
    then have "xu_status u \<notin> set [''completed'', ''failed'', ''refused'']" using final_statuses by auto
    then show ?thesis using True edge f update_live(2) [OF assms(1) id assms(2) True, of 1] by auto
  next
    case False
    then show ?thesis using edge f update_live(1) [OF assms(1) id assms(2) False, of 1] by auto
  qed
qed

theorem finalize_moves_exactly_witness:
  "finalize_for_run_status sample_unit_env (PUuid 1) ''completed'' (begin_session [(1, sample_unit ''waiting'')]) =
     (False, begin_session [(1, sample_unit ''waiting'')])"
proof -
  let ?s = "begin_session [(1, sample_unit ''waiting'')]"
  have "live sample_unit_env ?s" by (simp add: live_def begin_session_def sample_unit_env_def)
  moreover have "map_of (view ?s) 1 = Some (sample_unit ''waiting'')" "unit_ok (sample_unit ''waiting'')"
    "dget RUN_TO_UNIT_TERMINAL ''completed'' = Some ''completed''"
    by (simp_all add: view_def begin_session_def unit_ok_def sample_unit_def STATUS_TRANSITIONS_def RUN_TO_UNIT_TERMINAL_def)
  moreover have "xu_status (sample_unit ''waiting'') = ''waiting''" by (simp add: sample_unit_def)
  ultimately show ?thesis using finalize_moves_exactly [of sample_unit_env ?s 1 "sample_unit ''waiting''" "''completed''" "''completed''"] by simp
qed

text \<open>
  Two sessions can take a unit out of its end: when both have read it as executing, each of their
  updates passes its check, and after both commit the unit that the first one completed is failed,
  although completed has no outgoing edge.
\<close>

theorem concurrent_sessions_leave_final_status:
  assumes "live e (begin_session rows)" "live e' (begin_session rows)" "map_of rows n = Some u" "xu_status u = ''executing''"
  shows "\<exists>s1 s2 u1 u2. update_status e 0 (PUuid n) ''completed'' (begin_session rows) = (True, s1)
    \<and> update_status e' 0 (PUuid n) ''failed'' (begin_session rows) = (True, s2)
    \<and> map_of (commit_session s1 rows) n = Some u1 \<and> xu_status u1 = ''completed'' \<and> allowed_next ''completed'' = []
    \<and> map_of (commit_session s2 (commit_session s1 rows)) n = Some u2 \<and> xu_status u2 = ''failed''"
proof -
  have id: "coerce_uuid (PUuid n) = Some n" by (simp add: coerce_uuid_def)
  have v: "map_of (view (begin_session rows)) n = Some u" using assms(3) by (simp add: view_def begin_session_def)
  have st: "\<exists>w. status_write e 0 st u = Some w \<and> (\<forall>x. xu_status (write_columns w x) = st)"
    if "st = ''completed'' \<or> st = ''failed''" for e :: unit_env and st
    using that assms(4) by (auto simp: status_write_def allowed_next_def STATUS_TRANSITIONS_def dget_or_def Let_def)
  from st [of "''completed''" e] st [of "''failed''" e'] obtain w1 w2 where
    w: "status_write e 0 ''completed'' u = Some w1" "\<forall>x. xu_status (write_columns w1 x) = ''completed''"
      "status_write e' 0 ''failed'' u = Some w2" "\<forall>x. xu_status (write_columns w2 x) = ''failed''" by blast
  let ?s = "\<lambda>w. (begin_session rows)\<lparr>ss_writes := ss_writes (begin_session rows) @ [(n, w)]\<rparr>"
  have c: "commit_session (?s w) rows' = apply_write (n, w) rows'" for w rows'
    by (simp add: commit_session_def begin_session_def)
  have r1: "map_of (commit_session (?s w1) rows) n = Some (write_columns w1 u)"
    unfolding c using map_of_written [OF assms(3), of w1 n] by simp
  have r2: "map_of (commit_session (?s w2) (commit_session (?s w1) rows)) n = Some (write_columns w2 (write_columns w1 u))"
    unfolding c [of w2] using map_of_written [OF r1, of w2 n] by simp
  show ?thesis
    using touch_live [OF assms(1) id v, of 0 "status_write e 0 ''completed''"]
      touch_live [OF assms(2) id v, of 0 "status_write e' 0 ''failed''"] w r1 r2 final_statuses(1)
    by (intro exI [of _ "?s w1"] exI [of _ "?s w2"] exI [of _ "write_columns w1 u"] exI [of _ "write_columns w2 (write_columns w1 u)"])
      (simp add: update_status_def)
qed

theorem concurrent_sessions_leave_final_status_witness:
  "\<exists>s1 s2 u1 u2. update_status sample_unit_env 0 (PUuid 1) ''completed'' (begin_session [(1, sample_unit ''executing'')]) = (True, s1)
     \<and> update_status sample_unit_env 0 (PUuid 1) ''failed'' (begin_session [(1, sample_unit ''executing'')]) = (True, s2)
     \<and> map_of (commit_session s1 [(1, sample_unit ''executing'')]) 1 = Some u1 \<and> xu_status u1 = ''completed''
     \<and> map_of (commit_session s2 (commit_session s1 [(1, sample_unit ''executing'')])) 1 = Some u2 \<and> xu_status u2 = ''failed''"
proof -
  let ?rows = "[(1, sample_unit ''executing'')]"
  have "live sample_unit_env (begin_session ?rows)" by (simp add: live_def begin_session_def sample_unit_env_def)
  moreover have "map_of ?rows 1 = Some (sample_unit ''executing'')" "xu_status (sample_unit ''executing'') = ''executing''"
    by (simp_all add: sample_unit_def)
  ultimately show ?thesis
    using concurrent_sessions_leave_final_status [of sample_unit_env ?rows sample_unit_env 1 "sample_unit ''executing''"] by blast
qed

end
