(* ===== verification/Execution_Record.thy ===== *)
theory Execution_Record
  imports Execution_Unit Condition_Codes
begin

text \<open>
  Read-only views of runs: the unit-shaped views of agent runs, flow runs and job logs
  (\<^verbatim>\<open>core/execution_unit_service.py\<close>) and the execution record built from them
  (\<^verbatim>\<open>core/execution_record_service.py\<close>). An ORM object is the dictionary of its attributes; a timestamp is
  carried as its ISO text.
\<close>


section \<open>Views\<close>

definition attr :: "payload \<Rightarrow> string \<Rightarrow> pyval" where
  "attr o' k = (case dget o' k of None \<Rightarrow> PNone | Some v \<Rightarrow> v)"

definition str_or_none :: "pyval \<Rightarrow> pyval" where
  "str_or_none v = (if truthy v then PStr (py_str v) else PNone)"

definition iso_text :: "pyval \<Rightarrow> pyval" where
  "iso_text v = (if v = PNone then PNone else PStr (py_str v))"

definition map_status :: "string dict \<Rightarrow> pyval \<Rightarrow> string" where
  "map_status table status = (case status of PStr s \<Rightarrow> dget_or table s ''pending'' | _ \<Rightarrow> ''pending'')"

definition map_agent_status :: "pyval \<Rightarrow> string" where
  "map_agent_status = map_status
     [(''pending_approval'', ''pending''), (''approved'', ''pending''), (''executing'', ''executing''),
      (''completed'', ''completed''), (''failed'', ''failed''), (''rejected'', ''failed'')]"

definition map_flow_status :: "pyval \<Rightarrow> string" where
  "map_flow_status = map_status
     [(''running'', ''executing''), (''waiting'', ''waiting''), (''success'', ''completed''), (''failed'', ''failed'')]"

definition map_job_status :: "pyval \<Rightarrow> string" where
  "map_job_status = map_status
     [(''pending'', ''pending''), (''queued'', ''pending''), (''deferred'', ''pending''), (''ignored'', ''pending''),
      (''running'', ''executing''), (''success'', ''completed''), (''completed'', ''completed''),
      (''failed'', ''failed''), (''error'', ''failed'')]"

definition status_attr :: "payload \<Rightarrow> pyval" where
  "status_attr o' = (case dget o' ''status'' of None \<Rightarrow> PStr ''pending'' | Some v \<Rightarrow> v)"

definition view_from_agent_run :: "payload \<Rightarrow> payload" where
  "view_from_agent_run run =
     [(''id'', PNone), (''type'', PStr ''agent''), (''status'', PStr (map_agent_status (status_attr run))),
      (''user_id'', str_or_none (attr run ''user_id'')), (''source_type'', PStr ''agent_run''),
      (''source_id'', PStr (py_str (attr run ''id''))), (''parent_id'', PNone),
      (''flow_run_id'', str_or_none (attr run ''flow_run_id'')),
      (''correlation_id'', str_or_none (attr run ''correlation_id'')),
      (''memory_context_ids'', PList []), (''output_memory_ids'', PList []),
      (''extra'', PDict [(''objective'', attr run ''objective''), (''trace_id'', str_or_none (attr run ''trace_id''))]),
      (''created_at'', iso_text (attr run ''created_at'')), (''updated_at'', iso_text (attr run ''updated_at'')),
      (''completed_at'', iso_text (attr run ''completed_at''))]"

definition view_from_flow_run :: "payload \<Rightarrow> payload" where
  "view_from_flow_run run =
     [(''id'', PNone), (''type'', PStr ''flow''), (''status'', PStr (map_flow_status (status_attr run))),
      (''user_id'', str_or_none (attr run ''user_id'')), (''source_type'', PStr ''flow_run''),
      (''source_id'', PStr (py_str (attr run ''id''))), (''parent_id'', PNone),
      (''flow_run_id'', PStr (py_str (attr run ''id''))), (''correlation_id'', PNone),
      (''memory_context_ids'', PList []), (''output_memory_ids'', PList []),
      (''extra'', PDict [(''flow_name'', attr run ''flow_name''), (''workflow_type'', attr run ''workflow_type'')]),
      (''created_at'', iso_text (attr run ''created_at'')), (''updated_at'', iso_text (attr run ''updated_at'')),
      (''completed_at'', iso_text (attr run ''completed_at''))]"

definition view_from_job_log :: "payload \<Rightarrow> payload" where
  "view_from_job_log log =
     [(''id'', PNone), (''type'', PStr ''job''), (''status'', PStr (map_job_status (status_attr log))),
      (''user_id'', str_or_none (attr log ''user_id'')), (''source_type'', PStr ''job_log''),
      (''source_id'', PStr (py_str (attr log ''id''))), (''parent_id'', PNone), (''flow_run_id'', PNone),
      (''correlation_id'', PStr (py_str (if truthy (attr log ''trace_id'') then attr log ''trace_id'' else attr log ''id''))),
      (''memory_context_ids'', PList []), (''output_memory_ids'', PList []),
      (''extra'', PDict [(''task_name'', attr log ''task_name''), (''job_name'', attr log ''job_name''),
         (''source'', attr log ''source''), (''attempt_count'', attr log ''attempt_count''),
         (''max_attempts'', attr log ''max_attempts'')]),
      (''created_at'', iso_text (attr log ''created_at'')), (''updated_at'', iso_text (attr log ''updated_at'')),
      (''completed_at'', iso_text (attr log ''completed_at''))]"

text \<open>\<^verbatim>\<open>to_dict\<close> of a unit, \<open>iso\<close> being \<^verbatim>\<open>datetime.isoformat\<close>.\<close>

definition opt_str :: "string option \<Rightarrow> pyval" where
  "opt_str v = (case v of None \<Rightarrow> PNone | Some s \<Rightarrow> PStr s)"

definition opt_uuid :: "nat option \<Rightarrow> pyval" where
  "opt_uuid v = (case v of None \<Rightarrow> PNone | Some n \<Rightarrow> PStr (uuid_str n))"

definition unit_to_dict :: "(time \<Rightarrow> string) \<Rightarrow> nat \<times> ExecutionUnit \<Rightarrow> payload" where
  "unit_to_dict iso' r =
     (case r of (n, u) \<Rightarrow>
       [(''id'', PStr (uuid_str n)), (''type'', PStr (xu_type u)), (''status'', PStr (xu_status u)),
        (''user_id'', opt_uuid (xu_user_id u)), (''source_type'', opt_str (xu_source_type u)),
        (''source_id'', opt_str (xu_source_id u)), (''parent_id'', opt_uuid (xu_parent_id u)),
        (''flow_run_id'', opt_str (xu_flow_run_id u)), (''correlation_id'', opt_str (xu_correlation_id u)),
        (''memory_context_ids'', PList (map PStr (xu_memory_context_ids u))),
        (''output_memory_ids'', PList (map PStr (xu_output_memory_ids u))), (''extra'', xu_extra u),
        (''created_at'', PStr (iso' (xu_created_at u))), (''updated_at'', PStr (iso' (xu_updated_at u))),
        (''completed_at'', case xu_completed_at u of None \<Rightarrow> PNone | Some t \<Rightarrow> PStr (iso' t))])"


section \<open>Execution records\<close>

definition py_or :: "pyval \<Rightarrow> pyval \<Rightarrow> pyval" where
  "py_or a b = (if truthy a then a else b)"

record record_args =
  ra_run_id :: pyval
  ra_trace_id :: pyval
  ra_execution_unit_id :: pyval
  ra_parent_run_id :: pyval
  ra_workflow_type :: pyval
  ra_status :: pyval
  ra_error :: pyval
  ra_actor :: pyval
  ra_source :: pyval
  ra_result_summary :: pyval
  ra_correlation_id :: pyval
  ra_execution_unit :: payload

text \<open>
  \<^verbatim>\<open>unit.get("extra", {}).get("workflow_type")\<close> is evaluated only when no workflow type is given, and raises
  when \<^verbatim>\<open>extra\<close> is present and not a dictionary.
\<close>

definition extra_workflow_type :: "payload \<Rightarrow> py_exc + pyval" where
  "extra_workflow_type unit =
     (case dget unit ''extra'' of
        None \<Rightarrow> Inr PNone
      | Some (PDict x) \<Rightarrow> Inr (attr x ''workflow_type'')
      | Some _ \<Rightarrow> Inl (AttributeError ''get''))"

definition build_execution_record :: "record_args \<Rightarrow> py_exc + payload" where
  "build_execution_record a =
     (let unit = ra_execution_unit a in
      bind_result (if truthy (ra_workflow_type a) then Inr (ra_workflow_type a) else extra_workflow_type unit) (\<lambda>wt.
      Inr [(''run_id'', ra_run_id a), (''trace_id'', py_or (ra_trace_id a) (ra_run_id a)),
           (''execution_unit_id'', py_or (py_or (ra_execution_unit_id a) (attr unit ''id'')) (ra_run_id a)),
           (''parent_run_id'', ra_parent_run_id a), (''workflow_type'', wt), (''status'', ra_status a),
           (''error'', ra_error a), (''actor'', ra_actor a), (''source'', ra_source a),
           (''correlation_id'', py_or (ra_correlation_id a) (attr unit ''correlation_id'')),
           (''result_summary'', ra_result_summary a),
           (''execution_unit'', if unit = [] then PNone else PDict unit)]))"

definition str_or_empty :: "pyval \<Rightarrow> pyval" where
  "str_or_empty v = PStr (py_str (py_or v (PStr [])))"

definition record_from_flow_run :: "payload \<Rightarrow> pyval \<Rightarrow> pyval \<Rightarrow> pyval \<Rightarrow> py_exc + payload" where
  "record_from_flow_run run status err summary =
     build_execution_record
       \<lparr>ra_run_id = str_or_empty (attr run ''id''), ra_trace_id = attr run ''trace_id'',
        ra_execution_unit_id = str_or_empty (attr run ''id''), ra_parent_run_id = PNone,
        ra_workflow_type = attr run ''workflow_type'', ra_status = py_or status (attr run ''status''),
        ra_error = py_or err (attr run ''error_message''), ra_actor = PStr ''flow'', ra_source = PStr ''flow'',
        ra_result_summary = summary, ra_correlation_id = PNone, ra_execution_unit = view_from_flow_run run\<rparr>"

definition record_from_agent_run :: "payload \<Rightarrow> pyval \<Rightarrow> py_exc + payload" where
  "record_from_agent_run run summary =
     build_execution_record
       \<lparr>ra_run_id = str_or_empty (attr run ''id''), ra_trace_id = attr run ''trace_id'',
        ra_execution_unit_id = str_or_empty (py_or (attr run ''flow_run_id'') (attr run ''id'')),
        ra_parent_run_id = py_or (str_or_empty (attr run ''replayed_from_run_id'')) PNone,
        ra_workflow_type = PStr ''agent_execution'', ra_status = attr run ''status'',
        ra_error = attr run ''error_message'', ra_actor = PStr ''agent'', ra_source = PStr ''agent'',
        ra_result_summary = (if summary \<noteq> PNone then summary else attr run ''result''),
        ra_correlation_id = attr run ''correlation_id'', ra_execution_unit = view_from_agent_run run\<rparr>"

definition record_from_job_log :: "payload \<Rightarrow> pyval \<Rightarrow> pyval \<Rightarrow> pyval \<Rightarrow> pyval \<Rightarrow> payload \<Rightarrow> py_exc + payload" where
  "record_from_job_log log wt actor source summary unit =
     build_execution_record
       \<lparr>ra_run_id = str_or_empty (attr log ''id''),
        ra_trace_id = py_or (attr log ''trace_id'') (str_or_empty (attr log ''id'')),
        ra_execution_unit_id = str_or_empty (attr log ''id''), ra_parent_run_id = PNone,
        ra_workflow_type = wt, ra_status = attr log ''status'',
        ra_error = attr log ''error_message'', ra_actor = actor, ra_source = py_or source (attr log ''source''),
        ra_result_summary = (if summary \<noteq> PNone then summary else attr log ''result''),
        ra_correlation_id = str_or_empty (attr log ''id''),
        ra_execution_unit = (if unit \<noteq> [] then unit else view_from_job_log log)\<rparr>"


section \<open>What the views say\<close>

lemma map_status_range:
  "map_status table v \<in> insert ''pending'' (snd ` set table)"
  by (auto simp: map_status_def dget_or_def split: pyval.splits option.splits dest!: map_of_SomeD)
    (metis rev_image_eqI snd_conv)

lemma unit_statuses:
  "set (dkeys STATUS_TRANSITIONS) = {''pending'', ''executing'', ''waiting'', ''resumed'', ''completed'', ''failed'', ''refused''}"
  by (simp add: STATUS_TRANSITIONS_def)


lemmas map_tables = map_agent_status_def map_flow_status_def map_job_status_def

lemma views_use_unit_statuses:
  "map_agent_status v \<in> set (dkeys STATUS_TRANSITIONS)"
  "map_flow_status v \<in> set (dkeys STATUS_TRANSITIONS)"
  "map_job_status v \<in> set (dkeys STATUS_TRANSITIONS)"
  unfolding map_tables unit_statuses using map_status_range [of _ v] by fastforce+

lemma open_statuses:
  "(allowed_next s = []) = (s \<notin> {''pending'', ''executing'', ''waiting'', ''resumed''})"
  by (simp add: allowed_next_def STATUS_TRANSITIONS_def dget_or_def)

lemma agent_views:
  "map_agent_status (PStr (agent_value a)) =
     (case a of A_EXECUTING \<Rightarrow> ''executing'' | A_COMPLETED \<Rightarrow> ''completed'' | A_FAILED \<Rightarrow> ''failed'' | _ \<Rightarrow> ''pending'')"
  by (cases a) (simp_all add: map_agent_status_def map_status_def dget_or_def)

lemma flow_views:
  "map_flow_status (PStr (flow_value f)) =
     (case f of F_RUNNING \<Rightarrow> ''executing'' | F_WAITING \<Rightarrow> ''waiting'' | F_SUCCESS \<Rightarrow> ''completed'' | F_FAILED \<Rightarrow> ''failed'' | _ \<Rightarrow> ''pending'')"
  by (cases f) (simp_all add: map_flow_status_def map_status_def dget_or_def)


lemma agent_record:
  "\<exists>r. record_from_agent_run run summary = Inr r \<and> dget r ''status'' = Some (attr run ''status'')
     \<and> dget r ''execution_unit'' = Some (PDict (view_from_agent_run run))"
proof -
  have "view_from_agent_run run \<noteq> []" by (simp add: view_from_agent_run_def)
  then show ?thesis by (simp add: record_from_agent_run_def build_execution_record_def Let_def)
qed

lemma view_statuses:
  "dget (view_from_agent_run run) ''status'' = Some (PStr (map_agent_status (status_attr run)))"
  "dget (view_from_flow_run run) ''status'' = Some (PStr (map_flow_status (status_attr run)))"
  by (simp_all add: view_from_agent_run_def view_from_flow_run_def)

lemma status_attr_given: "dget run ''status'' = Some v \<Longrightarrow> attr run ''status'' = v \<and> status_attr run = v"
  by (simp add: attr_def status_attr_def)

text \<open>The unit view of a run always has a status of the unit machine, and it is final exactly for the runs that have
  ended, except that a cancelled or verify_failed agent run and a completed flow run are shown as pending: the record of
  such an agent run then carries its real status beside a pending unit. A flow run that is executing, the status the
  flow runner sets when it claims a run, is shown as pending too.\<close>
theorem ended_runs_viewed_as_pending:
  assumes "dget run ''status'' = Some (PStr (agent_value a))" "dget frun ''status'' = Some (PStr (flow_value f))"
  shows "\<exists>r u us fs. record_from_agent_run run summary = Inr r
    \<and> dget r ''status'' = Some (PStr (agent_value a)) \<and> dget r ''execution_unit'' = Some (PDict u)
    \<and> dget u ''status'' = Some (PStr us) \<and> us \<in> set (dkeys STATUS_TRANSITIONS)
    \<and> (allowed_next us = [] \<longleftrightarrow> is_agent_terminal (Some (agent_value a)) \<and> a \<notin> {A_CANCELLED, A_VERIFY_FAILED})
    \<and> (a \<in> {A_CANCELLED, A_VERIFY_FAILED} \<longrightarrow> us = ''pending'')
    \<and> dget (view_from_flow_run frun) ''status'' = Some (PStr fs) \<and> fs \<in> set (dkeys STATUS_TRANSITIONS)
    \<and> (allowed_next fs = [] \<longleftrightarrow> is_flow_terminal (Some (flow_value f)) \<and> f \<noteq> F_COMPLETED)
    \<and> (f \<in> {F_COMPLETED, F_EXECUTING} \<longrightarrow> fs = ''pending'')"
proof -
  let ?us = "map_agent_status (PStr (agent_value a))" and ?fs = "map_flow_status (PStr (flow_value f))"
  obtain r where r: "record_from_agent_run run summary = Inr r" "dget r ''status'' = Some (PStr (agent_value a))"
      "dget r ''execution_unit'' = Some (PDict (view_from_agent_run run))"
    using agent_record [of run summary] status_attr_given [OF assms(1)] by auto
  have "dget (view_from_agent_run run) ''status'' = Some (PStr ?us)" "dget (view_from_flow_run frun) ''status'' = Some (PStr ?fs)"
    using status_attr_given [OF assms(1)] status_attr_given [OF assms(2)] by (simp_all add: view_statuses)
  moreover have "allowed_next ?us = [] \<longleftrightarrow> is_agent_terminal (Some (agent_value a)) \<and> a \<notin> {A_CANCELLED, A_VERIFY_FAILED}"
    "a \<in> {A_CANCELLED, A_VERIFY_FAILED} \<longrightarrow> ?us = ''pending''"
    unfolding agent_views open_statuses by (cases a; simp add: is_agent_terminal_def AGENT_TERMINAL_STATUSES_def)+
  moreover have "allowed_next ?fs = [] \<longleftrightarrow> is_flow_terminal (Some (flow_value f)) \<and> f \<noteq> F_COMPLETED"
    "f \<in> {F_COMPLETED, F_EXECUTING} \<longrightarrow> ?fs = ''pending''"
    unfolding flow_views open_statuses by (cases f; simp add: is_flow_terminal_def FLOW_TERMINAL_STATUSES_def)+
  ultimately show ?thesis using r views_use_unit_statuses by blast
qed

theorem ended_runs_viewed_as_pending_witness:
  "\<exists>r u. record_from_agent_run [(''id'', PUuid 7), (''status'', PStr ''cancelled'')] PNone = Inr r
    \<and> dget r ''status'' = Some (PStr ''cancelled'') \<and> dget r ''execution_unit'' = Some (PDict u)
    \<and> dget u ''status'' = Some (PStr ''pending'')"
  using ended_runs_viewed_as_pending [of "[(''id'', PUuid 7), (''status'', PStr ''cancelled'')]" A_CANCELLED
      "[(''id'', PUuid 8), (''status'', PStr ''executing'')]" F_EXECUTING PNone]
  by auto

end
