(* ===== verification/Distributed_Queue.thy ===== *)
theory Distributed_Queue
  imports Py_Values "HOL-Library.Multiset"
begin

text \<open>
  The job queue (\<^verbatim>\<open>core/distributed_queue.py\<close>): what an asynchronous job is carried as, the contract of a
  backend, and its two implementations, the in-memory queue of one process and the queue shared
  over Redis.
\<close>


section \<open>Jobs\<close>

record QueueJobPayload =
  job_id :: string
  task_name :: string
  idempotency_key :: string
  job_context :: payload
  retry_metadata :: payload
  enqueued_at :: string

definition new_QueueJobPayload :: "string \<Rightarrow> string \<Rightarrow> string \<Rightarrow> payload \<Rightarrow> payload \<Rightarrow> string \<Rightarrow> QueueJobPayload" where
  "new_QueueJobPayload jid task key ctx meta stamp =
     \<lparr>job_id = jid, task_name = task, idempotency_key = (if key = [] then jid else key),
      job_context = ctx, retry_metadata = meta, enqueued_at = stamp\<rparr>"

record dead_letter =
  dl_job_id :: string
  dl_payload :: "QueueJobPayload option"
  dl_error :: string
  dl_failed_at :: time

datatype queue_error = Saturated int | Redis_error

text \<open>Limits, from the environment and the settings object (\<open>configured\<close> gives its attributes).\<close>

definition safe_int_env :: "env \<Rightarrow> (string \<Rightarrow> pyval option) \<Rightarrow> string \<Rightarrow> int \<Rightarrow> int" where
  "safe_int_env ev configured name dflt =
     (case ev name of
        Some raw \<Rightarrow> (case py_int10 raw of Some i \<Rightarrow> i | None \<Rightarrow> dflt)
      | None \<Rightarrow>
          (case configured name of
             None \<Rightarrow> dflt
           | Some (PInt i) \<Rightarrow> i
           | Some (PBool b) \<Rightarrow> (if b then 1 else 0)
           | Some (PStr t) \<Rightarrow> (case py_int10 t of Some i \<Rightarrow> i | None \<Rightarrow> dflt)
           | Some _ \<Rightarrow> dflt))"

definition queue_capacity_limit :: "env \<Rightarrow> (string \<Rightarrow> pyval option) \<Rightarrow> int" where
  "queue_capacity_limit ev configured =
     max 1 (safe_int_env ev configured ''MAX_QUEUE_SIZE''
       (safe_int_env ev configured ''AINDY_ASYNC_QUEUE_MAXSIZE'' 100))"

definition saturation_threshold :: "env \<Rightarrow> (string \<Rightarrow> pyval option) \<Rightarrow> int" where
  "saturation_threshold ev configured =
     (let limit = queue_capacity_limit ev configured in
      max 1 (min (safe_int_env ev configured ''AINDY_QUEUE_SATURATION_THRESHOLD'' limit) limit))"


section \<open>The in-memory backend\<close>

text \<open>
  \<open>mq_q\<close> is the \<^verbatim>\<open>queue.Queue\<close>, next job first; \<open>mq_timers\<close> the payloads of the timers that have not
  fired (their number is \<^verbatim>\<open>_delayed_count\<close>); \<open>mq_blocked\<close> the jobs a call of \<^verbatim>\<open>requeue_stale_jobs\<close>
  still holds because its \<^verbatim>\<open>put\<close> waits for a free place.
\<close>

record mem_queue =
  mq_q :: "QueueJobPayload list"
  mq_inflight :: "(QueueJobPayload \<times> time) dict"
  mq_dlq :: "dead_letter list"
  mq_timers :: "QueueJobPayload list"
  mq_blocked :: "QueueJobPayload list"
  mq_max :: int

definition new_mem_queue :: "int \<Rightarrow> mem_queue" where
  "new_mem_queue cap = \<lparr>mq_q = [], mq_inflight = [], mq_dlq = [], mq_timers = [], mq_blocked = [], mq_max = cap\<rparr>"

definition mem_pending_depth :: "mem_queue \<Rightarrow> int" where
  "mem_pending_depth s = int (length (mq_q s) + length (mq_timers s))"

definition mem_full :: "mem_queue \<Rightarrow> bool" where
  "mem_full s = (mq_max s \<le> int (length (mq_q s)))"

definition mem_enqueue :: "QueueJobPayload \<Rightarrow> mem_queue \<Rightarrow> queue_error option \<times> mem_queue" where
  "mem_enqueue job s =
     (if mq_max s \<le> mem_pending_depth s then (Some (Saturated (mq_max s)), s)
      else (None, s\<lparr>mq_q := mq_q s @ [job]\<rparr>))"

definition mem_dequeue :: "time \<Rightarrow> mem_queue \<Rightarrow> QueueJobPayload option \<times> mem_queue" where
  "mem_dequeue now s =
     (case mq_q s of
        [] \<Rightarrow> (None, s)
      | job # rest \<Rightarrow> (Some job, s\<lparr>mq_q := rest, mq_inflight := dset (job_id job) (job, now) (mq_inflight s)\<rparr>))"

definition mem_ack :: "string \<Rightarrow> mem_queue \<Rightarrow> mem_queue" where
  "mem_ack jid s = s\<lparr>mq_inflight := dpop jid (mq_inflight s)\<rparr>"

definition mem_fail :: "time \<Rightarrow> string \<Rightarrow> string \<Rightarrow> mem_queue \<Rightarrow> mem_queue" where
  "mem_fail now jid err s =
     s\<lparr>mq_inflight := dpop jid (mq_inflight s),
       mq_dlq := mq_dlq s @ [\<lparr>dl_job_id = jid, dl_payload = map_option fst (dget (mq_inflight s) jid),
                              dl_error = err, dl_failed_at = now\<rparr>]\<rparr>"

definition mem_enqueue_delayed :: "QueueJobPayload \<Rightarrow> mem_queue \<Rightarrow> queue_error option \<times> mem_queue" where
  "mem_enqueue_delayed job s =
     (if mq_max s \<le> mem_pending_depth s then (Some (Saturated (mq_max s)), s)
      else (None, s\<lparr>mq_timers := mq_timers s @ [job]\<rparr>))"

text \<open>The \<open>i\<close>-th timer fires: \<^verbatim>\<open>put_nowait\<close> raises when the queue is full, and the count goes down anyway.\<close>

definition mem_fire :: "nat \<Rightarrow> mem_queue \<Rightarrow> mem_queue" where
  "mem_fire i s =
     (if length (mq_timers s) \<le> i then s
      else
        let job = mq_timers s ! i; rest = take i (mq_timers s) @ drop (i + 1) (mq_timers s)
        in if mem_full s then s\<lparr>mq_timers := rest\<rparr> else s\<lparr>mq_q := mq_q s @ [job], mq_timers := rest\<rparr>)"

definition stale :: "time \<Rightarrow> int \<Rightarrow> string \<times> QueueJobPayload \<times> time \<Rightarrow> bool" where
  "stale now timeout_seconds e = (timeout_seconds * secs < now - snd (snd e))"

definition mem_requeue_stale_jobs :: "time \<Rightarrow> int \<Rightarrow> mem_queue \<Rightarrow> mem_queue" where
  "mem_requeue_stale_jobs now timeout_seconds s =
     (let old = map (\<lambda>e. fst (snd e)) (filter (stale now timeout_seconds) (mq_inflight s));
          room = nat (mq_max s - int (length (mq_q s)))
      in s\<lparr>mq_inflight := filter (\<lambda>e. \<not> stale now timeout_seconds e) (mq_inflight s),
           mq_q := mq_q s @ take room old, mq_blocked := mq_blocked s @ drop room old\<rparr>)"

text \<open>A waiting \<^verbatim>\<open>put\<close> gets the place a dequeue has freed.\<close>

definition mem_unblock :: "mem_queue \<Rightarrow> mem_queue" where
  "mem_unblock s =
     (case mq_blocked s of
        [] \<Rightarrow> s
      | job # rest \<Rightarrow> if mem_full s then s else s\<lparr>mq_q := mq_q s @ [job], mq_blocked := rest\<rparr>)"

fun drop_first :: "('a \<Rightarrow> bool) \<Rightarrow> 'a list \<Rightarrow> 'a list" where
  "drop_first P [] = []"
| "drop_first P (x # xs) = (if P x then xs else x # drop_first P xs)"

definition mem_remove_dead_letter :: "string \<Rightarrow> mem_queue \<Rightarrow> bool \<times> mem_queue" where
  "mem_remove_dead_letter jid s =
     (list_ex (\<lambda>d. dl_job_id d = jid) (mq_dlq s), s\<lparr>mq_dlq := drop_first (\<lambda>d. dl_job_id d = jid) (mq_dlq s)\<rparr>)"

definition mem_drain_dead_letters :: "mem_queue \<Rightarrow> nat \<times> mem_queue" where
  "mem_drain_dead_letters s = (length (mq_dlq s), s\<lparr>mq_dlq := []\<rparr>)"

definition mem_get_metrics :: "mem_queue \<Rightarrow> nat \<times> nat \<times> nat \<times> nat" where
  "mem_get_metrics s = (length (mq_q s), length (mq_inflight s), length (mq_dlq s), length (mq_timers s))"


section \<open>The Redis backend\<close>

text \<open>
  The four keys. The main list is pushed at its left end and popped at its right end: \<open>rq_main\<close> is in
  the order of the list. A message that \<^verbatim>\<open>from_json\<close> cannot read is \<open>Garbled\<close>; the JSON text of a
  readable one stands for its payload.
\<close>

datatype raw = Raw QueueJobPayload | Garbled string

record redis_queue =
  rq_main :: "raw list"
  rq_inflight :: "(raw \<times> time) dict"
  rq_delayed :: "(raw \<times> time) list"
  rq_dead :: "dead_letter list"
  rq_max :: int
  rq_failure_count :: int
  rq_open_until :: time
  rq_threshold :: int
  rq_open_seconds :: int

definition new_redis_queue :: "int \<Rightarrow> redis_queue" where
  "new_redis_queue cap = \<lparr>rq_main = [], rq_inflight = [], rq_delayed = [], rq_dead = [], rq_max = cap,
     rq_failure_count = 0, rq_open_until = 0, rq_threshold = 5, rq_open_seconds = 30\<rparr>"

text \<open>
  The surroundings of one call: the two clocks, for the \<open>i\<close>-th Redis operation whether it succeeds
  within its attempts (one that does not has no effect and raises), and whether the refresh of the
  gauges at the end of the call can read the queue (it is not guarded, so the call raises otherwise).
\<close>

record queue_env =
  qe_now :: time
  qe_mono :: time
  qe_ok :: "nat \<Rightarrow> bool"
  qe_metrics :: bool

definition check_circuit_breaker :: "queue_env \<Rightarrow> redis_queue \<Rightarrow> bool" where
  "check_circuit_breaker e s = (\<not> qe_mono e < rq_open_until s)"

definition record_success :: "redis_queue \<Rightarrow> redis_queue" where
  "record_success s = s\<lparr>rq_failure_count := 0, rq_open_until := 0\<rparr>"

definition record_failure :: "queue_env \<Rightarrow> redis_queue \<Rightarrow> redis_queue" where
  "record_failure e s =
     (let n = rq_failure_count s + 1; s1 = s\<lparr>rq_failure_count := n\<rparr>
      in if rq_threshold s \<le> n then s1\<lparr>rq_open_until := qe_mono e + rq_open_seconds s * secs\<rparr> else s1)"

definition run_redis_operation :: "queue_env \<Rightarrow> nat \<Rightarrow> (redis_queue \<Rightarrow> redis_queue) \<Rightarrow> redis_queue \<Rightarrow> bool \<times> redis_queue" where
  "run_redis_operation e i f s = (if qe_ok e i then (True, record_success (f s)) else (False, record_failure e s))"

definition redis_saturated :: "redis_queue \<Rightarrow> bool" where
  "redis_saturated s = (rq_max s \<le> int (length (rq_main s) + length (rq_delayed s)))"

definition redis_enqueue :: "queue_env \<Rightarrow> QueueJobPayload \<Rightarrow> redis_queue \<Rightarrow> queue_error option \<times> redis_queue" where
  "redis_enqueue e job s =
     (if \<not> check_circuit_breaker e s then (Some Redis_error, s)
      else
        let (ok, s1) = run_redis_operation e 0
              (\<lambda>s. if redis_saturated s then s else s\<lparr>rq_main := Raw job # rq_main s\<rparr>) s
        in if \<not> ok then (Some Redis_error, s1)
           else if redis_saturated s then (Some (Saturated (rq_max s)), s1)
           else (if qe_metrics e then None else Some Redis_error, s1))"

definition redis_dequeue :: "queue_env \<Rightarrow> redis_queue \<Rightarrow> (queue_error + QueueJobPayload option) \<times> redis_queue" where
  "redis_dequeue e s =
     (if \<not> check_circuit_breaker e s then (Inl Redis_error, s)
      else
        let (ok, s1) = run_redis_operation e 0 (\<lambda>s. s\<lparr>rq_main := butlast (rq_main s)\<rparr>) s
        in if \<not> ok then (Inl Redis_error, s1)
           else if rq_main s = [] then (Inr None, s1)
           else (case last (rq_main s) of
               Garbled _ \<Rightarrow> (Inr None, s1)
             | Raw job \<Rightarrow>
                 let (ok2, s2) = run_redis_operation e 1
                       (\<lambda>s. s\<lparr>rq_inflight := dset (job_id job) (Raw job, qe_now e) (rq_inflight s)\<rparr>) s1
                 in if ok2 \<and> qe_metrics e then (Inr (Some job), s2) else (Inl Redis_error, s2)))"

definition redis_ack :: "queue_env \<Rightarrow> string \<Rightarrow> redis_queue \<Rightarrow> bool \<times> redis_queue" where
  "redis_ack e jid s =
     (let (ok, s1) = run_redis_operation e 0 (\<lambda>s. s\<lparr>rq_inflight := dpop jid (rq_inflight s)\<rparr>) s
      in (ok \<and> qe_metrics e, s1))"

definition raw_job :: "raw \<Rightarrow> QueueJobPayload option" where
  "raw_job r = (case r of Raw job \<Rightarrow> Some job | Garbled _ \<Rightarrow> None)"

definition redis_fail :: "queue_env \<Rightarrow> string \<Rightarrow> string \<Rightarrow> redis_queue \<Rightarrow> bool \<times> redis_queue" where
  "redis_fail e jid err s =
     (let (ok0, s0) = run_redis_operation e 0 id s
      in if \<not> ok0 then (False, s0)
         else
           let (ok1, s1) = run_redis_operation e 1 (\<lambda>s. s\<lparr>rq_inflight := dpop jid (rq_inflight s)\<rparr>) s0
           in if \<not> ok1 then (False, s1)
              else
                let (ok2, s2) = run_redis_operation e 2
                      (\<lambda>s2. s2\<lparr>rq_dead := \<lparr>dl_job_id = jid,
                          dl_payload = Option.bind (dget (rq_inflight s) jid) (\<lambda>x. raw_job (fst x)),
                          dl_error = err, dl_failed_at = qe_now e\<rparr> # rq_dead s2\<rparr>) s1
                in (ok2 \<and> qe_metrics e, s2))"

definition redis_enqueue_delayed :: "queue_env \<Rightarrow> QueueJobPayload \<Rightarrow> time \<Rightarrow> redis_queue \<Rightarrow> queue_error option \<times> redis_queue" where
  "redis_enqueue_delayed e job delay s =
     (let (ok, s1) = run_redis_operation e 0
            (\<lambda>s. if redis_saturated s then s
                 else s\<lparr>rq_delayed := AList.update (Raw job) (qe_now e + delay) (rq_delayed s)\<rparr>) s
      in if \<not> ok then (Some Redis_error, s1)
         else if redis_saturated s then (Some (Saturated (rq_max s)), s1)
         else (if qe_metrics e then None else Some Redis_error, s1))"

text \<open>The script: the first hundred due messages by score, each pushed and removed.\<close>

definition due_delayed :: "time \<Rightarrow> redis_queue \<Rightarrow> (raw \<times> time) list" where
  "due_delayed now s = take 100 (sort_key snd (filter (\<lambda>d. snd d \<le> now) (rq_delayed s)))"

definition redis_process_delayed_jobs :: "queue_env \<Rightarrow> redis_queue \<Rightarrow> nat option \<times> redis_queue" where
  "redis_process_delayed_jobs e s =
     (let ready = due_delayed (qe_now e) s;
          (ok, s1) = run_redis_operation e 0
            (\<lambda>s. s\<lparr>rq_main := rev (map fst ready) @ rq_main s,
                   rq_delayed := filter (\<lambda>d. fst d \<notin> fst ` set ready) (rq_delayed s)\<rparr>) s
      in (if ok \<and> qe_metrics e then Some (length ready) else None, s1))"

text \<open>
  The scan of the in-flight hash: each stale entry is deleted and then pushed, two operations; an
  exception of either is logged and the scan goes on.
\<close>

fun redis_requeue_entries ::
  "queue_env \<Rightarrow> int \<Rightarrow> nat \<Rightarrow> (string \<times> raw \<times> time) list \<Rightarrow> nat \<times> redis_queue \<Rightarrow> nat \<times> redis_queue" where
  "redis_requeue_entries e timeout_seconds i [] (n, s) = (n, s)"
| "redis_requeue_entries e timeout_seconds i ((jid, msg, dequeued_at) # rest) (n, s) =
     (if qe_now e - dequeued_at \<le> timeout_seconds * secs then redis_requeue_entries e timeout_seconds i rest (n, s)
      else
        let present = (dget (rq_inflight s) jid \<noteq> None);
            (ok, s1) = run_redis_operation e i (\<lambda>s. s\<lparr>rq_inflight := dpop jid (rq_inflight s)\<rparr>) s
        in if \<not> ok \<or> \<not> present then redis_requeue_entries e timeout_seconds (i + 1) rest (n, s1)
           else
             let (ok2, s2) = run_redis_operation e (i + 1) (\<lambda>s. s\<lparr>rq_main := msg # rq_main s\<rparr>) s1
             in redis_requeue_entries e timeout_seconds (i + 2) rest (if ok2 then n + 1 else n, s2))"

definition redis_requeue_stale_jobs :: "queue_env \<Rightarrow> int \<Rightarrow> redis_queue \<Rightarrow> nat option \<times> redis_queue" where
  "redis_requeue_stale_jobs e timeout_seconds s =
     (let (ok, s1) = run_redis_operation e 0 id s
      in if \<not> ok then (None, s1)
         else (case redis_requeue_entries e timeout_seconds 1 (rq_inflight s) (0, s1) of
                 (n, s2) \<Rightarrow> (if qe_metrics e then Some n else None, s2)))"

definition redis_remove_dead_letter :: "queue_env \<Rightarrow> string \<Rightarrow> redis_queue \<Rightarrow> bool option \<times> redis_queue" where
  "redis_remove_dead_letter e jid s =
     (let (ok, s1) = run_redis_operation e 0 id s
      in if \<not> ok then (None, s1)
         else if \<not> list_ex (\<lambda>d. dl_job_id d = jid) (rq_dead s) then (Some False, s1)
         else
           let (ok2, s2) = run_redis_operation e 1 (\<lambda>s. s\<lparr>rq_dead := drop_first (\<lambda>d. dl_job_id d = jid) (rq_dead s)\<rparr>) s1
           in (if ok2 \<and> qe_metrics e then Some True else None, s2))"

definition redis_drain_dead_letters :: "queue_env \<Rightarrow> redis_queue \<Rightarrow> nat option \<times> redis_queue" where
  "redis_drain_dead_letters e s =
     (if rq_dead s = [] then (Some 0, s)
      else
        let (ok, s1) = run_redis_operation e 0 (\<lambda>s. s\<lparr>rq_dead := []\<rparr>) s
        in (if ok \<and> qe_metrics e then Some (length (rq_dead s)) else None, s1))"

definition redis_get_metrics :: "redis_queue \<Rightarrow> nat \<times> nat \<times> nat \<times> nat" where
  "redis_get_metrics s = (length (rq_main s), length (rq_inflight s), length (rq_dead s), length (rq_delayed s))"

section \<open>The choice of the backend\<close>

text \<open>
  The module-level singleton. \<open>Memory_backend\<close> carries the \<^verbatim>\<open>degraded\<close> flag and the fallback reason.
  \<open>queue_probe\<close> is what the Redis server answers: the exception of the constructor or of the first
  \<^verbatim>\<open>assert_ready\<close>, whether the second one and the reading of the metrics succeed, and the queue the server
  holds under the key.
\<close>

datatype backend = Memory_backend bool "string option" mem_queue | Redis_backend redis_queue

record queue_settings =
  qc_REDIS_URL :: string
  qc_is_prod :: bool
  qc_AINDY_REQUIRE_REDIS :: bool
  qc_attr :: "string \<Rightarrow> pyval option"

record queue_probe =
  qp_unready :: "string option"
  qp_ready_again :: bool
  qp_metrics_ok :: bool
  qp_server :: redis_queue

definition resolve_execution_mode :: "env \<Rightarrow> queue_settings \<Rightarrow> string" where
  "resolve_execution_mode ev cfg =
     (case ev ''EXECUTION_MODE'' of
        Some raw \<Rightarrow> if raw \<noteq> [] then py_lower (py_strip raw)
                    else if qc_is_prod cfg then ''distributed'' else ''thread''
      | None \<Rightarrow> if qc_is_prod cfg then ''distributed'' else ''thread'')"

definition test_flag :: "env \<Rightarrow> string \<Rightarrow> bool" where
  "test_flag ev name =
     ((case ev name of None \<Rightarrow> ''false'' | Some v \<Rightarrow> py_lower v) \<in> set [''1'', ''true'', ''yes''])"

definition redis_url_of :: "env \<Rightarrow> queue_settings \<Rightarrow> string" where
  "redis_url_of ev cfg =
     (if qc_REDIS_URL cfg \<noteq> [] then qc_REDIS_URL cfg else (case ev ''REDIS_URL'' of None \<Rightarrow> [] | Some u \<Rightarrow> u))"

definition build_memory_backend :: "env \<Rightarrow> queue_settings \<Rightarrow> bool \<Rightarrow> string option \<Rightarrow> backend" where
  "build_memory_backend ev cfg degraded reason =
     Memory_backend degraded reason (new_mem_queue (queue_capacity_limit ev (qc_attr cfg)))"

definition fallback_to_memory_backend :: "env \<Rightarrow> queue_settings \<Rightarrow> string \<Rightarrow> string + backend" where
  "fallback_to_memory_backend ev cfg exc =
     (if qc_AINDY_REQUIRE_REDIS cfg then Inl (''AINDY_REQUIRE_REDIS=true but Redis is unavailable: '' @ exc)
      else Inr (build_memory_backend ev cfg True (Some exc)))"

definition redis_candidate :: "env \<Rightarrow> queue_settings \<Rightarrow> queue_probe \<Rightarrow> string + backend" where
  "redis_candidate ev cfg p =
     (case qp_unready p of
        Some exc \<Rightarrow> Inl exc
      | None \<Rightarrow> Inr (Redis_backend ((qp_server p)\<lparr>rq_max := queue_capacity_limit ev (qc_attr cfg),
          rq_failure_count := 0, rq_open_until := 0, rq_threshold := 5, rq_open_seconds := 30\<rparr>)))"

definition select_backend :: "env \<Rightarrow> queue_settings \<Rightarrow> queue_probe \<Rightarrow> string + backend" where
  "select_backend ev cfg p =
     (if qc_is_prod cfg \<and> redis_url_of ev cfg = [] then Inl ''Production requires RedisQueueBackend''
      else if redis_url_of ev cfg \<noteq> [] then
        (case redis_candidate ev cfg p of
           Inl exc \<Rightarrow> fallback_to_memory_backend ev cfg exc
         | Inr b \<Rightarrow> Inr b)
      else if resolve_execution_mode ev cfg = ''distributed'' then Inl ''EXECUTION_MODE=distributed requires REDIS_URL''
      else Inr (build_memory_backend ev cfg False None))"

text \<open>The answer and the singleton afterwards; a call may raise after the singleton has been set.\<close>

definition get_queue :: "env \<Rightarrow> queue_settings \<Rightarrow> queue_probe \<Rightarrow> bool \<Rightarrow> backend option \<Rightarrow> (string + backend) \<times> backend option" where
  "get_queue ev cfg p force_memory inst =
     (if force_memory then (Inr (build_memory_backend ev cfg False None), inst)
      else case inst of
        Some b \<Rightarrow> (Inr b, inst)
      | None \<Rightarrow>
          if test_flag ev ''TESTING'' \<or> test_flag ev ''TEST_MODE''
          then (Inr (build_memory_backend ev cfg False None), Some (build_memory_backend ev cfg False None))
          else (case select_backend ev cfg p of
              Inl err \<Rightarrow> (Inl err, None)
            | Inr (Redis_backend r) \<Rightarrow>
                (if \<not> qp_ready_again p \<or> \<not> qp_metrics_ok p then Inl ''redis'' else Inr (Redis_backend r), Some (Redis_backend r))
            | Inr (Memory_backend d reason m) \<Rightarrow> (Inr (Memory_backend d reason m), Some (Memory_backend d reason m))))"

definition reset_queue :: "backend option \<Rightarrow> backend option" where
  "reset_queue inst = None"

definition attempt_queue_backend_reconnect ::
  "env \<Rightarrow> queue_settings \<Rightarrow> queue_probe \<Rightarrow> backend option \<Rightarrow> bool option \<times> backend option" where
  "attempt_queue_backend_reconnect ev cfg p inst =
     (if redis_url_of ev cfg = [] then (Some False, inst)
      else case inst of
        Some (Memory_backend True reason m) \<Rightarrow>
          (case redis_candidate ev cfg p of
             Inl exc \<Rightarrow> (Some False, inst)
           | Inr b \<Rightarrow> (if qp_metrics_ok p then Some True else None, Some b))
      | _ \<Rightarrow> (Some False, inst))"


section \<open>The contract of a backend\<close>

text \<open>
  What a client of \<^verbatim>\<open>DistributedQueueBackend\<close> relies on. A backend is seen through its waiting jobs (as a
  multiset, and those it can hand out now in their order), the jobs taken and not yet settled, and the
  dead letters.
\<close>

datatype 'e queue_cmd =
    Submit 'e QueueJobPayload
  | Take 'e
  | Ack 'e string
  | Fail 'e string string
  | Recover 'e

fun submitted :: "'e queue_cmd list \<Rightarrow> QueueJobPayload list" where
  "submitted [] = []"
| "submitted (Submit e j # cs) = j # submitted cs"
| "submitted (_ # cs) = submitted cs"

definition others :: "string \<Rightarrow> QueueJobPayload multiset \<Rightarrow> QueueJobPayload multiset" where
  "others jid js = filter_mset (\<lambda>j. job_id j \<noteq> jid) js"

definition named :: "string \<Rightarrow> QueueJobPayload multiset \<Rightarrow> QueueJobPayload multiset" where
  "named jid js = filter_mset (\<lambda>j. job_id j = jid) js"

definition unique_ids :: "QueueJobPayload multiset \<Rightarrow> bool" where
  "unique_ids js \<longleftrightarrow> (\<forall>i. count (image_mset job_id js) i \<le> 1)"

lemma others_named: "others jid js + named jid js = js"
  unfolding others_def named_def by (induction js) auto

lemma others_id: "jid \<notin># image_mset job_id js \<Longrightarrow> others jid js = js"
  unfolding others_def by (induction js) auto

lemma one_more_at:
  fixes f :: "'a \<Rightarrow> nat"
  shows "(\<forall>i. f i + (if i = a then 1 else 0) \<le> 1) \<longleftrightarrow> (\<forall>i. f i \<le> 1) \<and> f a = 0"
proof
  assume *: "\<forall>i. f i + (if i = a then 1 else 0) \<le> 1"
  have "f i \<le> 1" for i using spec [OF *, of i] by (auto split: if_splits)
  moreover have "f a = 0" using spec [OF *, of a] by simp
  ultimately show "(\<forall>i. f i \<le> 1) \<and> f a = 0" by blast
qed simp

lemma unique_ids_add:
  "unique_ids (add_mset j js) \<longleftrightarrow> unique_ids js \<and> job_id j \<notin># image_mset job_id js"
proof -
  have "count (image_mset job_id (add_mset j js)) i
      = count (image_mset job_id js) i + (if i = job_id j then 1 else 0)" for i by simp
  then have "unique_ids (add_mset j js) \<longleftrightarrow>
      (\<forall>i. count (image_mset job_id js) i + (if i = job_id j then 1 else 0) \<le> 1)"
    unfolding unique_ids_def by (simp only:)
  also have "\<dots> \<longleftrightarrow> unique_ids js \<and> count (image_mset job_id js) (job_id j) = 0"
    unfolding unique_ids_def by (rule one_more_at)
  finally show ?thesis by (simp only: count_eq_zero_iff)
qed

text \<open>The operations a backend offers its clients, and the calls of a client on it, with the jobs accepted and acknowledged so far.\<close>

record ('e, 's) DistributedQueueBackend =
  be_enqueue :: "'e \<Rightarrow> QueueJobPayload \<Rightarrow> 's \<Rightarrow> bool \<times> 's"
  be_dequeue :: "'e \<Rightarrow> 's \<Rightarrow> QueueJobPayload option \<times> 's"
  be_ack :: "'e \<Rightarrow> string \<Rightarrow> 's \<Rightarrow> 's"
  be_fail :: "'e \<Rightarrow> string \<Rightarrow> string \<Rightarrow> 's \<Rightarrow> 's"
  be_requeue_stale_jobs :: "'e \<Rightarrow> 's \<Rightarrow> 's"

fun exec_cmd :: "('e, 's) DistributedQueueBackend \<Rightarrow> ('s \<Rightarrow> QueueJobPayload multiset) \<Rightarrow> 'e queue_cmd
    \<Rightarrow> 's \<times> QueueJobPayload multiset \<times> QueueJobPayload multiset
    \<Rightarrow> 's \<times> QueueJobPayload multiset \<times> QueueJobPayload multiset" where
  "exec_cmd B taken (Submit e j) (s, acc, fin) =
     (case be_enqueue B e j s of (ok, s') \<Rightarrow> (s', if ok then add_mset j acc else acc, fin))"
| "exec_cmd B taken (Take e) (s, acc, fin) = (snd (be_dequeue B e s), acc, fin)"
| "exec_cmd B taken (Ack e i) (s, acc, fin) = (be_ack B e i s, acc, fin + named i (taken s))"
| "exec_cmd B taken (Fail e i err) (s, acc, fin) = (be_fail B e i err s, acc, fin)"
| "exec_cmd B taken (Recover e) (s, acc, fin) = (be_requeue_stale_jobs B e s, acc, fin)"

fun takes_of :: "'e queue_cmd list \<Rightarrow> nat" where
  "takes_of [] = 0"
| "takes_of (Take e # cs) = Suc (takes_of cs)"
| "takes_of (_ # cs) = takes_of cs"

locale queue_backend =
  fixes B :: "('e, 's) DistributedQueueBackend"
    and inv :: "'s \<Rightarrow> bool"
    and waiting :: "'s \<Rightarrow> QueueJobPayload multiset"
    and order :: "'s \<Rightarrow> QueueJobPayload list"
    and taken :: "'s \<Rightarrow> QueueJobPayload multiset"
    and dead :: "'s \<Rightarrow> QueueJobPayload multiset"
  assumes put_accepted: "inv s \<Longrightarrow> be_enqueue B e j s = (True, s') \<Longrightarrow>
      inv s' \<and> waiting s' = add_mset j (waiting s) \<and> order s' = order s @ [j] \<and> taken s' = taken s \<and> dead s' = dead s"
    and put_rejected: "inv s \<Longrightarrow> be_enqueue B e j s = (False, s') \<Longrightarrow>
      inv s' \<and> waiting s' = waiting s \<and> order s' = order s \<and> taken s' = taken s \<and> dead s' = dead s"
    and take_none: "inv s \<Longrightarrow> be_dequeue B e s = (None, s') \<Longrightarrow>
      inv s' \<and> order s = [] \<and> waiting s' = waiting s \<and> order s' = order s \<and> taken s' = taken s \<and> dead s' = dead s"
    and take_some: "inv s \<Longrightarrow> be_dequeue B e s = (Some j, s') \<Longrightarrow>
      inv s' \<and> waiting s = add_mset j (waiting s') \<and> order s = j # order s'
      \<and> taken s' = add_mset j (others (job_id j) (taken s)) \<and> dead s' = dead s"
    and acked: "inv s \<Longrightarrow> inv (be_ack B e i s) \<and> waiting (be_ack B e i s) = waiting s \<and> order (be_ack B e i s) = order s
      \<and> taken (be_ack B e i s) = others i (taken s) \<and> dead (be_ack B e i s) = dead s"
    and failed: "inv s \<Longrightarrow> inv (be_fail B e i err s) \<and> waiting (be_fail B e i err s) = waiting s \<and> order (be_fail B e i err s) = order s
      \<and> taken (be_fail B e i err s) = others i (taken s) \<and> dead (be_fail B e i err s) = dead s + named i (taken s)"
    and recovered: "inv s \<Longrightarrow> inv (be_requeue_stale_jobs B e s) \<and> dead (be_requeue_stale_jobs B e s) = dead s
      \<and> (\<exists>moved ys. taken s = taken (be_requeue_stale_jobs B e s) + moved \<and> waiting (be_requeue_stale_jobs B e s) = waiting s + moved
           \<and> order (be_requeue_stale_jobs B e s) = order s @ ys)"
begin

definition accounted :: "'s \<times> QueueJobPayload multiset \<times> QueueJobPayload multiset \<Rightarrow> bool" where
  "accounted x \<longleftrightarrow> (case x of (s, acc, fin) \<Rightarrow>
     inv s \<and> unique_ids acc \<and> acc = waiting s + taken s + dead s + fin)"

lemma exec_accounted:
  assumes "accounted (s, acc, fin)" and "\<And>e j. c = Submit e j \<Longrightarrow> job_id j \<notin># image_mset job_id acc"
  shows "accounted (exec_cmd B taken c (s, acc, fin)) \<and>
    (fst (snd (exec_cmd B taken c (s, acc, fin))) = acc \<or>
     (\<exists>e j. c = Submit e j \<and> fst (snd (exec_cmd B taken c (s, acc, fin))) = add_mset j acc))"
proof -
  have i: "inv s" and u: "unique_ids acc" and a: "acc = waiting s + taken s + dead s + fin"
    using assms(1) unfolding accounted_def prod.case by blast+
  show ?thesis
  proof (cases c)
    case (Submit e j)
    obtain ok s' where p: "be_enqueue B e j s = (ok, s')" by (cases "be_enqueue B e j s")
    show ?thesis
      using put_accepted [OF i, of e j s'] put_rejected [OF i, of e j s'] p Submit u a assms(2) [OF Submit]
      by (cases ok) (auto simp: accounted_def unique_ids_add)
  next
    case (Take e)
    obtain r s' where t: "be_dequeue B e s = (r, s')" by (cases "be_dequeue B e s")
    show ?thesis
    proof (cases r)
      case None
      then show ?thesis using take_none [OF i, of e s'] t Take u a by (auto simp: accounted_def)
    next
      case (Some j)
      note l = take_some [OF i, of e j s'] 
      have "acc = add_mset j (waiting s' + taken s + dead s + fin)" using l t Some a by simp
      then have "job_id j \<notin># image_mset job_id (taken s)" using u by (auto simp: unique_ids_add)
      then have "taken s' = add_mset j (taken s)" using l t Some others_id by auto
      then show ?thesis using l t Some Take u a by (auto simp: accounted_def)
    qed
  next
    case (Ack e i)
    then show ?thesis using acked [OF \<open>inv s\<close>, of e i] others_named [of i "taken s"] u a
      by (auto simp: accounted_def ac_simps)
  next
    case (Fail e i err)
    then show ?thesis using failed [OF \<open>inv s\<close>, of e i err] others_named [of i "taken s"] u a
      by (auto simp: accounted_def ac_simps)
  next
    case (Recover e)
    from recovered [OF i, of e] obtain moved where "inv (be_requeue_stale_jobs B e s)" "dead (be_requeue_stale_jobs B e s) = dead s"
      "taken s = taken (be_requeue_stale_jobs B e s) + moved" "waiting (be_requeue_stale_jobs B e s) = waiting s + moved" by blast
    then show ?thesis using Recover u a by (auto simp: accounted_def ac_simps)
  qed
qed

text \<open>Nothing is lost and nothing is invented: every accepted job waits, is taken, is dead, or was acknowledged.\<close>

lemma run_accounted:
  assumes "accounted (s, acc, fin)" "distinct (map job_id (submitted cs))"
    and "\<And>j. j \<in> set (submitted cs) \<Longrightarrow> job_id j \<notin># image_mset job_id acc"
  shows "accounted (fold (exec_cmd B taken) cs (s, acc, fin))"
  using assms
proof (induction cs arbitrary: s acc fin)
  case (Cons c cs)
  obtain s' acc' fin' where x: "exec_cmd B taken c (s, acc, fin) = (s', acc', fin')" by (metis prod_cases3)
  have step: "accounted (s', acc', fin') \<and> (acc' = acc \<or> (\<exists>e j. c = Submit e j \<and> acc' = add_mset j acc))"
    using exec_accounted [OF Cons.prems(1), of c] Cons.prems(3) x by simp
  have "distinct (map job_id (submitted cs))" using Cons.prems(2) by (cases c) simp_all
  moreover have "job_id j \<notin># image_mset job_id acc'" if "j \<in> set (submitted cs)" for j
  proof -
    have "j \<in> set (submitted (c # cs))" using that by (cases c) simp_all
    then have old: "job_id j \<notin># image_mset job_id acc" by (rule Cons.prems(3))
    show ?thesis using step
    proof (elim conjE disjE exE)
      fix e x assume "c = Submit e x" "acc' = add_mset x acc"
      then show ?thesis using old that Cons.prems(2) by (auto simp: rev_image_eqI)
    qed (use old in simp)
  qed
  ultimately have "accounted (fold (exec_cmd B taken) cs (s', acc', fin'))" using step by (intro Cons.IH) auto
  then show ?case by (simp add: x)
qed simp

text \<open>First in, first out: each take gives the oldest waiting job, whatever is put or recovered meanwhile.\<close>

lemma exec_order:
  assumes "inv s"
  shows "inv (fst (exec_cmd B taken c (s, acc, fin)))"
    and "(\<exists>e. c = Take e \<and> (\<exists>ys. drop 1 (order s) @ ys = order (fst (exec_cmd B taken c (s, acc, fin)))))
      \<or> (\<nexists>e. c = Take e) \<and> (\<exists>ys. order (fst (exec_cmd B taken c (s, acc, fin))) = order s @ ys)"
proof -
  have "inv (fst (exec_cmd B taken c (s, acc, fin))) \<and> ((\<exists>e. c = Take e \<and> (\<exists>ys. drop 1 (order s) @ ys = order (fst (exec_cmd B taken c (s, acc, fin)))))
      \<or> (\<nexists>e. c = Take e) \<and> (\<exists>ys. order (fst (exec_cmd B taken c (s, acc, fin))) = order s @ ys))"
  proof (cases c)
    case (Submit e j)
    obtain ok s' where p: "be_enqueue B e j s = (ok, s')" by (cases "be_enqueue B e j s")
    show ?thesis using put_accepted [OF assms, of e j s'] put_rejected [OF assms, of e j s'] p Submit by (cases ok) auto
  next
    case (Take e)
    obtain r s' where t: "be_dequeue B e s = (r, s')" by (cases "be_dequeue B e s")
    show ?thesis
      using take_none [OF assms, of e s'] take_some [OF assms, of e _ s'] t Take by (cases r) auto
  next
    case (Recover e)
    then show ?thesis using recovered [OF assms, of e] by auto
  qed (use acked [OF assms] failed [OF assms] in auto)
  then show "inv (fst (exec_cmd B taken c (s, acc, fin)))"
    and "(\<exists>e. c = Take e \<and> (\<exists>ys. drop 1 (order s) @ ys = order (fst (exec_cmd B taken c (s, acc, fin)))))
      \<or> (\<nexists>e. c = Take e) \<and> (\<exists>ys. order (fst (exec_cmd B taken c (s, acc, fin))) = order s @ ys)"
    by blast+
qed

lemma order_after:
  assumes "inv s" "takes_of cs \<le> length (order s)"
  shows "inv (fst (fold (exec_cmd B taken) cs (s, acc, fin)))
    \<and> (\<exists>ys. order (fst (fold (exec_cmd B taken) cs (s, acc, fin))) = drop (takes_of cs) (order s) @ ys)"
  using assms
proof (induction cs arbitrary: s acc fin)
  case (Cons c cs)
  obtain s' acc' fin' where x: "exec_cmd B taken c (s, acc, fin) = (s', acc', fin')" by (metis prod_cases3)
  note o = exec_order [OF Cons.prems(1), of c acc fin, unfolded x fst_conv]
  show ?case
  proof (cases "\<exists>e. c = Take e")
    case True
    then obtain ys where y: "order s' = drop 1 (order s) @ ys" using o(2) by metis
    have "takes_of cs \<le> length (order s) - 1" using True Cons.prems(2) by auto
    then show ?thesis using Cons.IH [OF o(1), of acc' fin'] y True x Cons.prems(2) by auto
  next
    case False
    then obtain ys where y: "order s' = order s @ ys" using o by auto
    have t: "takes_of (c # cs) = takes_of cs" using False by (cases c) auto
    then show ?thesis using Cons.IH [OF o(1), of acc' fin'] y x Cons.prems(2) by auto
  qed
qed simp

lemma served_in_turn:
  assumes "inv s" "k < length (order s)" "takes_of cs = k"
  shows "fst (be_dequeue B e (fst (fold (exec_cmd B taken) cs (s, acc, fin)))) = Some (order s ! k)"
proof -
  let ?t = "fst (fold (exec_cmd B taken) cs (s, acc, fin))"
  obtain ys where i: "inv ?t" and o: "order ?t = drop k (order s) @ ys"
    using order_after [of s cs acc fin] assms by auto
  have h: "order ?t = order s ! k # (drop (Suc k) (order s) @ ys)"
    using o assms(2) by (simp add: Cons_nth_drop_Suc [symmetric])
  obtain r t' where t: "be_dequeue B e ?t = (r, t')" by (cases "be_dequeue B e ?t")
  show ?thesis using take_none [OF i, of e t'] take_some [OF i, of e _ t'] t h by (cases r) auto
qed

end



section \<open>Both backends meet the contract\<close>

text \<open>The jobs of an in-flight table, each entry under the id of its job.\<close>

definition flight_jobs :: "('v \<Rightarrow> QueueJobPayload) \<Rightarrow> 'v dict \<Rightarrow> QueueJobPayload multiset" where
  "flight_jobs g d = mset (map (\<lambda>e. g (snd e)) d)"

definition keyed :: "('v \<Rightarrow> QueueJobPayload) \<Rightarrow> 'v dict \<Rightarrow> bool" where
  "keyed g d \<longleftrightarrow> distinct (dkeys d) \<and> list_all (\<lambda>e. job_id (g (snd e)) = fst e) d"

lemma keyed_Cons:
  "keyed g ((k, v) # d) \<longleftrightarrow> k \<notin> set (dkeys d) \<and> job_id (g v) = k \<and> keyed g d"
  by (auto simp: keyed_def)

lemma flight_Cons [simp]: "flight_jobs g ((k, v) # d) = add_mset (g v) (flight_jobs g d)"
  by (simp add: flight_jobs_def)

lemma flight_others_absent:
  "keyed g d \<Longrightarrow> k \<notin> set (dkeys d) \<Longrightarrow> others k (flight_jobs g d) = flight_jobs g d"
  by (intro others_id) (auto simp: flight_jobs_def keyed_def list_all_iff image_iff)

lemma keyed_dpop: "keyed g d \<Longrightarrow> keyed g (dpop k d)"
  by (auto simp: keyed_def list_all_iff AList.delete_eq)

lemma flight_dpop: "keyed g d \<Longrightarrow> flight_jobs g (dpop k d) = others k (flight_jobs g d)"
  by (induction d) (auto simp: keyed_Cons flight_jobs_def others_def)

lemma keyed_dset: "keyed g d \<Longrightarrow> job_id (g v) = k \<Longrightarrow> keyed g (dset k v d)"
  by (induction d) (auto simp: keyed_Cons keyed_def update_keys image_iff)

lemma flight_dset: "keyed g d \<Longrightarrow> job_id (g v) = k \<Longrightarrow> flight_jobs g (dset k v d) = add_mset (g v) (others k (flight_jobs g d))"
proof (induction d)
  case Nil
  then show ?case by (simp add: flight_jobs_def others_def)
next
  case (Cons e d)
  obtain a w where e: "e = (a, w)" by (cases e)
  have kd: "a \<notin> set (dkeys d)" "job_id (g w) = a" "keyed g d" using Cons.prems e by (auto simp: keyed_Cons)
  show ?case
  proof (cases "a = k")
    case True
    then show ?thesis using kd e flight_others_absent [OF kd(3,1)] by (simp add: others_def)
  next
    case False
    then show ?thesis using kd e Cons.IH [OF kd(3) Cons.prems(2)] by (simp add: others_def)
  qed
qed

lemma flight_named:
  "keyed g d \<Longrightarrow> named k (flight_jobs g d) = (case dget d k of None \<Rightarrow> {#} | Some v \<Rightarrow> {#g v#})"
proof (induction d)
  case Nil
  then show ?case by (simp add: flight_jobs_def named_def)
next
  case (Cons e d)
  obtain a w where e: "e = (a, w)" by (cases e)
  have kd: "a \<notin> set (dkeys d)" "job_id (g w) = a" "keyed g d" using Cons.prems e by (auto simp: keyed_Cons)
  have "k = a \<Longrightarrow> dget d k = None" using kd(1) by (simp add: map_of_eq_None_iff)
  then show ?case using kd e Cons.IH [OF kd(3)] by (auto simp: named_def split: option.splits)
qed

lemma flight_filter:
  "flight_jobs g d = flight_jobs g (filter (\<lambda>e. \<not> P e) d) + mset (map (\<lambda>e. g (snd e)) (filter P d))"
  by (induction d) (auto simp: flight_jobs_def)

lemma keyed_filter: "keyed g d \<Longrightarrow> keyed g (filter P d)"
  by (auto simp: keyed_def list_all_iff)

definition dead_jobs :: "dead_letter list \<Rightarrow> QueueJobPayload multiset" where
  "dead_jobs ds = mset (List.map_filter dl_payload ds)"

lemma dead_jobs_simps [simp]:
  "dead_jobs [] = {#}"
  "dead_jobs (d # ds) = (case dl_payload d of None \<Rightarrow> dead_jobs ds | Some j \<Rightarrow> add_mset j (dead_jobs ds))"
  "dead_jobs (xs @ ys) = dead_jobs xs + dead_jobs ys"
  by (auto simp: dead_jobs_def List.map_filter_def split: option.splits)


subsection \<open>The in-memory backend\<close>

definition mem_backend :: "(queue_env \<times> int, mem_queue) DistributedQueueBackend" where
  "mem_backend =
     \<lparr>be_enqueue = (\<lambda>e job s. (fst (mem_enqueue job s) = None, snd (mem_enqueue job s))),
      be_dequeue = (\<lambda>e. mem_dequeue (qe_now (fst e))),
      be_ack = (\<lambda>e. mem_ack),
      be_fail = (\<lambda>e. mem_fail (qe_now (fst e))),
      be_requeue_stale_jobs = (\<lambda>e. mem_requeue_stale_jobs (qe_now (fst e)) (snd e))\<rparr>"

definition mem_inv :: "mem_queue \<Rightarrow> bool" where
  "mem_inv s = keyed fst (mq_inflight s)"

definition mem_waiting :: "mem_queue \<Rightarrow> QueueJobPayload multiset" where
  "mem_waiting s = mset (mq_q s) + mset (mq_blocked s)"

definition mem_taken :: "mem_queue \<Rightarrow> QueueJobPayload multiset" where
  "mem_taken s = flight_jobs fst (mq_inflight s)"

definition mem_dead :: "mem_queue \<Rightarrow> QueueJobPayload multiset" where
  "mem_dead s = dead_jobs (mq_dlq s)"

lemmas mem_defs = mem_backend_def mem_inv_def mem_waiting_def mem_taken_def mem_dead_def

lemma mem_requeue_view:
  assumes "mem_inv s"
  shows "mem_inv (mem_requeue_stale_jobs now t s) \<and> mem_dead (mem_requeue_stale_jobs now t s) = mem_dead s \<and>
    (\<exists>moved ys. mem_taken s = mem_taken (mem_requeue_stale_jobs now t s) + moved
       \<and> mem_waiting (mem_requeue_stale_jobs now t s) = mem_waiting s + moved
       \<and> mq_q (mem_requeue_stale_jobs now t s) = mq_q s @ ys)"
proof -
  let ?s' = "mem_requeue_stale_jobs now t s"
  let ?old = "map (\<lambda>e. fst (snd e)) (filter (stale now t) (mq_inflight s))"
  let ?n = "nat (mq_max s - int (length (mq_q s)))"
  have f: "mq_inflight ?s' = filter (\<lambda>e. \<not> stale now t e) (mq_inflight s)"
    and q: "mq_q ?s' = mq_q s @ take ?n ?old" and b: "mq_blocked ?s' = mq_blocked s @ drop ?n ?old"
    and d: "mq_dlq ?s' = mq_dlq s"
    by (simp_all add: mem_requeue_stale_jobs_def Let_def)
  have "mset (take ?n ?old) + mset (drop ?n ?old) = mset ?old" by (metis append_take_drop_id mset_append)
  then have w: "mem_waiting ?s' = mem_waiting s + mset ?old"
    unfolding mem_waiting_def q b mset_append by (simp add: ac_simps)
  have "mem_taken s = mem_taken ?s' + mset ?old"
    unfolding mem_taken_def f by (rule flight_filter)
  then show ?thesis using w q d keyed_filter assms unfolding mem_inv_def mem_dead_def f by metis
qed

interpretation mem_queue_backend: queue_backend mem_backend mem_inv mem_waiting mq_q mem_taken mem_dead
proof
  fix s s' e j i err
  show "mem_inv s \<Longrightarrow> be_enqueue mem_backend e j s = (True, s') \<Longrightarrow>
      mem_inv s' \<and> mem_waiting s' = add_mset j (mem_waiting s) \<and> mq_q s' = mq_q s @ [j] \<and> mem_taken s' = mem_taken s \<and> mem_dead s' = mem_dead s"
    by (auto simp: mem_defs mem_enqueue_def split: if_splits)
  show "mem_inv s \<Longrightarrow> be_enqueue mem_backend e j s = (False, s') \<Longrightarrow>
      mem_inv s' \<and> mem_waiting s' = mem_waiting s \<and> mq_q s' = mq_q s \<and> mem_taken s' = mem_taken s \<and> mem_dead s' = mem_dead s"
    by (auto simp: mem_defs mem_enqueue_def split: if_splits)
  show "mem_inv s \<Longrightarrow> be_dequeue mem_backend e s = (None, s') \<Longrightarrow>
      mem_inv s' \<and> mq_q s = [] \<and> mem_waiting s' = mem_waiting s \<and> mq_q s' = mq_q s \<and> mem_taken s' = mem_taken s \<and> mem_dead s' = mem_dead s"
    by (auto simp: mem_defs mem_dequeue_def split: list.splits)
  show "mem_inv s \<Longrightarrow> be_dequeue mem_backend e s = (Some j, s') \<Longrightarrow>
      mem_inv s' \<and> mem_waiting s = add_mset j (mem_waiting s') \<and> mq_q s = j # mq_q s'
      \<and> mem_taken s' = add_mset j (others (job_id j) (mem_taken s)) \<and> mem_dead s' = mem_dead s"
    by (auto simp: mem_defs mem_dequeue_def keyed_dset flight_dset split: list.splits)
  show "mem_inv s \<Longrightarrow> mem_inv (be_ack mem_backend e i s) \<and> mem_waiting (be_ack mem_backend e i s) = mem_waiting s
      \<and> mq_q (be_ack mem_backend e i s) = mq_q s
      \<and> mem_taken (be_ack mem_backend e i s) = others i (mem_taken s) \<and> mem_dead (be_ack mem_backend e i s) = mem_dead s"
    by (simp add: mem_defs mem_ack_def keyed_dpop flight_dpop)
  show "mem_inv s \<Longrightarrow> mem_inv (be_fail mem_backend e i err s) \<and> mem_waiting (be_fail mem_backend e i err s) = mem_waiting s
      \<and> mq_q (be_fail mem_backend e i err s) = mq_q s \<and> mem_taken (be_fail mem_backend e i err s) = others i (mem_taken s)
      \<and> mem_dead (be_fail mem_backend e i err s) = mem_dead s + named i (mem_taken s)"
    by (auto simp: mem_defs mem_fail_def keyed_dpop flight_dpop flight_named split: option.splits)
  show "mem_inv s \<Longrightarrow> mem_inv (be_requeue_stale_jobs mem_backend e s) \<and> mem_dead (be_requeue_stale_jobs mem_backend e s) = mem_dead s
      \<and> (\<exists>moved ys. mem_taken s = mem_taken (be_requeue_stale_jobs mem_backend e s) + moved
           \<and> mem_waiting (be_requeue_stale_jobs mem_backend e s) = mem_waiting s + moved
           \<and> mq_q (be_requeue_stale_jobs mem_backend e s) = mq_q s @ ys)"
    using mem_requeue_view [of s "qe_now (fst e)" "snd e"] by (simp add: mem_backend_def)
qed



subsection \<open>The Redis backend\<close>

text \<open>While every Redis operation succeeds the breaker stays closed.\<close>

definition healthy :: "queue_env \<Rightarrow> queue_env" where
  "healthy e = e\<lparr>qe_ok := (\<lambda>_. True), qe_metrics := True, qe_mono := max 0 (qe_mono e)\<rparr>"

definition redis_backend :: "(queue_env \<times> int, redis_queue) DistributedQueueBackend" where
  "redis_backend =
     \<lparr>be_enqueue = (\<lambda>e job s. (fst (redis_enqueue (healthy (fst e)) job s) = None, snd (redis_enqueue (healthy (fst e)) job s))),
      be_dequeue = (\<lambda>e s. case redis_dequeue (healthy (fst e)) s of
          (Inr j, s') \<Rightarrow> (j, s') | (Inl _, s') \<Rightarrow> (None, s')),
      be_ack = (\<lambda>e jid s. snd (redis_ack (healthy (fst e)) jid s)),
      be_fail = (\<lambda>e jid err s. snd (redis_fail (healthy (fst e)) jid err s)),
      be_requeue_stale_jobs = (\<lambda>e s. snd (redis_requeue_stale_jobs (healthy (fst e)) (snd e) s))\<rparr>"

definition job_of :: "raw \<Rightarrow> QueueJobPayload" where
  "job_of r = the (raw_job r)"

definition readable :: "raw \<Rightarrow> bool" where
  "readable r = (raw_job r \<noteq> None)"

definition redis_inv :: "redis_queue \<Rightarrow> bool" where
  "redis_inv s \<longleftrightarrow> rq_open_until s = 0 \<and> list_all readable (rq_main s)
     \<and> list_all (\<lambda>e. readable (fst (snd e))) (rq_inflight s) \<and> keyed (\<lambda>v. job_of (fst v)) (rq_inflight s)"

definition redis_order :: "redis_queue \<Rightarrow> QueueJobPayload list" where
  "redis_order s = rev (map job_of (rq_main s))"

definition redis_waiting :: "redis_queue \<Rightarrow> QueueJobPayload multiset" where
  "redis_waiting s = mset (redis_order s)"

definition redis_taken :: "redis_queue \<Rightarrow> QueueJobPayload multiset" where
  "redis_taken s = flight_jobs (\<lambda>v. job_of (fst v)) (rq_inflight s)"

definition redis_dead :: "redis_queue \<Rightarrow> QueueJobPayload multiset" where
  "redis_dead s = dead_jobs (rq_dead s)"

lemmas redis_views = redis_inv_def redis_order_def redis_waiting_def redis_taken_def redis_dead_def

lemma raw_simps [simp]: "job_of (Raw j) = j" "readable (Raw j)" "\<not> readable (Garbled x)"
  by (simp_all add: job_of_def readable_def raw_job_def)

lemma healthy_op [simp]: "run_redis_operation (healthy e) i f s = (True, record_success (f s))"
  by (simp add: run_redis_operation_def healthy_def)

lemma healthy_closed: "redis_inv s \<Longrightarrow> check_circuit_breaker (healthy e) s"
  by (simp add: check_circuit_breaker_def healthy_def redis_inv_def)

lemma healthy_sel [simp]: "qe_now (healthy e) = qe_now e" "qe_metrics (healthy e)"
  by (simp_all add: healthy_def)

lemma success_views [simp]:
  "rq_main (record_success s) = rq_main s" "rq_inflight (record_success s) = rq_inflight s"
  "rq_dead (record_success s) = rq_dead s" "rq_open_until (record_success s) = 0"
  by (simp_all add: record_success_def)

lemma butlast_last_views:
  assumes "rq_main s \<noteq> []"
  shows "redis_order s = job_of (last (rq_main s)) # rev (map job_of (butlast (rq_main s)))"
  using assms unfolding redis_order_def by (induction "rq_main s" rule: rev_induct) (auto dest: sym)

lemma redis_enqueue_view:
  assumes "redis_inv s"
  shows "fst (redis_enqueue (healthy e) j s) = None \<longleftrightarrow> \<not> redis_saturated s"
    and "rq_main (snd (redis_enqueue (healthy e) j s)) = (if redis_saturated s then rq_main s else Raw j # rq_main s)"
    and "rq_inflight (snd (redis_enqueue (healthy e) j s)) = rq_inflight s"
    and "rq_dead (snd (redis_enqueue (healthy e) j s)) = rq_dead s"
    and "rq_open_until (snd (redis_enqueue (healthy e) j s)) = 0"
  by (simp_all add: redis_enqueue_def healthy_closed [OF assms])

lemma redis_dequeue_view:
  assumes "redis_inv s" "rq_main s \<noteq> []"
  shows "redis_dequeue (healthy e) s = (Inr (Some (job_of (last (rq_main s)))),
     record_success (record_success (s\<lparr>rq_main := butlast (rq_main s)\<rparr>)\<lparr>rq_inflight :=
       dset (job_id (job_of (last (rq_main s)))) (last (rq_main s), qe_now e) (rq_inflight s)\<rparr>))"
proof -
  have "readable (last (rq_main s))" using assms by (simp add: redis_inv_def list_all_iff)
  then obtain j where "last (rq_main s) = Raw j" by (cases "last (rq_main s)") auto
  then show ?thesis using assms(2) by (simp add: redis_dequeue_def healthy_closed [OF assms(1)])
qed

definition late :: "time \<Rightarrow> int \<Rightarrow> string \<times> raw \<times> time \<Rightarrow> bool" where
  "late now t e = (t * secs < now - snd (snd e))"

lemma redis_requeue_entries_view:
  assumes "distinct (dkeys es)" "set es \<subseteq> set (rq_inflight s)" "distinct (dkeys (rq_inflight s))" "rq_open_until s = 0"
  shows "rq_main (snd (redis_requeue_entries (healthy e) t i es (n, s)))
           = rev (map (\<lambda>x. fst (snd x)) (filter (late (qe_now e) t) es)) @ rq_main s
       \<and> rq_inflight (snd (redis_requeue_entries (healthy e) t i es (n, s)))
           = filter (\<lambda>x. fst x \<notin> fst ` set (filter (late (qe_now e) t) es)) (rq_inflight s)
       \<and> rq_dead (snd (redis_requeue_entries (healthy e) t i es (n, s))) = rq_dead s
       \<and> rq_open_until (snd (redis_requeue_entries (healthy e) t i es (n, s))) = 0"
  using assms
proof (induction es arbitrary: i n s)
  case (Cons x es)
  obtain jid msg at where x: "x = (jid, msg, at)" by (metis prod_cases3)
  show ?case
  proof (cases "late (qe_now e) t x")
    case False
    then show ?thesis using Cons.IH [of s i n] Cons.prems x by (simp add: late_def)
  next
    case True
    let ?s = "record_success (record_success (s\<lparr>rq_inflight := dpop jid (rq_inflight s)\<rparr>)\<lparr>rq_main := msg # rq_main s\<rparr>)"
    have p: "dget (rq_inflight s) jid = Some (msg, at)" using Cons.prems x by simp
    have step: "redis_requeue_entries (healthy e) t i (x # es) (n, s) = redis_requeue_entries (healthy e) t (i + 2) es (n + 1, ?s)"
      using True p x by (simp add: late_def)
    have "set es \<subseteq> set (rq_inflight ?s)"
      using Cons.prems(1,2) x by (force simp: AList.delete_eq)
    then have "rq_main (snd (redis_requeue_entries (healthy e) t (i + 2) es (n + 1, ?s)))
           = rev (map (\<lambda>x. fst (snd x)) (filter (late (qe_now e) t) es)) @ rq_main ?s
       \<and> rq_inflight (snd (redis_requeue_entries (healthy e) t (i + 2) es (n + 1, ?s)))
           = filter (\<lambda>x. fst x \<notin> fst ` set (filter (late (qe_now e) t) es)) (rq_inflight ?s)
       \<and> rq_dead (snd (redis_requeue_entries (healthy e) t (i + 2) es (n + 1, ?s))) = rq_dead ?s
       \<and> rq_open_until (snd (redis_requeue_entries (healthy e) t (i + 2) es (n + 1, ?s))) = 0"
      using Cons.prems by (intro Cons.IH) auto
    moreover have "filter (\<lambda>x. fst x \<notin> fst ` set (filter (late (qe_now e) t) es)) (rq_inflight ?s)
        = filter (\<lambda>y. fst y \<notin> fst ` set (filter (late (qe_now e) t) (x # es))) (rq_inflight s)"
      using True x by (auto simp: AList.delete_eq intro!: filter_cong)
    ultimately show ?thesis unfolding step using True x by simp
  qed
qed simp


lemma list_all_dset: "list_all P d \<Longrightarrow> P (k, v) \<Longrightarrow> list_all P (dset k v d)"
  by (induction d) auto

lemma list_all_dpop: "list_all P d \<Longrightarrow> list_all P (dpop k d)"
  by (simp add: list_all_iff AList.delete_eq)

lemma flight_readable:
  "list_all (\<lambda>e. readable (fst (snd e))) d \<Longrightarrow> dget d k = Some (m, at) \<Longrightarrow> raw_job m = Some (job_of m)"
  by (auto simp: list_all_iff readable_def job_of_def dest!: map_of_SomeD)

lemma redis_requeue_view:
  assumes "redis_inv s"
  shows "redis_inv (snd (redis_requeue_stale_jobs (healthy e) t s))
    \<and> redis_dead (snd (redis_requeue_stale_jobs (healthy e) t s)) = redis_dead s
    \<and> (\<exists>moved ys. redis_taken s = redis_taken (snd (redis_requeue_stale_jobs (healthy e) t s)) + moved
        \<and> redis_waiting (snd (redis_requeue_stale_jobs (healthy e) t s)) = redis_waiting s + moved
        \<and> redis_order (snd (redis_requeue_stale_jobs (healthy e) t s)) = redis_order s @ ys)"
proof -
  let ?s' = "snd (redis_requeue_stale_jobs (healthy e) t s)" and ?d = "rq_inflight s"
  let ?old = "filter (late (qe_now e) t) ?d" and ?ys = "map (\<lambda>x. job_of (fst (snd x))) (filter (late (qe_now e) t) ?d)"
  have inv: "distinct (dkeys ?d)" "keyed (\<lambda>v. job_of (fst v)) ?d" "list_all (\<lambda>x. readable (fst (snd x))) ?d"
      "list_all readable (rq_main s)"
    using assms by (simp_all add: redis_inv_def keyed_def)
  have "?s' = snd (redis_requeue_entries (healthy e) t 1 ?d (0, record_success s))"
    by (simp add: redis_requeue_stale_jobs_def split_beta)
  then have v: "rq_main ?s' = rev (map (\<lambda>x. fst (snd x)) ?old) @ rq_main s"
      "rq_inflight ?s' = filter (\<lambda>x. fst x \<notin> fst ` set ?old) ?d" "rq_dead ?s' = rq_dead s" "rq_open_until ?s' = 0"
    using redis_requeue_entries_view [of ?d "record_success s" e t 1 0] inv(1) by simp_all
  have "fst x \<in> fst ` set ?old \<longleftrightarrow> late (qe_now e) t x" if "x \<in> set ?d" for x
  proof
    assume "fst x \<in> fst ` set ?old"
    then obtain y where "y \<in> set ?d" "fst y = fst x" "late (qe_now e) t y" by auto
    then show "late (qe_now e) t x" using that inv(1) by (metis eq_key_imp_eq_value prod.collapse)
  qed (use that in auto)
  then have f: "rq_inflight ?s' = filter (\<lambda>x. \<not> late (qe_now e) t x) ?d"
    unfolding v(2) by (intro filter_cong) auto
  have "redis_order ?s' = redis_order s @ ?ys"
    unfolding redis_order_def v(1) by (simp add: comp_def rev_map [symmetric])
  moreover have "redis_taken s = redis_taken ?s' + mset ?ys"
    unfolding redis_taken_def f using flight_filter [of "\<lambda>v. job_of (fst v)" ?d] by simp
  moreover have "redis_inv ?s'"
    unfolding redis_inv_def f v(1,4) using inv keyed_filter [OF inv(2)] by (auto simp: list_all_iff)
  ultimately show ?thesis using v(3) by (auto simp: redis_dead_def redis_waiting_def)
qed

lemma redis_take_law:
  assumes "redis_inv s" "be_dequeue redis_backend e s = (r, s')"
  shows "redis_inv s' \<and> redis_dead s' = redis_dead s \<and>
    (case r of None \<Rightarrow> redis_order s = [] \<and> redis_order s' = [] \<and> redis_taken s' = redis_taken s
     | Some j \<Rightarrow> redis_order s = j # redis_order s' \<and> redis_taken s' = add_mset j (others (job_id j) (redis_taken s)))"
proof (cases "rq_main s = []")
  case True
  then have "r = None" "s' = record_success (s\<lparr>rq_main := []\<rparr>)"
    using assms by (auto simp: redis_backend_def redis_dequeue_def healthy_closed)
  then show ?thesis using assms(1) True by (simp add: redis_views)
next
  case False
  have rd: "readable (last (rq_main s))" using assms(1) False by (simp add: redis_inv_def list_all_iff)
  have i: "list_all readable (butlast (rq_main s))" "list_all (\<lambda>e. readable (fst (snd e))) (rq_inflight s)"
      "keyed (\<lambda>v. job_of (fst v)) (rq_inflight s)"
    using assms(1) by (auto simp: redis_inv_def list_all_iff dest: in_set_butlastD)
  let ?m = "last (rq_main s)"
  have r: "r = Some (job_of ?m)" and s': "s' = record_success (record_success (s\<lparr>rq_main := butlast (rq_main s)\<rparr>)\<lparr>rq_inflight :=
       dset (job_id (job_of ?m)) (?m, qe_now (fst e)) (rq_inflight s)\<rparr>)"
    using assms(2) redis_dequeue_view [OF assms(1) False] by (simp_all add: redis_backend_def)
  have rf: "list_all (\<lambda>e. readable (fst (snd e))) (dset (job_id (job_of ?m)) (?m, qe_now (fst e)) (rq_inflight s))"
    using i(2) rd by (intro list_all_dset) simp_all
  show ?thesis using i rf butlast_last_views [OF False] unfolding r s'
    by (simp add: redis_views keyed_dset flight_dset)
qed

lemma redis_fail_view:
  "rq_main (snd (redis_fail (healthy e) i err s)) = rq_main s"
  "rq_inflight (snd (redis_fail (healthy e) i err s)) = dpop i (rq_inflight s)"
  "rq_open_until (snd (redis_fail (healthy e) i err s)) = 0"
  "rq_dead (snd (redis_fail (healthy e) i err s)) =
     \<lparr>dl_job_id = i, dl_payload = Option.bind (dget (rq_inflight s) i) (\<lambda>x. raw_job (fst x)), dl_error = err,
      dl_failed_at = qe_now e\<rparr> # rq_dead s"
  by (simp_all add: redis_fail_def)

lemma redis_fail_law:
  assumes "redis_inv s" "s' = snd (redis_fail (healthy e) i err s)"
  shows "redis_inv s' \<and> redis_waiting s' = redis_waiting s \<and> redis_order s' = redis_order s
    \<and> redis_taken s' = others i (redis_taken s) \<and> redis_dead s' = redis_dead s + named i (redis_taken s)"
proof -
  have k: "keyed (\<lambda>v. job_of (fst v)) (rq_inflight s)" and r: "list_all (\<lambda>e. readable (fst (snd e))) (rq_inflight s)"
    using assms(1) by (simp_all add: redis_inv_def)
  have "redis_dead s' = redis_dead s + named i (redis_taken s)"
    unfolding assms(2) redis_dead_def redis_taken_def redis_fail_view flight_named [OF k]
    using flight_readable [OF r, of i] by (cases "dget (rq_inflight s) i") (auto simp: split_beta)
  then show ?thesis using assms(1) k r unfolding assms(2)
    by (simp add: redis_inv_def redis_order_def redis_waiting_def redis_taken_def redis_fail_view keyed_dpop flight_dpop list_all_dpop)
qed

interpretation redis_queue_backend: queue_backend redis_backend redis_inv redis_waiting redis_order redis_taken redis_dead
proof
  fix s s' e j i err
  show "redis_inv s \<Longrightarrow> be_enqueue redis_backend e j s = (True, s') \<Longrightarrow>
      redis_inv s' \<and> redis_waiting s' = add_mset j (redis_waiting s) \<and> redis_order s' = redis_order s @ [j] \<and> redis_taken s' = redis_taken s \<and> redis_dead s' = redis_dead s"
    by (auto simp: redis_backend_def redis_enqueue_view redis_views)
  show "redis_inv s \<Longrightarrow> be_enqueue redis_backend e j s = (False, s') \<Longrightarrow>
      redis_inv s' \<and> redis_waiting s' = redis_waiting s \<and> redis_order s' = redis_order s \<and> redis_taken s' = redis_taken s \<and> redis_dead s' = redis_dead s"
    by (auto simp: redis_backend_def redis_enqueue_view redis_views)
  show "redis_inv s \<Longrightarrow> be_dequeue redis_backend e s = (None, s') \<Longrightarrow>
      redis_inv s' \<and> redis_order s = [] \<and> redis_waiting s' = redis_waiting s \<and> redis_order s' = redis_order s \<and> redis_taken s' = redis_taken s \<and> redis_dead s' = redis_dead s"
    using redis_take_law [of s e None s'] by (simp add: redis_waiting_def)
  show "redis_inv s \<Longrightarrow> be_dequeue redis_backend e s = (Some j, s') \<Longrightarrow>
      redis_inv s' \<and> redis_waiting s = add_mset j (redis_waiting s') \<and> redis_order s = j # redis_order s'
      \<and> redis_taken s' = add_mset j (others (job_id j) (redis_taken s)) \<and> redis_dead s' = redis_dead s"
    using redis_take_law [of s e "Some j" s'] by (simp add: redis_waiting_def)
  show "redis_inv s \<Longrightarrow> redis_inv (be_ack redis_backend e i s) \<and> redis_waiting (be_ack redis_backend e i s) = redis_waiting s
      \<and> redis_order (be_ack redis_backend e i s) = redis_order s
      \<and> redis_taken (be_ack redis_backend e i s) = others i (redis_taken s) \<and> redis_dead (be_ack redis_backend e i s) = redis_dead s"
    by (simp add: redis_backend_def redis_ack_def redis_views keyed_dpop flight_dpop list_all_dpop)
  show "redis_inv s \<Longrightarrow> redis_inv (be_fail redis_backend e i err s) \<and> redis_waiting (be_fail redis_backend e i err s) = redis_waiting s
      \<and> redis_order (be_fail redis_backend e i err s) = redis_order s
      \<and> redis_taken (be_fail redis_backend e i err s) = others i (redis_taken s)
      \<and> redis_dead (be_fail redis_backend e i err s) = redis_dead s + named i (redis_taken s)"
    using redis_fail_law [OF _ refl, of s "fst e" i err] by (simp add: redis_backend_def)
  show "redis_inv s \<Longrightarrow> redis_inv (be_requeue_stale_jobs redis_backend e s)
      \<and> redis_dead (be_requeue_stale_jobs redis_backend e s) = redis_dead s
      \<and> (\<exists>moved ys. redis_taken s = redis_taken (be_requeue_stale_jobs redis_backend e s) + moved
           \<and> redis_waiting (be_requeue_stale_jobs redis_backend e s) = redis_waiting s + moved
           \<and> redis_order (be_requeue_stale_jobs redis_backend e s) = redis_order s @ ys)"
    using redis_requeue_view [of s "fst e" "snd e"] by (simp add: redis_backend_def)
qed



section \<open>Properties\<close>

lemma new_queues_ok:
  "mem_queue_backend.accounted (new_mem_queue cap, {#}, {#})"
  "redis_queue_backend.accounted (new_redis_queue cap, {#}, {#})"
  unfolding mem_queue_backend.accounted_def redis_queue_backend.accounted_def
  by (simp_all add: mem_inv_def mem_waiting_def mem_taken_def mem_dead_def redis_views
      new_mem_queue_def new_redis_queue_def keyed_def flight_jobs_def unique_ids_def)

text \<open>C6. Both backends keep the promise of the queue: whatever a client and its workers call (enqueue, dequeue, ack,
  fail, recovery of stale jobs, in any order), with job ids not reused, every job the queue accepted is waiting, in
  flight, dead-lettered or acknowledged, and no other job is; for the in-memory queue always, for the Redis queue as
  long as the Redis operations succeed.\<close>
theorem queue_conserves_jobs:
  assumes "distinct (map job_id (submitted cs))"
  shows "(case fold (exec_cmd mem_backend mem_taken) cs (new_mem_queue cap, {#}, {#}) of
           (s, accepted, acked) \<Rightarrow> accepted = mem_waiting s + mem_taken s + mem_dead s + acked)
    \<and> (case fold (exec_cmd redis_backend redis_taken) cs (new_redis_queue cap, {#}, {#}) of
           (s, accepted, acked) \<Rightarrow> accepted = redis_waiting s + redis_taken s + redis_dead s + acked)"
  using mem_queue_backend.run_accounted [OF new_queues_ok(1) assms, of cap]
    redis_queue_backend.run_accounted [OF new_queues_ok(2) assms, of cap]
  by (auto simp: mem_queue_backend.accounted_def redis_queue_backend.accounted_def)

definition sample_job :: "string \<Rightarrow> QueueJobPayload" where
  "sample_job i = new_QueueJobPayload i ''run_flow'' [] [] [] ''''"

definition sample_queue_env :: "queue_env \<times> int" where
  "sample_queue_env = (\<lparr>qe_now = 400 * secs, qe_mono = 400 * secs, qe_ok = (\<lambda>_. True), qe_metrics = True\<rparr>, 300)"

theorem queue_conserves_jobs_witness:
  "case fold (exec_cmd mem_backend mem_taken)
      [Submit sample_queue_env (sample_job ''a''), Take sample_queue_env, Submit sample_queue_env (sample_job ''b''), Ack sample_queue_env ''a'']
      (new_mem_queue 2, {#}, {#}) of
     (s, accepted, acked) \<Rightarrow> accepted = mem_waiting s + mem_taken s + mem_dead s + acked"
  using queue_conserves_jobs [of "[Submit sample_queue_env (sample_job ''a''), Take sample_queue_env,
      Submit sample_queue_env (sample_job ''b''), Ack sample_queue_env ''a'']" 2]
  by (simp add: sample_job_def new_QueueJobPayload_def)

text \<open>C30. Jobs are served in turn: in either backend the job with \<open>k\<close> jobs before it is the one the next dequeue
  returns once \<open>k\<close> dequeues have happened, whatever was enqueued, settled or recovered in between (for Redis while
  its operations succeed).\<close>
theorem queue_serves_in_turn:
  assumes "takes_of cs = k"
  shows "(mem_inv m \<and> k < length (mq_q m) \<longrightarrow>
      fst (be_dequeue mem_backend e (fst (fold (exec_cmd mem_backend mem_taken) cs (m, {#}, {#})))) = Some (mq_q m ! k))
    \<and> (redis_inv r \<and> k < length (redis_order r) \<longrightarrow>
      fst (be_dequeue redis_backend e (fst (fold (exec_cmd redis_backend redis_taken) cs (r, {#}, {#})))) = Some (redis_order r ! k))"
  using mem_queue_backend.served_in_turn [OF _ _ assms, of m e] redis_queue_backend.served_in_turn [OF _ _ assms, of r e]
  by blast

theorem queue_serves_in_turn_witness:
  "fst (be_dequeue mem_backend sample_queue_env (fst (fold (exec_cmd mem_backend mem_taken)
      [Take sample_queue_env, Submit sample_queue_env (sample_job ''c'')]
      ((new_mem_queue 3)\<lparr>mq_q := [sample_job ''a'', sample_job ''b'']\<rparr>, {#}, {#})))) = Some (sample_job ''b'')"
  using queue_serves_in_turn [of "[Take sample_queue_env, Submit sample_queue_env (sample_job ''c'')]" 1
      "(new_mem_queue 3)\<lparr>mq_q := [sample_job ''a'', sample_job ''b'']\<rparr>" sample_queue_env "new_redis_queue 3"]
  by (simp add: mem_inv_def new_mem_queue_def keyed_def)

text \<open>The recovery of stale jobs in Redis deletes the in-flight record before it pushes the job back, as two
  operations, and swallows an error of the second: when the push fails the job is in no list any more, although
  recovery exists so that a job of a dead worker is not lost, and the call reports success with no job requeued.\<close>
theorem failed_requeue_loses_job:
  assumes "rq_inflight s = [(jid, Raw job, since)]" "timeout * secs < qe_now e - since"
    and "qe_ok e 0" "qe_ok e 1" "\<not> qe_ok e 2" "qe_metrics e"
  shows "fst (redis_requeue_stale_jobs e timeout s) = Some 0
    \<and> rq_main (snd (redis_requeue_stale_jobs e timeout s)) = rq_main s
    \<and> rq_inflight (snd (redis_requeue_stale_jobs e timeout s)) = []
    \<and> rq_dead (snd (redis_requeue_stale_jobs e timeout s)) = rq_dead s"
  using assms
  by (simp add: redis_requeue_stale_jobs_def run_redis_operation_def record_failure_def numeral_2_eq_2 Let_def)

definition stale_queue :: redis_queue where
  "stale_queue = (new_redis_queue 10)\<lparr>rq_inflight := [(''a'', Raw (sample_job ''a''), 0)]\<rparr>"

theorem failed_requeue_loses_job_witness:
  "fst (redis_requeue_stale_jobs ((fst sample_queue_env)\<lparr>qe_ok := (\<lambda>i. i < 2)\<rparr>) 300 stale_queue) = Some 0"
  using failed_requeue_loses_job [of stale_queue "''a''" "sample_job ''a''" 0 300 "(fst sample_queue_env)\<lparr>qe_ok := (\<lambda>i. i < 2)\<rparr>"]
  by (simp add: stale_queue_def sample_queue_env_def secs_def)

text \<open>A delayed job of the in-memory queue can vanish after it was accepted: the places of delayed jobs are counted
  against the capacity, but the recovery of stale jobs is not held to that count, so it can fill the queue, and the timer
  of the delayed job then finds it full, drops the job and still lowers the count.\<close>
theorem delayed_job_dropped:
  assumes "mq_q s = []" "mq_timers s = []" "mq_blocked s = []" "mq_max s = 1"
    and "mq_inflight s = [(job_id a, a, since)]" "timeout * secs < now - since"
  shows "fst (mem_enqueue_delayed b s) = None
    \<and> mq_q (mem_fire 0 (mem_requeue_stale_jobs now timeout (snd (mem_enqueue_delayed b s)))) = [a]
    \<and> mq_timers (mem_fire 0 (mem_requeue_stale_jobs now timeout (snd (mem_enqueue_delayed b s)))) = []
    \<and> mq_blocked (mem_fire 0 (mem_requeue_stale_jobs now timeout (snd (mem_enqueue_delayed b s)))) = []"
  using assms
  by (simp add: mem_enqueue_delayed_def mem_pending_depth_def mem_requeue_stale_jobs_def stale_def mem_fire_def mem_full_def Let_def)

theorem delayed_job_dropped_witness:
  "mq_q (mem_fire 0 (mem_requeue_stale_jobs (400 * secs) 300 (snd (mem_enqueue_delayed (sample_job ''b'')
     ((new_mem_queue 1)\<lparr>mq_inflight := [(job_id (sample_job ''a''), sample_job ''a'', 0)]\<rparr>))))) = [sample_job ''a'']"
  using delayed_job_dropped [of "(new_mem_queue 1)\<lparr>mq_inflight := [(job_id (sample_job ''a''), sample_job ''a'', 0)]\<rparr>"
      "sample_job ''a''" 0 300 "400 * secs" "sample_job ''b''"]
  by (simp add: new_mem_queue_def secs_def)


definition pending_jobs :: "backend \<Rightarrow> QueueJobPayload multiset" where
  "pending_jobs b =
     (case b of
        Memory_backend d reason m \<Rightarrow> mem_waiting m + mem_taken m + mset (mq_timers m)
      | Redis_backend r \<Rightarrow> redis_waiting r + redis_taken r + mset (map (\<lambda>d. job_of (fst d)) (rq_delayed r)))"

text \<open>The queue is memory-only in production although production is documented to require Redis and to fail at start
  without it: with a Redis URL whose server does not answer and without AINDY_REQUIRE_REDIS, get_queue returns the
  degraded in-memory queue even when the execution mode is distributed; and when the health check later reaches
  Redis, it replaces that queue, so the jobs accepted meanwhile are in no queue the process can reach.\<close>
theorem reconnect_abandons_accepted_jobs:
  assumes "redis_url_of ev cfg \<noteq> []" "\<not> qc_AINDY_REQUIRE_REDIS cfg" "\<not> test_flag ev ''TESTING''" "\<not> test_flag ev ''TEST_MODE''"
    and "qp_unready p0 = Some exc" "qp_unready p1 = None" "qp_metrics_ok p1"
  shows "\<exists>m m' r. get_queue ev cfg p0 False None = (Inr (Memory_backend True (Some exc) m), Some (Memory_backend True (Some exc) m))
    \<and> mem_enqueue job m = (None, m') \<and> job \<in># pending_jobs (Memory_backend True (Some exc) m')
    \<and> attempt_queue_backend_reconnect ev cfg p1 (Some (Memory_backend True (Some exc) m')) = (Some True, Some (Redis_backend r))
    \<and> pending_jobs (Redis_backend r) = pending_jobs (Redis_backend (qp_server p1))"
proof -
  let ?m = "new_mem_queue (queue_capacity_limit ev (qc_attr cfg))"
  have q: "get_queue ev cfg p0 False None = (Inr (Memory_backend True (Some exc) ?m), Some (Memory_backend True (Some exc) ?m))"
    using assms(1-5) by (simp add: get_queue_def select_backend_def redis_candidate_def fallback_to_memory_backend_def build_memory_backend_def)
  have a: "mem_enqueue job ?m = (None, ?m\<lparr>mq_q := [job]\<rparr>)"
    by (simp add: mem_enqueue_def mem_pending_depth_def new_mem_queue_def queue_capacity_limit_def)
  have "\<exists>r. attempt_queue_backend_reconnect ev cfg p1 (Some (Memory_backend True (Some exc) (?m\<lparr>mq_q := [job]\<rparr>))) = (Some True, Some (Redis_backend r))
      \<and> pending_jobs (Redis_backend r) = pending_jobs (Redis_backend (qp_server p1))"
    using assms(1,6,7) by (simp add: attempt_queue_backend_reconnect_def redis_candidate_def pending_jobs_def
      redis_waiting_def redis_order_def redis_taken_def)
  moreover have "job \<in># pending_jobs (Memory_backend True (Some exc) (?m\<lparr>mq_q := [job]\<rparr>))"
    by (simp add: pending_jobs_def mem_waiting_def)
  ultimately show ?thesis using q a by blast
qed

definition sample_queue_settings :: queue_settings where
  "sample_queue_settings = \<lparr>qc_REDIS_URL = ''redis://r'', qc_is_prod = True, qc_AINDY_REQUIRE_REDIS = False, qc_attr = (\<lambda>_. None)\<rparr>"

theorem reconnect_abandons_accepted_jobs_witness:
  "\<exists>m m' r. get_queue (\<lambda>_. None) sample_queue_settings \<lparr>qp_unready = Some ''refused'', qp_ready_again = False, qp_metrics_ok = False,
        qp_server = new_redis_queue 100\<rparr> False None
      = (Inr (Memory_backend True (Some ''refused'') m), Some (Memory_backend True (Some ''refused'') m))
    \<and> mem_enqueue (sample_job ''a'') m = (None, m') \<and> sample_job ''a'' \<in># pending_jobs (Memory_backend True (Some ''refused'') m')
    \<and> attempt_queue_backend_reconnect (\<lambda>_. None) sample_queue_settings \<lparr>qp_unready = None, qp_ready_again = True, qp_metrics_ok = True,
        qp_server = new_redis_queue 100\<rparr> (Some (Memory_backend True (Some ''refused'') m')) = (Some True, Some (Redis_backend r))
    \<and> pending_jobs (Redis_backend r) = pending_jobs (Redis_backend (new_redis_queue 100))"
  using reconnect_abandons_accepted_jobs [of "\<lambda>_. None" sample_queue_settings
      "\<lparr>qp_unready = Some ''refused'', qp_ready_again = False, qp_metrics_ok = False, qp_server = new_redis_queue 100\<rparr>" "''refused''"
      "\<lparr>qp_unready = None, qp_ready_again = True, qp_metrics_ok = True, qp_server = new_redis_queue 100\<rparr>" "sample_job ''a''"]
  by (simp add: sample_queue_settings_def redis_url_of_def test_flag_def py_lower_def lower_char_def)

end
