(* ===== verification/Execution_Dispatcher.thy ===== *)
theory Execution_Dispatcher
  imports Distributed_Queue Execution_Unit
begin

text \<open>
  Where work runs (\<^verbatim>\<open>core/execution_dispatcher.py\<close>): on the caller's thread, in the thread pool, or as a message
  on the distributed queue, and what such a message carries so that a worker can rebuild the work
  (\<^verbatim>\<open>core/resume_reconstruction.py\<close>).
\<close>


section \<open>Flags and the mode\<close>

definition async_heavy_execution_enabled :: "env \<Rightarrow> bool" where
  "async_heavy_execution_enabled ev =
     (if test_flag ev ''TESTING'' then False
      else if test_flag ev ''TEST_MODE'' then False
      else test_flag ev ''AINDY_ASYNC_HEAVY_EXECUTION'')"

definition SCHEDULER_ASYNC_DISPATCH_DEFAULT :: bool where
  "SCHEDULER_ASYNC_DISPATCH_DEFAULT = True"

definition in_test_mode :: "env \<Rightarrow> bool" where
  "in_test_mode ev = (test_flag ev ''TESTING'' \<or> test_flag ev ''TEST_MODE'')"

definition async_scheduler_dispatch_enabled :: "env \<Rightarrow> queue_settings \<Rightarrow> bool" where
  "async_scheduler_dispatch_enabled ev cfg =
     (let raw = (case ev ''AINDY_ASYNC_SCHEDULER_DISPATCH'' of None \<Rightarrow> [] | Some r \<Rightarrow> py_strip r);
          on = (py_lower raw \<in> set [''1'', ''true'', ''yes''])
      in if resolve_execution_mode ev cfg = ''distributed'' then (if raw = [] then False else on)
         else if raw \<noteq> [] then on
         else if in_test_mode ev then False
         else SCHEDULER_ASYNC_DISPATCH_DEFAULT)"

definition ASYNC_EU_TYPES :: "string list" where
  "ASYNC_EU_TYPES = [''flow'', ''agent'', ''nodus'', ''job'']"

text \<open>What the dispatcher reads of an execution unit, of the job stub or of a domain stub; an absent value is the empty text.\<close>

record dispatch_unit =
  du_type :: string
  du_priority :: string
  du_extra :: pyval
  du_id :: pyval
  du_user_id :: pyval

definition JOB_DISPATCH_STUB :: dispatch_unit where
  "JOB_DISPATCH_STUB =
     \<lparr>du_type = ''job'', du_priority = ''normal'', du_extra = PDict [(''async_hint'', PBool True)], du_id = PNone, du_user_id = PStr []\<rparr>"

definition DomainJobStub :: "string \<Rightarrow> string \<Rightarrow> dispatch_unit" where
  "DomainJobStub task source =
     \<lparr>du_type = ''job'', du_priority = ''normal'',
      du_extra = PDict [(''operation_name'', PStr task), (''task_name'', PStr task), (''source'', PStr source)],
      du_id = PNone, du_user_id = PStr []\<rparr>"

datatype ExecutionMode = INLINE | ASYNC

definition decide_mode :: "env \<Rightarrow> dispatch_unit \<Rightarrow> ExecutionMode" where
  "decide_mode ev u =
     (let extra = (case du_extra u of PDict d \<Rightarrow> d | _ \<Rightarrow> []); async_hint = pget extra ''async_hint''
      in if async_hint = PBool True then ASYNC
         else if \<not> async_heavy_execution_enabled ev then INLINE
         else if async_hint = PBool False then INLINE
         else if py_lower (du_priority u) = ''high'' then ASYNC
         else if py_lower (du_type u) \<in> set ASYNC_EU_TYPES then ASYNC
         else INLINE)"


section \<open>Messages\<close>

definition RESUME_TASK_NAME :: string where "RESUME_TASK_NAME = ''__resume__''"
definition RESUME_CONTEXT_KEY :: string where "RESUME_CONTEXT_KEY = ''resume''"

definition text_or_empty :: "pyval \<Rightarrow> string" where
  "text_or_empty v = (if truthy v then py_str v else [])"

definition resume_descriptor :: "string \<Rightarrow> string \<Rightarrow> pyval" where
  "resume_descriptor run_id eu_type = PDict [(''run_id'', PStr run_id), (''eu_type'', PStr (py_lower eu_type))]"

definition read_resume_context :: "payload \<Rightarrow> (string \<times> string) option" where
  "read_resume_context ctx =
     (case pget ctx RESUME_CONTEXT_KEY of
        PDict raw \<Rightarrow>
          let run_id = text_or_empty (pget raw ''run_id''); eu_type = py_lower (text_or_empty (pget raw ''eu_type''))
          in if run_id = [] \<or> eu_type = [] then None else Some (run_id, eu_type)
      | _ \<Rightarrow> None)"

text \<open>The ids of the trace the call is part of: the syscall's, the request's, and a fresh one.\<close>

record trace_env =
  te_syscall_trace :: string
  te_trace :: string
  te_fresh :: string
  te_eu :: string

text \<open>\<^verbatim>\<open>int(x)\<close> of a value that came from a dictionary.\<close>

definition py_int_of :: "pyval \<Rightarrow> py_exc + int" where
  "py_int_of v =
     (case v of
        PInt i \<Rightarrow> Inr i
      | PBool b \<Rightarrow> Inr (if b then 1 else 0)
      | PStr s \<Rightarrow> (case py_int10 s of None \<Rightarrow> Inl (ValueError s) | Some i \<Rightarrow> Inr i)
      | _ \<Rightarrow> Inl (TypeError (type_name v)))"

datatype dispatch_error =
    Undistributable "string list"
  | Dispatch_raised py_exc
  | Dispatch_queue queue_error
  | Dispatch_config string

definition int_key :: "payload \<Rightarrow> string \<Rightarrow> int \<Rightarrow> dispatch_error + int" where
  "int_key ctx k dflt =
     (case dget ctx k of
        None \<Rightarrow> Inr dflt
      | Some v \<Rightarrow> (case py_int_of v of Inl x \<Rightarrow> Inl (Dispatch_raised x) | Inr i \<Rightarrow> Inr i))"

definition build_job_payload ::
  "trace_env \<Rightarrow> string \<Rightarrow> dispatch_unit \<Rightarrow> payload \<Rightarrow> dispatch_error + QueueJobPayload" where
  "build_job_payload te stamp u ctx =
     (let resume = read_resume_context ctx
      in if resume = None \<and> \<not> truthy (pget ctx ''log_id'') then Inl (Undistributable (dkeys ctx))
         else
           let trace_id = (if te_syscall_trace te \<noteq> [] then te_syscall_trace te
                           else if te_trace te \<noteq> [] then te_trace te else te_fresh te);
               eu_id = (if te_eu te \<noteq> [] then te_eu te else text_or_empty (du_id u));
               job_id = (case resume of Some (run_id, eu_type) \<Rightarrow> run_id | None \<Rightarrow> py_str (pget ctx ''log_id''));
               operation_name = (case resume of
                   Some (run_id, eu_type) \<Rightarrow> ''resume:'' @ eu_type
                 | None \<Rightarrow> if truthy (pget ctx ''operation_name'') then py_str (pget ctx ''operation_name'')
                           else (case dget ctx ''task_name'' of None \<Rightarrow> [] | Some v \<Rightarrow> py_str v));
               task = (case resume of
                   Some _ \<Rightarrow> RESUME_TASK_NAME
                 | None \<Rightarrow> if truthy (pget ctx ''task_name'') then py_str (pget ctx ''task_name'') else operation_name);
               user = (if truthy (pget ctx ''user_id'') then py_str (pget ctx ''user_id'') else text_or_empty (du_user_id u))
           in bind_result (int_key ctx ''attempt_count'' 0) (\<lambda>attempts.
              bind_result (int_key ctx ''max_attempts'' 1) (\<lambda>most.
              Inr (new_QueueJobPayload job_id task []
                ((case resume of Some _ \<Rightarrow> [(RESUME_CONTEXT_KEY, pget ctx RESUME_CONTEXT_KEY)] | None \<Rightarrow> []) @
                 [(''trace_id'', PStr trace_id), (''eu_id'', PStr eu_id), (''user_id'', PStr user),
                  (''operation_name'', PStr operation_name)])
                [(''attempt_count'', PInt attempts), (''max_attempts'', PInt most),
                 (''is_retry'', PBool (truthy (pget ctx ''retry'')))]
                stamp))))"


section \<open>Retry delays\<close>

definition env_int :: "env \<Rightarrow> string \<Rightarrow> int \<Rightarrow> dispatch_error + int" where
  "env_int ev k dflt =
     (case ev k of
        None \<Rightarrow> Inr dflt
      | Some raw \<Rightarrow> (case py_int10 raw of None \<Rightarrow> Inl (Dispatch_raised (ValueError raw)) | Some i \<Rightarrow> Inr i))"

text \<open>In milliseconds; \<open>attempts\<close> is the count in the row of the job, \<open>None\<close> when it cannot be read.\<close>

definition compute_retry_delay :: "env \<Rightarrow> int option \<Rightarrow> dispatch_error + int" where
  "compute_retry_delay ev attempts =
     bind_result (env_int ev ''AINDY_RETRY_BACKOFF_BASE_MS'' 1000) (\<lambda>base_ms.
     bind_result (env_int ev ''AINDY_RETRY_BACKOFF_MAX_MS'' 30000) (\<lambda>max_ms.
     let attempt = (case attempts of None \<Rightarrow> 1 | Some n \<Rightarrow> max 1 (if n = 0 then 1 else n))
     in Inr (min (base_ms * 2 ^ nat (attempt - 1)) max_ms)))"


section \<open>Dispatch\<close>

definition enqueue_on :: "queue_env \<Rightarrow> QueueJobPayload \<Rightarrow> backend \<Rightarrow> queue_error option \<times> backend" where
  "enqueue_on qe job b =
     (case b of
        Memory_backend d reason m \<Rightarrow> map_prod id (Memory_backend d reason) (mem_enqueue job m)
      | Redis_backend r \<Rightarrow> map_prod id Redis_backend (redis_enqueue qe job r))"

definition enqueue_delayed_on :: "queue_env \<Rightarrow> QueueJobPayload \<Rightarrow> int \<Rightarrow> backend \<Rightarrow> queue_error option \<times> backend" where
  "enqueue_delayed_on qe job delay_ms b =
     (case b of
        Memory_backend d reason m \<Rightarrow> map_prod id (Memory_backend d reason) (mem_enqueue_delayed job m)
      | Redis_backend r \<Rightarrow> map_prod id Redis_backend (redis_enqueue_delayed qe job (delay_ms * 1000) r))"

text \<open>
  The surroundings of a dispatch: the environment and settings, the clock text of the message, the
  trace ids, the queue's own surroundings, and the attempt count of the row of a retried job.
\<close>

record dispatch_env =
  de_env :: env
  de_settings :: queue_settings
  de_probe :: queue_probe
  de_stamp :: string
  de_trace :: trace_env
  de_queue :: queue_env
  de_attempts :: "int option"

definition deliver :: "dispatch_env \<Rightarrow> QueueJobPayload \<Rightarrow> bool \<Rightarrow> backend \<Rightarrow> dispatch_error option \<times> backend" where
  "deliver d job is_retry b =
     (let now_or_later = (if is_retry then compute_retry_delay (de_env d) (de_attempts d) else Inr 0)
      in case now_or_later of
           Inl x \<Rightarrow> (Some x, b)
         | Inr delay_ms \<Rightarrow>
             map_prod (map_option Dispatch_queue) id
               (if 0 < delay_ms then enqueue_delayed_on (de_queue d) job delay_ms b else enqueue_on (de_queue d) job b))"

definition enqueue_distributed :: "dispatch_env \<Rightarrow> dispatch_unit \<Rightarrow> payload \<Rightarrow> backend option \<Rightarrow> dispatch_error option \<times> backend option" where
  "enqueue_distributed d u ctx inst =
     (case build_job_payload (de_trace d) (de_stamp d) u ctx of
        Inl x \<Rightarrow> (Some x, inst)
      | Inr job \<Rightarrow>
          (case get_queue (de_env d) (de_settings d) (de_probe d) False inst of
             (Inl err, inst') \<Rightarrow> (Some (Dispatch_config err), inst')
           | (Inr b, inst') \<Rightarrow> map_prod id Some (deliver d job (truthy (pget ctx ''retry'')) b)))"

text \<open>
  A dispatch ends with the value of the handler, a message on the queue, or a task in the pool; \<open>handler\<close>
  runs on the caller's state when the mode is inline.
\<close>

datatype dispatched = Ran pyval | Enqueued | Pooled

definition dispatch ::
  "dispatch_env \<Rightarrow> dispatch_unit \<Rightarrow> ('s \<Rightarrow> (py_exc + pyval) \<times> 's) \<Rightarrow> payload \<Rightarrow> backend option \<times> 's
   \<Rightarrow> (dispatch_error + dispatched) \<times> backend option \<times> 's" where
  "dispatch d u handler ctx st =
     (case st of (inst, s) \<Rightarrow>
        if decide_mode (de_env d) u = INLINE
        then (case handler s of
                (Inl x, s') \<Rightarrow> (Inl (Dispatch_raised x), inst, s')
              | (Inr v, s') \<Rightarrow> (Inr (Ran v), inst, s'))
        else if resolve_execution_mode (de_env d) (de_settings d) = ''distributed''
        then (case enqueue_distributed d u ctx inst of
                (Some x, inst') \<Rightarrow> (Inl x, inst', s)
              | (None, inst') \<Rightarrow> (Inr Enqueued, inst', s))
        else (Inr Pooled, inst, s))"



section \<open>What a message says\<close>

lemma message_rebuilt:
  assumes "build_job_payload te stamp u ctx = Inr job"
  shows "read_resume_context (job_context job) = read_resume_context ctx"
    and "read_resume_context ctx = Some (run_id, eu_type) \<Longrightarrow> job_id job = run_id \<and> task_name job = RESUME_TASK_NAME"
    and "read_resume_context ctx = None \<Longrightarrow> truthy (pget ctx ''log_id'') \<and> job_id job = py_str (pget ctx ''log_id'')"
proof -
  have same: "read_resume_context ((RESUME_CONTEXT_KEY, pget ctx RESUME_CONTEXT_KEY) # rest) = read_resume_context ctx" for rest
    by (simp add: read_resume_context_def pget_def dget_or_def split: option.split)
  have none: "read_resume_context [(''trace_id'', a), (''eu_id'', b), (''user_id'', c), (''operation_name'', v)] = None" for a b c v
    by (simp add: read_resume_context_def pget_def dget_or_def RESUME_CONTEXT_KEY_def)
  note def = build_job_payload_def Let_def bind_result_def new_QueueJobPayload_def
  show "read_resume_context (job_context job) = read_resume_context ctx" using assms
    by (cases "read_resume_context ctx") (auto simp: def same none split: sum.splits if_splits)
  show "read_resume_context ctx = Some (run_id, eu_type) \<Longrightarrow> job_id job = run_id \<and> task_name job = RESUME_TASK_NAME" using assms
    by (auto simp: def split: sum.splits if_splits)
  show "read_resume_context ctx = None \<Longrightarrow> truthy (pget ctx ''log_id'') \<and> job_id job = py_str (pget ctx ''log_id'')" using assms
    by (auto simp: def split: sum.splits if_splits)
qed

lemma message_refused:
  assumes "build_job_payload te stamp u ctx = Inl x"
  shows "x = Undistributable (dkeys ctx) \<and> read_resume_context ctx = None \<and> \<not> truthy (pget ctx ''log_id'')
    \<or> (\<exists>y. x = Dispatch_raised y) \<and> (read_resume_context ctx \<noteq> None \<or> truthy (pget ctx ''log_id''))"
proof -
  have int: "int_key ctx k n = Inl y \<Longrightarrow> \<exists>z. y = Dispatch_raised z" for k n y
    by (auto simp: int_key_def split: option.splits sum.splits)
  show ?thesis using assms by (auto simp: build_job_payload_def Let_def bind_result_def split: sum.splits if_splits dest!: int)
qed

text \<open>C34. A message on the queue names the work it was built from: the worker reads back the very resume descriptor the caller
  gave, under the id of the run; a message without one carries the id of the job's row and no descriptor; and work that
  has neither is refused, never enqueued.\<close>

theorem message_rebuildable:
  "case build_job_payload te stamp u ctx of
     Inr job \<Rightarrow>
       read_resume_context (job_context job) = read_resume_context ctx \<and>
       (case read_resume_context ctx of
          Some (run_id, eu_type) \<Rightarrow> job_id job = run_id \<and> task_name job = RESUME_TASK_NAME
        | None \<Rightarrow> truthy (pget ctx ''log_id'') \<and> job_id job = py_str (pget ctx ''log_id''))
   | Inl (Undistributable ks) \<Rightarrow> read_resume_context ctx = None \<and> \<not> truthy (pget ctx ''log_id'') \<and> ks = dkeys ctx
   | Inl x \<Rightarrow> (\<exists>y. x = Dispatch_raised y) \<and> \<not> (read_resume_context ctx = None \<and> \<not> truthy (pget ctx ''log_id''))"
proof (cases "build_job_payload te stamp u ctx")
  case (Inl x)
  then show ?thesis using message_refused [OF Inl] by auto
next
  case (Inr job)
  then show ?thesis using message_rebuilt [OF Inr] by (cases "read_resume_context ctx") auto
qed

end
