(* ===== verification/Async_Jobs.thy ===== *)
theory Async_Jobs
  imports Execution_Dispatcher Payload_Identity
begin

text \<open>
  Asynchronous jobs (\<^verbatim>\<open>platform_layer/async_job_service.py\<close>, \<^verbatim>\<open>db/models/job_log.py\<close>): the row of a job, its
  admission and submission, its execution with retries, deferred jobs, and the cleanup of jobs that
  never started.
\<close>


section \<open>Rows and transactions\<close>

record JobLog =
  jl_source :: string
  jl_task_name :: string
  jl_payload :: payload
  jl_status :: string
  jl_attempt_count :: int
  jl_max_attempts :: int
  jl_error_message :: "string option"
  jl_user_id :: "nat option"
  jl_result :: pyval
  jl_started_at :: "time option"
  jl_completed_at :: "time option"
  jl_created_at :: time
  jl_scheduled_for :: "time option"

text \<open>
  What a session of this service works on: the rows of jobs, the execution units, and the rows the
  job handlers write themselves. \<open>tx_saved\<close> is committed, \<open>tx_now\<close> what the session sees. \<open>tx_runs\<close> is the
  history of handler calls; no rollback undoes a call.
\<close>

record job_db =
  jd_logs :: "JobLog dict"
  jd_units :: units
  jd_work :: "string list"

record txn =
  tx_saved :: job_db
  tx_now :: job_db
  tx_runs :: "string list"

definition commit_txn :: "txn \<Rightarrow> txn" where
  "commit_txn t = t\<lparr>tx_saved := tx_now t\<rparr>"

definition rollback_txn :: "txn \<Rightarrow> txn" where
  "rollback_txn t = t\<lparr>tx_now := tx_saved t\<rparr>"

text \<open>
  \<^verbatim>\<open>_emit_async_system_event\<close> on the session of the job: \<^verbatim>\<open>emit_system_event\<close> commits the session when the event
  could be written and rolls the session back when it could not; the caller goes on in both cases.
\<close>

definition emit_async :: "bool \<Rightarrow> txn \<Rightarrow> txn" where
  "emit_async ok t = (if ok then commit_txn t else rollback_txn t)"

definition get_log :: "string \<Rightarrow> txn \<Rightarrow> JobLog option" where
  "get_log log_id t = dget (jd_logs (tx_now t)) log_id"

definition set_log :: "string \<Rightarrow> (JobLog \<Rightarrow> JobLog) \<Rightarrow> txn \<Rightarrow> txn" where
  "set_log log_id f t =
     (case get_log log_id t of
        None \<Rightarrow> t
      | Some r \<Rightarrow> t\<lparr>tx_now := (tx_now t)\<lparr>jd_logs := dset log_id (f r) (jd_logs (tx_now t))\<rparr>\<rparr>)"

text \<open>\<^verbatim>\<open>get_by_source\<close> and \<^verbatim>\<open>update_status\<close> of the unit service on the same session; its statements succeed.\<close>

definition unit_clock :: "time \<Rightarrow> unit_env" where
  "unit_clock now = \<lparr>ue_ok = (\<lambda>_. True), ue_now = (\<lambda>_. now)\<rparr>"

definition move_job_unit :: "time \<Rightarrow> string \<Rightarrow> string \<Rightarrow> txn \<Rightarrow> txn" where
  "move_job_unit now log_id status t =
     (case get_by_source (unit_clock now) 0 ''job_log'' log_id (begin_session (jd_units (tx_now t))) of
        (None, s) \<Rightarrow> t
      | (Some (n, u), s) \<Rightarrow>
          t\<lparr>tx_now := (tx_now t)\<lparr>jd_units := view (snd (update_status (unit_clock now) 1 (PUuid n) status s))\<rparr>\<rparr>)"


section \<open>Execution\<close>

text \<open>
  A handler of the registry: what it answers or raises, the rows it writes on the session it is given,
  and whether it commits them itself.
\<close>

type_synonym job_handler = "payload \<Rightarrow> (py_exc + pyval) \<times> string list \<times> bool"

text \<open>
  The surroundings of one execution: the registry, the clock, for the \<open>i\<close>-th event whether it can be
  written, and whether the \<^verbatim>\<open>execution.started\<close> event of the job exists. \<open>je_strict\<close> tells whether a required
  event that cannot be written raises (outside of test mode).
\<close>

record job_env =
  je_registry :: "string \<Rightarrow> job_handler option"
  je_now :: time
  je_emit :: "nat \<Rightarrow> bool"
  je_started :: bool
  je_strict :: bool

fun exc_text :: "py_exc \<Rightarrow> string" where
  "exc_text (TypeError s) = s"
| "exc_text (AttributeError s) = s"
| "exc_text (ValueError s) = s"
| "exc_text (KeyError s) = s"
| "exc_text (PermissionError s) = s"
| "exc_text (RuntimeError s) = s"
| "exc_text (Other_exc c s) = s"

definition normalize_result :: "pyval \<Rightarrow> pyval" where
  "normalize_result v =
     (case v of PUuid n \<Rightarrow> PDict [(''result'', PStr (uuid_str n))] | _ \<Rightarrow> v)"

definition is_execution_envelope :: "pyval \<Rightarrow> bool" where
  "is_execution_envelope v =
     (case v of
        PDict d \<Rightarrow> list_all (\<lambda>k. k \<in> set (dkeys d)) [''status'', ''result'', ''events'', ''next_action'', ''trace_id'']
      | _ \<Rightarrow> False)"

definition execution_success :: "pyval \<Rightarrow> string \<Rightarrow> pyval" where
  "execution_success result trace_id =
     PDict [(''status'', PStr ''SUCCESS''), (''data'', result), (''result'', result), (''events'', PList []),
            (''next_action'', PNone), (''trace_id'', PStr trace_id)]"

definition execution_error :: "string \<Rightarrow> string \<Rightarrow> pyval" where
  "execution_error message trace_id =
     (let body = PDict [(''message'', PStr message)] in
      PDict [(''status'', PStr ''ERROR''), (''data'', body), (''result'', body), (''events'', PList []),
             (''next_action'', PNone), (''trace_id'', PStr trace_id)])"

datatype job_end = Job_done | Job_retry "nat option" | Job_raised string

text \<open>The handler call on the session.\<close>

definition run_handler :: "job_handler \<Rightarrow> string \<Rightarrow> payload \<Rightarrow> txn \<Rightarrow> (py_exc + pyval) \<times> txn" where
  "run_handler h log_id p t =
     (case h p of (answer, writes, commits) \<Rightarrow>
        let t1 = t\<lparr>tx_runs := tx_runs t @ [log_id], tx_now := (tx_now t)\<lparr>jd_work := jd_work (tx_now t) @ writes\<rparr>\<rparr>
        in (answer, if commits then commit_txn t1 else t1))"

text \<open>The outer \<^verbatim>\<open>except\<close>: \<open>attempt_no\<close> is the number of this attempt, \<open>terminal\<close> an unregistered handler.\<close>

definition fail_attempt :: "job_env \<Rightarrow> string \<Rightarrow> int \<Rightarrow> bool \<Rightarrow> string \<Rightarrow> txn \<Rightarrow> job_end \<times> txn" where
  "fail_attempt e log_id attempt_no terminal err t0 =
     (let t = rollback_txn t0
      in case get_log log_id t of
           None \<Rightarrow> (Job_done, t)
         | Some row \<Rightarrow>
             let count = max (jl_attempt_count row) attempt_no
             in if \<not> terminal \<and> count < jl_max_attempts row
                then (Job_retry (jl_user_id row),
                      commit_txn (set_log log_id (\<lambda>r. r\<lparr>jl_attempt_count := count, jl_status := ''pending'',
                        jl_error_message := Some err\<rparr>) t))
                else
                  let t1 = set_log log_id (\<lambda>r. r\<lparr>jl_attempt_count := count, jl_status := ''failed'',
                        jl_error_message := Some err, jl_result := normalize_result (execution_error err log_id),
                        jl_completed_at := Some (je_now e)\<rparr>) t;
                      t2 = move_job_unit (je_now e) log_id ''failed'' t1;
                      t3 = (if je_started e then emit_async (je_emit e 3) t2 else t2);
                      t4 = emit_async (je_emit e 4) t3;
                      t5 = emit_async (je_emit e 5) t4
                  in if \<not> je_emit e 5 \<and> je_strict e then (Job_raised ''Required system event failed'', t5)
                     else (Job_done, commit_txn t5))"

text \<open>The row of the attempt before the handler runs, and the row of a successful attempt.\<close>

definition start_attempt :: "job_env \<Rightarrow> string \<Rightarrow> int \<Rightarrow> txn \<Rightarrow> txn" where
  "start_attempt e log_id attempt_no t =
     (let t1 = set_log log_id (\<lambda>r. r\<lparr>jl_status := ''running'', jl_started_at := Some (je_now e),
            jl_attempt_count := attempt_no\<rparr>) t;
          t2 = move_job_unit (je_now e) log_id ''executing'' t1
      in if je_started e then emit_async (je_emit e 0) t2 else t2)"

definition finish_attempt :: "job_env \<Rightarrow> string \<Rightarrow> pyval \<Rightarrow> txn \<Rightarrow> txn" where
  "finish_attempt e log_id v t =
     (let result = (if is_execution_envelope v then v else execution_success v log_id);
          t1 = set_log log_id (\<lambda>r. r\<lparr>jl_status := ''success'', jl_result := normalize_result result,
            jl_completed_at := Some (je_now e)\<rparr>) t;
          t2 = move_job_unit (je_now e) log_id ''completed'' t1;
          t3 = (if je_started e then emit_async (je_emit e 1) t2 else t2)
      in commit_txn (emit_async (je_emit e 2) t3))"

definition execute_job_inline :: "job_env \<Rightarrow> string \<Rightarrow> string \<Rightarrow> payload \<Rightarrow> txn \<Rightarrow> job_end \<times> txn" where
  "execute_job_inline e log_id task p t =
     (case get_log log_id t of
        None \<Rightarrow> (Job_done, t)
      | Some row \<Rightarrow>
          let attempt_no = jl_attempt_count row + 1
          in (case je_registry e task of
                None \<Rightarrow>
                  fail_attempt e log_id attempt_no True
                    (''Async job handler '' @ [CHR 0x27] @ task @ [CHR 0x27] @ '' is not registered in this process'') t
              | Some h \<Rightarrow>
                  (case run_handler h log_id p (start_attempt e log_id attempt_no t) of
                     (Inl x, t1) \<Rightarrow> fail_attempt e log_id attempt_no False (exc_text x) t1
                   | (Inr v, t1) \<Rightarrow> (Job_done, finish_attempt e log_id v t1))))"


section \<open>The service\<close>

text \<open>
  The state the service shares with the dispatcher and the workers: the committed rows, the handler
  calls so far, the queue, the thread pool's tasks, and the timers of pending retries with their
  delay in milliseconds.
\<close>

type_synonym pool_task = "string \<times> string \<times> payload"

record job_world =
  jw_db :: job_db
  jw_runs :: "string list"
  jw_queue :: "backend option"
  jw_pool :: "pool_task list"
  jw_timers :: "(pool_task \<times> int) list"

definition open_txn :: "job_world \<Rightarrow> txn" where
  "open_txn w = \<lparr>tx_saved = jw_db w, tx_now = jw_db w, tx_runs = jw_runs w\<rparr>"

definition close_txn :: "txn \<Rightarrow> job_world \<Rightarrow> job_world" where
  "close_txn t w = w\<lparr>jw_db := tx_saved t, jw_runs := tx_runs t\<rparr>"

definition user_text :: "nat option \<Rightarrow> pyval" where
  "user_text u = (case u of None \<Rightarrow> PNone | Some n \<Rightarrow> PStr (uuid_str n))"

definition row_attempts :: "string \<Rightarrow> job_world \<Rightarrow> int option" where
  "row_attempts log_id w = map_option jl_attempt_count (dget (jd_logs (jw_db w)) log_id)"

text \<open>
  A dispatch of a job with the job stub, which is always asynchronous: a message on the queue in
  distributed mode, a task of the pool otherwise.
\<close>

definition dispatch_job_task :: "dispatch_env \<Rightarrow> pool_task \<Rightarrow> payload \<Rightarrow> job_world \<Rightarrow> dispatch_error option \<times> job_world" where
  "dispatch_job_task d task ctx w =
     (case dispatch (d\<lparr>de_attempts := row_attempts (fst task) w\<rparr>) JOB_DISPATCH_STUB (\<lambda>s. (Inr PNone, s)) ctx (jw_queue w, ()) of
        (Inl x, q, u) \<Rightarrow> (Some x, w\<lparr>jw_queue := q\<rparr>)
      | (Inr Pooled, q, u) \<Rightarrow> (None, w\<lparr>jw_queue := q, jw_pool := jw_pool w @ [task]\<rparr>)
      | (Inr _, q, u) \<Rightarrow> (None, w\<lparr>jw_queue := q\<rparr>))"

definition retry_context :: "string \<Rightarrow> nat option \<Rightarrow> payload" where
  "retry_context log_id user = [(''log_id'', PStr log_id), (''retry'', PBool True), (''user_id'', user_text user)]"

definition schedule_job_retry :: "dispatch_env \<Rightarrow> pool_task \<Rightarrow> nat option \<Rightarrow> job_world \<Rightarrow> dispatch_error option \<times> job_world" where
  "schedule_job_retry d task user w =
     (if resolve_execution_mode (de_env d) (de_settings d) = ''distributed''
      then dispatch_job_task d task (retry_context (fst task) user) w
      else (case compute_retry_delay (de_env d) (row_attempts (fst task) w) of
              Inl x \<Rightarrow> (Some x, w)
            | Inr delay_ms \<Rightarrow>
                if delay_ms \<le> 0 then dispatch_job_task d task (retry_context (fst task) user) w
                else (None, w\<lparr>jw_timers := jw_timers w @ [(task, delay_ms)]\<rparr>)))"

datatype job_error = Event_failed string | Retry_failed dispatch_error | Job_saturated int | Job_dispatch dispatch_error

definition execute_job :: "job_env \<Rightarrow> dispatch_env \<Rightarrow> pool_task \<Rightarrow> job_world \<Rightarrow> job_error option \<times> job_world" where
  "execute_job e d task w =
     (case execute_job_inline e (fst task) (fst (snd task)) (snd (snd task)) (open_txn w) of
        (Job_done, t) \<Rightarrow> (None, close_txn t w)
      | (Job_raised err, t) \<Rightarrow> (Some (Event_failed err), close_txn t w)
      | (Job_retry user, t) \<Rightarrow> map_prod (map_option Retry_failed) id (schedule_job_retry d task user (close_txn t w)))"


subsection \<open>Admission\<close>

definition active_job_statuses :: "string list" where
  "active_job_statuses = [''pending'', ''running'', ''deferred'']"

definition active_jobs :: "nat option \<Rightarrow> job_db \<Rightarrow> int" where
  "active_jobs user db =
     int (length (filter (\<lambda>(k, r). jl_status r \<in> set active_job_statuses \<and> (user = None \<or> jl_user_id r = user)) (jd_logs db)))"

definition enforce_job_admission_limits :: "env \<Rightarrow> queue_settings \<Rightarrow> nat option \<Rightarrow> job_db \<Rightarrow> job_error option" where
  "enforce_job_admission_limits ev cfg user db =
     (let global_cap = safe_int_env ev (qc_attr cfg) ''AINDY_ASYNC_MAX_CONCURRENT_GLOBAL'' 0;
          per_user_cap = safe_int_env ev (qc_attr cfg) ''AINDY_ASYNC_MAX_CONCURRENT_PER_USER'' 0
      in if 0 < global_cap \<and> global_cap \<le> active_jobs None db then Some (Job_saturated 503)
         else if 0 < per_user_cap \<and> user \<noteq> None \<and> per_user_cap \<le> active_jobs user db then Some (Job_saturated 429)
         else None)"

definition total_pending_jobs :: "backend \<Rightarrow> int" where
  "total_pending_jobs b =
     (case b of
        Memory_backend d reason m \<Rightarrow> int (length (mq_q m) + length (mq_timers m))
      | Redis_backend r \<Rightarrow> int (length (rq_main r) + length (rq_delayed r)))"

definition metrics_fail :: "dispatch_env \<Rightarrow> backend \<Rightarrow> bool" where
  "metrics_fail d b = (case b of Redis_backend r \<Rightarrow> \<not> qe_metrics (de_queue d) | _ \<Rightarrow> False)"

definition enforce_distributed_queue_backpressure :: "dispatch_env \<Rightarrow> job_world \<Rightarrow> job_error option \<times> job_world" where
  "enforce_distributed_queue_backpressure d w =
     (if resolve_execution_mode (de_env d) (de_settings d) \<noteq> ''distributed'' then (None, w)
      else (case get_queue (de_env d) (de_settings d) (de_probe d) False (jw_queue w) of
              (Inl err, inst) \<Rightarrow> (Some (Job_dispatch (Dispatch_config err)), w\<lparr>jw_queue := inst\<rparr>)
            | (Inr b, inst) \<Rightarrow>
                (if metrics_fail d b then Some (Job_dispatch (Dispatch_queue Redis_error))
                 else if saturation_threshold (de_env d) (qc_attr (de_settings d)) \<le> total_pending_jobs b
                 then Some (Job_saturated 503) else None, w\<lparr>jw_queue := inst\<rparr>)))"



subsection \<open>Submission\<close>

text \<open>
  The surroundings of a submission: whether the service accepts jobs, the settings that force inline
  execution, whether the background runner is up, the dialect of the database, the fresh ids, and
  whether a slot of the submission semaphore is free.
\<close>

record submit_env =
  sn_accepting :: bool
  sn_is_testing :: bool
  sn_runner_running :: bool
  sn_sqlite :: bool
  sn_log_id :: string
  sn_unit_id :: nat
  sn_slot :: bool

record job_request =
  jq_task_name :: string
  jq_payload :: payload
  jq_user_id :: pyval
  jq_source :: string
  jq_max_attempts :: int
  jq_inline_in_test :: bool

definition force_inline :: "env \<Rightarrow> submit_env \<Rightarrow> bool" where
  "force_inline ev n =
     (sn_is_testing n \<or> (case ev ''ENV'' of None \<Rightarrow> False | Some v \<Rightarrow> py_lower v = ''test'')
      \<or> (case ev ''PYTEST_CURRENT_TEST'' of None \<Rightarrow> False | Some v \<Rightarrow> v \<noteq> []))"

definition runner_disabled :: "dispatch_env \<Rightarrow> submit_env \<Rightarrow> bool" where
  "runner_disabled d n =
     (let background_enabled =
            (case de_env d ''AINDY_ENABLE_BACKGROUND_TASKS'' of None \<Rightarrow> True
             | Some v \<Rightarrow> py_lower v \<in> set [''1'', ''true'', ''yes''])
      in \<not> (background_enabled \<and> sn_runner_running n)
         \<and> resolve_execution_mode (de_env d) (de_settings d) \<noteq> ''distributed'')"

definition inline_enabled :: "dispatch_env \<Rightarrow> submit_env \<Rightarrow> job_request \<Rightarrow> bool" where
  "inline_enabled d n q =
     (force_inline (de_env d) n \<or> runner_disabled d n \<or> jq_inline_in_test q \<and> sn_sqlite n)"

definition new_JobLog :: "time \<Rightarrow> job_request \<Rightarrow> JobLog" where
  "new_JobLog now q =
     \<lparr>jl_source = jq_source q, jl_task_name = jq_task_name q, jl_payload = jq_payload q, jl_status = ''pending'',
      jl_attempt_count = 0, jl_max_attempts = jq_max_attempts q, jl_error_message = None,
      jl_user_id = parse_user_id (jq_user_id q), jl_result = PNone, jl_started_at = None, jl_completed_at = None,
      jl_created_at = now, jl_scheduled_for = None\<rparr>"

definition job_unit_args :: "string \<Rightarrow> job_request \<Rightarrow> unit_args" where
  "job_unit_args log_id q =
     \<lparr>ua_type = ''job'', ua_user_id = (case parse_user_id (jq_user_id q) of None \<Rightarrow> PNone | Some n \<Rightarrow> PUuid n),
      ua_source_type = Some ''job_log'', ua_source_id = Some log_id, ua_parent_id = PNone, ua_flow_run_id = None,
      ua_correlation_id = Some log_id,
      ua_extra = PDict [(''task_name'', PStr (jq_task_name q)), (''source'', PStr (jq_source q)),
        (''workflow_type'', PStr (jq_task_name q))],
      ua_status = ''pending'', ua_env_spec = PNone, ua_env_applied = PNone, ua_env_evidence_class = None\<rparr>"

definition record_job :: "time \<Rightarrow> submit_env \<Rightarrow> JobLog \<Rightarrow> job_request \<Rightarrow> txn \<Rightarrow> txn" where
  "record_job now n row q t =
     (let t1 = commit_txn (t\<lparr>tx_now := (tx_now t)\<lparr>jd_logs := dset (sn_log_id n) row (jd_logs (tx_now t))\<rparr>\<rparr>)
      in commit_txn (t1\<lparr>tx_now := (tx_now t1)\<lparr>jd_units :=
           view (snd (create_unit (unit_clock now) 0 (sn_unit_id n) (job_unit_args (sn_log_id n) q)
             (begin_session (jd_units (tx_now t1)))))\<rparr>\<rparr>))"

text \<open>The guard after an inline execution: a row that is neither successful nor failed becomes successful.\<close>

definition ensure_inline_terminal :: "time \<Rightarrow> string \<Rightarrow> txn \<Rightarrow> txn" where
  "ensure_inline_terminal now log_id t =
     (case get_log log_id t of
        None \<Rightarrow> t
      | Some r \<Rightarrow>
          if jl_status r \<in> set [''success'', ''failed''] then t
          else commit_txn (set_log log_id (\<lambda>r. r\<lparr>jl_status := ''success'',
                 jl_completed_at := (case jl_completed_at r of None \<Rightarrow> Some now | Some c \<Rightarrow> Some c)\<rparr>) t))"

definition dispatch_text :: "dispatch_error \<Rightarrow> string" where
  "dispatch_text x =
     (case x of Undistributable ks \<Rightarrow> ''refusing to enqueue work with no log_id'' | Dispatch_raised y \<Rightarrow> exc_text y
      | Dispatch_queue (Saturated cap) \<Rightarrow> ''Async queue is saturated'' | Dispatch_queue Redis_error \<Rightarrow> ''redis''
      | Dispatch_config c \<Rightarrow> c)"

definition error_text :: "job_error \<Rightarrow> string" where
  "error_text x =
     (case x of Event_failed s \<Rightarrow> s | Retry_failed y \<Rightarrow> dispatch_text y
      | Job_saturated c \<Rightarrow> ''Async job queue full'' | Job_dispatch y \<Rightarrow> dispatch_text y)"

text \<open>The \<^verbatim>\<open>except\<close> of the submission: the row is marked failed, two events are emitted, the session is rolled back.\<close>

definition submission_failed :: "job_env \<Rightarrow> string \<Rightarrow> job_error \<Rightarrow> txn \<Rightarrow> txn" where
  "submission_failed e log_id err t =
     (let t1 = set_log log_id (\<lambda>r. r\<lparr>jl_status := ''failed'', jl_error_message := Some (error_text err),
            jl_completed_at := Some (je_now e)\<rparr>) t
      in rollback_txn (emit_async (je_emit e 7) (emit_async (je_emit e 6) t1)))"

definition give_up :: "job_env \<Rightarrow> string \<Rightarrow> job_error \<Rightarrow> job_world \<Rightarrow> (job_error + string) \<times> job_world" where
  "give_up e log_id err w = (Inl err, close_txn (submission_failed e log_id err (open_txn w)) w)"

definition submit_inline ::
  "job_env \<Rightarrow> dispatch_env \<Rightarrow> string \<Rightarrow> job_request \<Rightarrow> job_world \<Rightarrow> (job_error + string) \<times> job_world" where
  "submit_inline e d log_id q w =
     (case execute_job e d (log_id, jq_task_name q, jq_payload q) w of
        (failure, w1) \<Rightarrow>
          let w2 = close_txn (ensure_inline_terminal (je_now e) log_id (open_txn w1)) w1
          in (case failure of None \<Rightarrow> (Inr log_id, w2) | Some err \<Rightarrow> give_up e log_id err w2))"

definition submit_async_job ::
  "job_env \<Rightarrow> dispatch_env \<Rightarrow> submit_env \<Rightarrow> job_request \<Rightarrow> job_world \<Rightarrow> (job_error + string) \<times> job_world" where
  "submit_async_job e d n q w =
     (if \<not> sn_accepting n then (Inl (Job_saturated 503), w)
      else
        let inline = inline_enabled d n q; user = parse_user_id (jq_user_id q);
            (refused, w1) =
              (if inline then (None, w)
               else case enforce_job_admission_limits (de_env d) (de_settings d) user (jw_db w) of
                      Some x \<Rightarrow> (Some x, w)
                    | None \<Rightarrow> enforce_distributed_queue_backpressure d w)
        in (case refused of
              Some x \<Rightarrow> (Inl x, w1)
            | None \<Rightarrow>
                let log_id = sn_log_id n;
                    w2 = close_txn (record_job (je_now e) n (new_JobLog (je_now e) q) q (open_txn w1)) w1
                in if inline then submit_inline e d log_id q w2
                   else if \<not> sn_slot n
                   then give_up e log_id (Job_saturated 503)
                          (close_txn (commit_txn (set_log log_id (\<lambda>r. r\<lparr>jl_status := ''failed'',
                             jl_error_message := Some ''Execution queue full -- retry later'',
                             jl_completed_at := Some (je_now e)\<rparr>) (open_txn w2))) w2)
                   else if resolve_execution_mode (de_env d) (de_settings d) = ''distributed''
                   then (case dispatch_job_task d (log_id, jq_task_name q, jq_payload q)
                           [(''log_id'', PStr log_id), (''task_name'', PStr (jq_task_name q)), (''user_id'', user_text user)] w2 of
                           (None, w3) \<Rightarrow> (Inr log_id, w3)
                         | (Some x, w3) \<Rightarrow> give_up e log_id (Job_dispatch x) w3)
                   else (Inr log_id, w2\<lparr>jw_pool := jw_pool w2 @ [(log_id, jq_task_name q, jq_payload q)]\<rparr>)))"



subsection \<open>Deferred and stale jobs\<close>

text \<open>What the autonomy controller decides about a trigger, given the live state of the system.\<close>

datatype decision = Ignore | Defer int | Execute

definition defer_async_job :: "time \<Rightarrow> submit_env \<Rightarrow> job_request \<Rightarrow> int \<Rightarrow> job_world \<Rightarrow> string \<times> job_world" where
  "defer_async_job now n q defer_seconds w =
     (let delay = (if defer_seconds = 0 then 300 else defer_seconds);
          row = (new_JobLog now q)\<lparr>jl_status := ''deferred'', jl_max_attempts := 1, jl_scheduled_for := Some (now + delay * secs)\<rparr>
      in (sn_log_id n, close_txn (record_job now n row q (open_txn w)) w))"

definition due_deferred :: "time \<Rightarrow> nat \<Rightarrow> job_db \<Rightarrow> (string \<times> JobLog) list" where
  "due_deferred now limit db =
     take limit (sort_key (\<lambda>(k, r). the (jl_scheduled_for r))
       (filter (\<lambda>(k, r). jl_status r = ''deferred'' \<and> (case jl_scheduled_for r of None \<Rightarrow> False | Some s \<Rightarrow> s \<le> now)) (jd_logs db)))"

text \<open>
  The loop over the due jobs. A lost lease ends it; an exception of the dispatch ends it too, after the
  row has been committed as pending. The answer is the number of jobs handed on, or the exception.
\<close>

fun process_deferred_rows ::
  "job_env \<Rightarrow> dispatch_env \<Rightarrow> bool \<Rightarrow> (string \<Rightarrow> decision) \<Rightarrow> bool \<Rightarrow> (string \<times> JobLog) list \<Rightarrow> nat \<times> job_world
   \<Rightarrow> (job_error + nat) \<times> job_world" where
  "process_deferred_rows e d test_mode judge fence [] (n, w) = (Inr n, w)"
| "process_deferred_rows e d test_mode judge fence ((log_id, row) # rest) (n, w) =
     (case judge log_id of
        Ignore \<Rightarrow>
          process_deferred_rows e d test_mode judge fence rest
            (n, close_txn (commit_txn (set_log log_id (\<lambda>r. r\<lparr>jl_status := ''ignored'', jl_completed_at := Some (je_now e)\<rparr>) (open_txn w))) w)
      | Defer s \<Rightarrow>
          process_deferred_rows e d test_mode judge fence rest
            (n, close_txn (commit_txn (set_log log_id (\<lambda>r. r\<lparr>jl_scheduled_for :=
                  Some (je_now e + (if s = 0 then 300 else s) * secs)\<rparr>) (open_txn w))) w)
      | Execute \<Rightarrow>
          if \<not> fence then (Inr n, w)
          else
            let w1 = close_txn (commit_txn (set_log log_id (\<lambda>r. r\<lparr>jl_status := ''pending''\<rparr>) (open_txn w))) w;
                task = (log_id, jl_task_name row, jl_payload row)
            in if test_mode
               then (case execute_job e d task w1 of
                       (None, w2) \<Rightarrow> process_deferred_rows e d test_mode judge fence rest (n + 1, w2)
                     | (Some x, w2) \<Rightarrow> (Inl x, w2))
               else (case dispatch_job_task d task [(''log_id'', PStr log_id)] w1 of
                       (None, w2) \<Rightarrow> process_deferred_rows e d test_mode judge fence rest (n + 1, w2)
                     | (Some x, w2) \<Rightarrow> (Inl (Job_dispatch x), w2)))"

definition process_deferred_jobs ::
  "job_env \<Rightarrow> dispatch_env \<Rightarrow> bool \<Rightarrow> (string \<Rightarrow> decision) \<Rightarrow> bool \<Rightarrow> nat \<Rightarrow> job_world \<Rightarrow> (job_error + nat) \<times> job_world" where
  "process_deferred_jobs e d test_mode judge fence limit w =
     process_deferred_rows e d test_mode judge fence (due_deferred (je_now e) limit (jw_db w)) (0, w)"

definition STALE_JOB_ERROR :: string where
  "STALE_JOB_ERROR = ''Stale: never started within 1 hour of creation''"

definition stale_row :: "time \<Rightarrow> string \<times> JobLog \<Rightarrow> bool" where
  "stale_row now e = (jl_status (snd e) = ''pending'' \<and> jl_created_at (snd e) < now - 3600 * secs)"

definition finalize_job_unit :: "time \<Rightarrow> string \<Rightarrow> string \<Rightarrow> txn \<Rightarrow> txn" where
  "finalize_job_unit now log_id run_status t =
     (case get_by_source (unit_clock now) 0 ''job_log'' log_id (begin_session (jd_units (tx_now t))) of
        (None, s) \<Rightarrow> t
      | (Some (n, u), s) \<Rightarrow>
          t\<lparr>tx_now := (tx_now t)\<lparr>jd_units := view (snd (finalize_for_run_status (unit_clock now) (PUuid n) run_status s))\<rparr>\<rparr>)"

definition fail_stale_log :: "time \<Rightarrow> string \<times> JobLog \<Rightarrow> txn \<Rightarrow> txn" where
  "fail_stale_log now e t =
     finalize_job_unit now (fst e) ''failed''
       (set_log (fst e) (\<lambda>r. r\<lparr>jl_status := ''failed'', jl_error_message := Some STALE_JOB_ERROR\<rparr>) t)"

definition cleanup_stale_logs :: "time \<Rightarrow> job_world \<Rightarrow> job_world" where
  "cleanup_stale_logs now w =
     close_txn (commit_txn (fold (fail_stale_log now) (filter (stale_row now) (jd_logs (jw_db w))) (open_txn w))) w"

subsection \<open>Recovery at start-up\<close>

text \<open>
  \<^verbatim>\<open>recover_orphaned_thread_jobs\<close> of \<^verbatim>\<open>platform_layer/job_recovery.py\<close>: the tasks handed to fresh threads, in order, and
  the state when the scan ends; each thread then runs \<open>execute_job\<close> on its task.
\<close>

definition ORPHAN_STATUSES :: "string list" where
  "ORPHAN_STATUSES = [''pending'', ''running'']"

definition MAX_RECOVER :: nat where
  "MAX_RECOVER = 500"

definition reclaim_orphan :: "string \<times> JobLog \<Rightarrow> pool_task list \<times> job_world \<Rightarrow> pool_task list \<times> job_world" where
  "reclaim_orphan orphan st =
     (case dget (jd_logs (jw_db (snd st))) (fst orphan) of
        None \<Rightarrow> st
      | Some r \<Rightarrow>
          if jl_status r \<notin> set ORPHAN_STATUSES then st
          else (fst st @ [(fst orphan, jl_task_name (snd orphan), jl_payload (snd orphan))],
                close_txn (commit_txn (set_log (fst orphan) (\<lambda>r. r\<lparr>jl_status := ''pending'', jl_started_at := None\<rparr>) (open_txn (snd st)))) (snd st)))"

definition recover_orphaned_thread_jobs :: "dispatch_env \<Rightarrow> job_world \<Rightarrow> pool_task list \<times> job_world" where
  "recover_orphaned_thread_jobs d w =
     (if resolve_execution_mode (de_env d) (de_settings d) \<noteq> ''thread'' then ([], w)
      else fold reclaim_orphan (take MAX_RECOVER (filter (\<lambda>(k, r). jl_status r \<in> set ORPHAN_STATUSES) (jd_logs (jw_db w)))) ([], w))"




section \<open>What an execution leaves\<close>

lemma txn_simps [simp]:
  "tx_now (commit_txn t) = tx_now t" "tx_saved (commit_txn t) = tx_now t" "tx_runs (commit_txn t) = tx_runs t"
  "tx_now (rollback_txn t) = tx_saved t" "tx_saved (rollback_txn t) = tx_saved t" "tx_runs (rollback_txn t) = tx_runs t"
  by (simp_all add: commit_txn_def rollback_txn_def)

lemma emit_simps [simp]:
  "tx_now (emit_async ok t) = (if ok then tx_now t else tx_saved t)"
  "tx_saved (emit_async ok t) = (if ok then tx_now t else tx_saved t)"
  "tx_runs (emit_async ok t) = tx_runs t"
  by (simp_all add: emit_async_def)

lemma set_log_simps [simp]:
  "tx_saved (set_log i f t) = tx_saved t" "tx_runs (set_log i f t) = tx_runs t"
  "jd_units (tx_now (set_log i f t)) = jd_units (tx_now t)" "jd_work (tx_now (set_log i f t)) = jd_work (tx_now t)"
  "dget (jd_logs (tx_now (set_log i f t))) k =
     (if k = i then map_option f (dget (jd_logs (tx_now t)) i) else dget (jd_logs (tx_now t)) k)"
  by (auto simp: set_log_def get_log_def split: option.splits)

lemma unit_move_simps [simp]:
  "tx_saved (move_job_unit now i st t) = tx_saved t" "tx_runs (move_job_unit now i st t) = tx_runs t"
  "jd_logs (tx_now (move_job_unit now i st t)) = jd_logs (tx_now t)"
  "jd_work (tx_now (move_job_unit now i st t)) = jd_work (tx_now t)"
  by (auto simp: move_job_unit_def split: prod.splits option.splits)

lemma run_handler_simps:
  assumes "run_handler h i p t = (ans, t')" "h p = (ans', writes, commits)"
  shows "ans = ans'" "tx_runs t' = tx_runs t @ [i]"
    "jd_logs (tx_now t') = jd_logs (tx_now t)" "jd_units (tx_now t') = jd_units (tx_now t)"
    "jd_work (tx_now t') = jd_work (tx_now t) @ writes"
    "tx_saved t' = (if commits then tx_now t' else tx_saved t)"
  using assms by (auto simp: run_handler_def Let_def)

lemma fail_attempt_row:
  assumes "dget (jd_logs (tx_saved t)) i = Some row" "\<forall>k. je_emit e k"
  shows "\<exists>r t'. fail_attempt e i a term err t =
       (if \<not> term \<and> max (jl_attempt_count row) a < jl_max_attempts row then Job_retry (jl_user_id row) else Job_done, t')
     \<and> dget (jd_logs (tx_saved t')) i = Some r \<and> jl_error_message r = Some err
     \<and> jl_attempt_count r = max (jl_attempt_count row) a \<and> jl_max_attempts r = jl_max_attempts row
     \<and> jl_status r = (if \<not> term \<and> max (jl_attempt_count row) a < jl_max_attempts row then ''pending'' else ''failed'')
     \<and> jd_work (tx_saved t') = jd_work (tx_saved t) \<and> tx_runs t' = tx_runs t"
  using assms by (auto simp: fail_attempt_def get_log_def Let_def)


lemma fail_attempt_weak:
  assumes "dget (jd_logs (tx_saved t)) i = Some row" "fail_attempt e i a term err t = (how, t')"
  shows "tx_runs t' = tx_runs t
    \<and> (\<forall>k. k \<noteq> i \<longrightarrow> dget (jd_logs (tx_saved t')) k = dget (jd_logs (tx_saved t)) k)
    \<and> (\<exists>r. dget (jd_logs (tx_saved t')) i = Some r \<and> jl_max_attempts r = jl_max_attempts row
         \<and> (r = row \<or> jl_status r = ''failed''
            \<or> jl_status r = ''pending'' \<and> a \<le> jl_attempt_count r \<and> jl_attempt_count r < jl_max_attempts r))"
proof (cases "\<not> term \<and> max (jl_attempt_count row) a < jl_max_attempts row")
  case True
  then show ?thesis using assms by (auto simp: fail_attempt_def get_log_def Let_def)
next
  case False
  then show ?thesis using assms
    by (auto simp: fail_attempt_def get_log_def Let_def split: if_splits)
qed

lemma run_handler_logs:
  assumes "run_handler h i p t = (ans, t')"
  shows "tx_runs t' = tx_runs t @ [i]" "jd_logs (tx_now t') = jd_logs (tx_now t)"
    "jd_logs (tx_saved t') \<in> {jd_logs (tx_now t), jd_logs (tx_saved t)}"
  using assms by (auto simp: run_handler_def Let_def split: prod.splits if_splits)

lemma start_attempt_logs:
  assumes "tx_saved t = tx_now t" "get_log i t = Some row" "d \<in> {tx_saved (start_attempt e i n t), tx_now (start_attempt e i n t)}"
  shows "k \<noteq> i \<Longrightarrow> dget (jd_logs d) k = dget (jd_logs (tx_now t)) k"
    and "dget (jd_logs d) i \<in> {Some row, Some (row\<lparr>jl_status := ''running'', jl_started_at := Some (je_now e), jl_attempt_count := n\<rparr>)}"
  using assms by (cases "je_started e"; cases "je_emit e 0"; auto simp: start_attempt_def Let_def get_log_def)+

lemma start_attempt_runs [simp]: "tx_runs (start_attempt e i n t) = tx_runs t"
  by (simp add: start_attempt_def Let_def)

text \<open>Whatever fails on the way: the handler of the job runs at most once, and only a retry leaves the row claimable.\<close>

lemma execute_inline_weak:
  assumes "tx_saved t = tx_now t" "get_log i t = Some row" "jl_status row \<notin> {''pending'', ''deferred''}"
    and "execute_job_inline e i task p t = (how, t')"
  shows "(tx_runs t' = tx_runs t \<or> tx_runs t' = tx_runs t @ [i])
    \<and> (\<forall>k. k \<noteq> i \<longrightarrow> dget (jd_logs (tx_saved t')) k = dget (jd_logs (tx_saved t)) k)
    \<and> (\<exists>r. dget (jd_logs (tx_saved t')) i = Some r \<and> jl_max_attempts r = jl_max_attempts row
         \<and> jl_status r \<noteq> ''deferred''
         \<and> (jl_status r = ''pending'' \<longrightarrow> jl_attempt_count row < jl_attempt_count r \<and> jl_attempt_count r < jl_max_attempts r))"
proof (cases "je_registry e task")
  case None
  have row: "dget (jd_logs (tx_saved t)) i = Some row" using assms(1,2) by (simp add: get_log_def)
  show ?thesis
    using fail_attempt_weak [OF row, of e "jl_attempt_count row + 1" True _ how t'] assms(2-4) None
    by (fastforce simp: execute_job_inline_def)
next
  case (Some h)
  let ?run = "row\<lparr>jl_status := ''running'', jl_started_at := Some (je_now e), jl_attempt_count := jl_attempt_count row + 1\<rparr>"
  let ?t3 = "start_attempt e i (jl_attempt_count row + 1) t"
  obtain ans t4 where t4: "run_handler h i p ?t3 = (ans, t4)" by (cases "run_handler h i p ?t3")
  note h4 = run_handler_logs [OF t4]
  have from3: "\<exists>d3 \<in> {tx_saved ?t3, tx_now ?t3}. jd_logs d = jd_logs d3" if "d \<in> {tx_saved t4, tx_now t4}" for d
    using that h4(2,3) by auto
  have other: "dget (jd_logs d) k = dget (jd_logs (tx_saved t)) k" if d: "d \<in> {tx_saved t4, tx_now t4}" and k: "k \<noteq> i" for d k
  proof -
    obtain d3 where "d3 \<in> {tx_saved ?t3, tx_now ?t3}" "jd_logs d = jd_logs d3" using from3 [OF d] by blast
    then show ?thesis using start_attempt_logs(1) [OF assms(1,2) _ k] assms(1) by simp
  qed
  have own: "dget (jd_logs d) i \<in> {Some row, Some ?run}" if d: "d \<in> {tx_saved t4, tx_now t4}" for d
  proof -
    obtain d3 where "d3 \<in> {tx_saved ?t3, tx_now ?t3}" "jd_logs d = jd_logs d3" using from3 [OF d] by blast
    then show ?thesis using start_attempt_logs(2) [OF assms(1,2)] by simp
  qed
  have runs: "tx_runs t4 = tx_runs t @ [i]" using h4(1) by simp
  obtain srow where srow: "dget (jd_logs (tx_saved t4)) i = Some srow" "srow \<in> {row, ?run}" using own [of "tx_saved t4"] by auto
  have fine: "jl_max_attempts srow = jl_max_attempts row" "jl_status srow \<notin> {''pending'', ''deferred''}"
    using srow(2) assms(3) by auto
  show ?thesis
  proof (cases ans)
    case (Inl x)
    have "fail_attempt e i (jl_attempt_count row + 1) False (exc_text x) t4 = (how, t')"
      using assms(2,4) t4 Inl Some by (simp add: execute_job_inline_def)
    from fail_attempt_weak [OF srow(1) this] show ?thesis using runs other fine by fastforce
  next
    case (Inr v)
    have "t' = finish_attempt e i v t4" using assms(2,4) t4 Inr Some by (simp add: execute_job_inline_def)
    then have "tx_runs t' = tx_runs t @ [i]" "\<forall>k. k \<noteq> i \<longrightarrow> dget (jd_logs (tx_saved t')) k = dget (jd_logs (tx_saved t)) k"
      "\<exists>r. dget (jd_logs (tx_saved t')) i = Some r \<and> jl_max_attempts r = jl_max_attempts row \<and> jl_status r \<notin> {''pending'', ''deferred''}"
      using runs other own [of "tx_saved t4"] own [of "tx_now t4"] assms(3) by (auto simp: finish_attempt_def Let_def)
    then show ?thesis by auto
  qed
qed



subsection \<open>The unit of the job\<close>

definition job_unit :: "string \<Rightarrow> job_db \<Rightarrow> (nat \<times> ExecutionUnit) option" where
  "job_unit i db = fst (get_by_source (unit_clock 0) 0 ''job_log'' i (begin_session (jd_units db)))"

definition unit_moves :: "string \<Rightarrow> string \<Rightarrow> string" where
  "unit_moves st st' = (if st' \<in> set (allowed_next st) then st' else st)"

lemma insort_map: "insort_key f (g x) (map g xs) = map g (insort_key (f \<circ> g) x xs)"
  by (induction xs) auto

lemma sort_key_map: "sort_key f (map g xs) = map g (sort_key (f \<circ> g) xs)"
  by (induction xs) (simp_all add: insort_map comp_def)

lemma sort_key_cong: "(\<And>x. x \<in> set xs \<Longrightarrow> f x = g x) \<Longrightarrow> sort_key f xs = sort_key g xs"
proof (induction xs)
  case (Cons x xs)
  have "insort_key f x ys = insort_key g x ys" if "set ys \<subseteq> set (x # xs)" for ys
    using that Cons.prems by (induction ys) auto
  then show ?case using Cons by (simp add: subset_insertI)
qed simp

lemma update_as_map:
  "distinct (map fst rows) \<Longrightarrow> n \<in> fst ` set rows \<Longrightarrow>
     AList.update n v rows = map (\<lambda>(k, u). (k, if k = n then v else u)) rows"
proof (induction rows)
  case (Cons r rows)
  obtain k u where r: "r = (k, u)" by (cases r)
  have "k = n \<Longrightarrow> map (\<lambda>(k, u). (k, if k = n then v else u)) rows = rows"
    using Cons.prems(1) r by (intro map_idI) (auto simp: image_iff)
  then show ?case using Cons r by auto
qed simp

lemma get_by_source_unit:
  "get_by_source (unit_clock now) 0 ''job_log'' i (begin_session us)
    = (fst (get_by_source (unit_clock 0) 0 ''job_log'' i (begin_session us)), begin_session us)"
  by (simp add: get_by_source_def unit_clock_def begin_session_def)

lemma job_unit_row:
  assumes "job_unit i db = Some (n, u)"
  shows "(n, u) \<in> set (jd_units db)" "xu_source_type u = Some ''job_log''" "xu_source_id u = Some i"
proof -
  let ?f = "filter (\<lambda>(n, u). xu_source_type u = Some ''job_log'' \<and> xu_source_id u = Some i) (jd_units db)"
  have "job_unit i db = (case rev (sort_key (\<lambda>(n, u). xu_created_at u) ?f) of [] \<Rightarrow> None | r # rest \<Rightarrow> Some r)"
    by (simp add: job_unit_def get_by_source_def unit_clock_def begin_session_def view_def)
  then obtain rest where "rev (sort_key (\<lambda>(n, u). xu_created_at u) ?f) = (n, u) # rest" using assms by (auto split: list.splits)
  then have "(n, u) \<in> set (rev (sort_key (\<lambda>(n, u). xu_created_at u) ?f))" by simp
  then have "(n, u) \<in> set ?f" by simp
  then show "(n, u) \<in> set (jd_units db)" "xu_source_type u = Some ''job_log''" "xu_source_id u = Some i" by simp_all
qed

lemma job_unit_map:
  assumes "\<And>k u. (k, u) \<in> set (jd_units db) \<Longrightarrow>
      fst (g (k, u)) = k \<and> xu_source_type (snd (g (k, u))) = xu_source_type u \<and> xu_source_id (snd (g (k, u))) = xu_source_id u
      \<and> xu_created_at (snd (g (k, u))) = xu_created_at u"
  shows "job_unit i (db\<lparr>jd_units := map g (jd_units db)\<rparr>) = map_option g (job_unit i db)"
proof -
  let ?p = "\<lambda>(n, u). xu_source_type u = Some ''job_log'' \<and> xu_source_id u = Some i"
  let ?c = "\<lambda>(n, u). xu_created_at u" and ?us = "jd_units db"
  have "filter ?p (map g ?us) = map g (filter ?p ?us)"
    unfolding filter_map using assms by (intro arg_cong [where f = "map g"] filter_cong) (auto simp: split_beta)
  moreover have "sort_key (?c \<circ> g) (filter ?p ?us) = sort_key ?c (filter ?p ?us)"
    using assms by (intro sort_key_cong) (auto simp: split_beta)
  ultimately have "rev (sort_key ?c (filter ?p (map g ?us))) = map g (rev (sort_key ?c (filter ?p ?us)))"
    by (simp add: sort_key_map rev_map)
  then show ?thesis
    by (simp add: job_unit_def get_by_source_def unit_clock_def begin_session_def view_def split: list.splits)
qed


lemma update_status_view:
  assumes "distinct (map fst us)" "(n, u) \<in> set us"
  shows "view (snd (update_status (unit_clock now) 1 (PUuid n) st (begin_session us)))
    = (case status_write (unit_clock now) 1 st u of
         None \<Rightarrow> us
       | Some w \<Rightarrow> map (\<lambda>(k, x). (k, if k = n then write_columns w u else x)) us)"
proof -
  have m: "map_of us n = Some u" using assms by simp
  have k: "n \<in> fst ` set us" using assms(2) by force
  have f: "fetch (unit_clock now) 1 (PUuid n) (begin_session us) = Some (Some (n, u))"
    using m by (simp add: fetch_def begin_session_def unit_clock_def coerce_uuid_def view_def)
  have v: "view (begin_session us) = us" by (simp add: view_def begin_session_def)
  show ?thesis
  proof (cases "status_write (unit_clock now) 1 st u")
    case None
    then show ?thesis using f v by (simp add: update_status_def touch_unit_def)
  next
    case (Some w)
    then have "\<exists>a b c. w = Set_status a b c" by (auto simp: status_write_def split: if_splits)
    then have "view (begin_session us\<lparr>ss_writes := [(n, w)]\<rparr>) = AList.update n (write_columns w u) us"
      using m by (auto simp: view_def begin_session_def apply_write_def)
    then show ?thesis using f Some update_as_map [OF assms(1) k]
      by (simp add: update_status_def touch_unit_def unit_clock_def begin_session_def)
  qed
qed

lemma status_written: "status_write e i st u = Some w \<Longrightarrow>
    xu_status (write_columns w u) = st \<and> st \<in> set (allowed_next (xu_status u))
    \<and> xu_source_type (write_columns w u) = xu_source_type u \<and> xu_source_id (write_columns w u) = xu_source_id u
    \<and> xu_created_at (write_columns w u) = xu_created_at u"
  by (auto simp: status_write_def Let_def split: if_splits option.splits)

lemma move_job_unit_status:
  assumes "distinct (map fst (jd_units (tx_now t)))" "job_unit i (tx_now t) = Some (n, u)"
  shows "\<exists>u'. job_unit i (tx_now (move_job_unit now i st t)) = Some (n, u') \<and> xu_status u' = unit_moves (xu_status u) st
    \<and> distinct (map fst (jd_units (tx_now (move_job_unit now i st t))))"
proof -
  let ?us = "jd_units (tx_now t)"
  have r: "(n, u) \<in> set ?us" using job_unit_row(1) [OF assms(2)] .
  have "get_by_source (unit_clock now) 0 ''job_log'' i (begin_session ?us) = (Some (n, u), begin_session ?us)"
    using get_by_source_unit [of now i ?us] assms(2) by (simp add: job_unit_def)
  then have d: "tx_now (move_job_unit now i st t)
      = (tx_now t)\<lparr>jd_units := view (snd (update_status (unit_clock now) 1 (PUuid n) st (begin_session ?us)))\<rparr>"
    by (simp add: move_job_unit_def)
  show ?thesis
  proof (cases "status_write (unit_clock now) 1 st u")
    case None
    then have "st \<notin> set (allowed_next (xu_status u))" by (simp add: status_write_def split: if_splits)
    then show ?thesis using d None update_status_view [OF assms(1) r] assms by (simp add: unit_moves_def)
  next
    case (Some w)
    let ?g = "\<lambda>(k, x). (k, if k = n then write_columns w u else x)"
    note sw = status_written [OF Some]
    have same: "x = u" if "(n, x) \<in> set ?us" for x using that r assms(1) by (metis eq_key_imp_eq_value)
    have "job_unit i ((tx_now t)\<lparr>jd_units := map ?g ?us\<rparr>) = map_option ?g (job_unit i (tx_now t))"
      using sw same by (intro job_unit_map) auto
    then have "job_unit i (tx_now (move_job_unit now i st t)) = Some (n, write_columns w u)"
      using d Some update_status_view [OF assms(1) r] assms(2) by simp
    moreover have "map fst (map ?g ?us) = map fst ?us" by (simp add: comp_def split_beta)
    then have "distinct (map fst (jd_units (tx_now (move_job_unit now i st t))))"
      using d Some update_status_view [OF assms(1) r] assms(1) by (simp del: map_map)
    ultimately show ?thesis using sw by (simp add: unit_moves_def)
  qed
qed


lemma job_unit_cong: "jd_units a = jd_units b \<Longrightarrow> job_unit i a = job_unit i b"
  by (simp add: job_unit_def)

lemma unit_moves_simps [simp]:
  "unit_moves ''pending'' ''executing'' = ''executing''" "unit_moves ''executing'' ''executing'' = ''executing''"
  "unit_moves ''executing'' ''completed'' = ''completed''" "unit_moves ''executing'' ''failed'' = ''failed''"
  by (simp_all add: unit_moves_def allowed_next_def STATUS_TRANSITIONS_def dget_or_def)

text \<open>A change of the row, then a move of the unit, then a commit: what the three leave together.\<close>

lemma log_and_unit:
  assumes "dget (jd_logs (tx_now t)) i = Some row" "distinct (map fst (jd_units (tx_now t)))" "job_unit i (tx_now t) = Some (n, u)"
    and t': "t' = move_job_unit now i st (set_log i f t)"
  shows "dget (jd_logs (tx_now t')) i = Some (f row)" "tx_runs t' = tx_runs t" "jd_work (tx_now t') = jd_work (tx_now t)"
    "\<exists>u'. job_unit i (tx_now t') = Some (n, u') \<and> xu_status u' = unit_moves (xu_status u) st"
    "distinct (map fst (jd_units (tx_now t')))"
proof -
  have "distinct (map fst (jd_units (tx_now (set_log i f t))))" "job_unit i (tx_now (set_log i f t)) = Some (n, u)"
    using assms(2,3) by (simp_all add: job_unit_cong [of "tx_now (set_log i f t)" "tx_now t"])
  from move_job_unit_status [OF this, of now st]
  show "\<exists>u'. job_unit i (tx_now t') = Some (n, u') \<and> xu_status u' = unit_moves (xu_status u) st"
    "distinct (map fst (jd_units (tx_now t')))" unfolding t' by auto
qed (simp_all add: t' assms(1))

lemma attempt_ran:
  assumes "get_log i t = Some row" "job_unit i (tx_now t) = Some (n, u)" "xu_status u \<in> {''pending'', ''executing''}"
    and "distinct (map fst (jd_units (tx_now t)))" "h p = (ans, writes, commits)" "\<forall>k. je_emit e k" "je_started e"
    and "run = row\<lparr>jl_status := ''running'', jl_started_at := Some (je_now e), jl_attempt_count := jl_attempt_count row + 1\<rparr>"
  obtains t4 u3 where "run_handler h i p (start_attempt e i (jl_attempt_count row + 1) t) = (ans, t4)" "xu_status u3 = ''executing''"
    "dget (jd_logs (tx_now t4)) i = Some run" "distinct (map fst (jd_units (tx_now t4)))" "job_unit i (tx_now t4) = Some (n, u3)"
    "dget (jd_logs (tx_saved t4)) i = Some run" "distinct (map fst (jd_units (tx_saved t4)))" "job_unit i (tx_saved t4) = Some (n, u3)"
    "tx_runs t4 = tx_runs t @ [i]" "jd_work (tx_now t4) = jd_work (tx_now t) @ writes"
proof -
  let ?run = "row\<lparr>jl_status := ''running'', jl_started_at := Some (je_now e), jl_attempt_count := jl_attempt_count row + 1\<rparr>"
  let ?t3 = "start_attempt e i (jl_attempt_count row + 1) t"
  have row: "dget (jd_logs (tx_now t)) i = Some row" using assms(1) by (simp add: get_log_def)
  have t3: "tx_saved ?t3 = tx_now ?t3" "dget (jd_logs (tx_now ?t3)) i = Some ?run" "jd_work (tx_now ?t3) = jd_work (tx_now t)"
      "distinct (map fst (jd_units (tx_now ?t3)))"
    using assms(6,7) log_and_unit [OF row assms(4,2) refl, of "je_now e" "''executing''"] by (simp_all add: start_attempt_def Let_def)
  obtain u3 where u3: "job_unit i (tx_now ?t3) = Some (n, u3)" "xu_status u3 = ''executing''"
  proof -
    have "unit_moves (xu_status u) ''executing'' = ''executing''" using assms(3) by auto
    then show ?thesis using that assms(6,7) log_and_unit(4) [OF row assms(4,2) refl, of "je_now e" "''executing''"
        "\<lambda>r. r\<lparr>jl_status := ''running'', jl_started_at := Some (je_now e), jl_attempt_count := jl_attempt_count row + 1\<rparr>"]
      by (auto simp: start_attempt_def Let_def)
  qed
  obtain ans' t4 where t4: "run_handler h i p ?t3 = (ans', t4)" by (cases "run_handler h i p ?t3")
  note h4 = run_handler_simps [OF t4 assms(5)]
  have n4: "dget (jd_logs (tx_now t4)) i = Some ?run" "distinct (map fst (jd_units (tx_now t4)))" "job_unit i (tx_now t4) = Some (n, u3)"
    and s4: "dget (jd_logs (tx_saved t4)) i = Some ?run" "distinct (map fst (jd_units (tx_saved t4)))" "job_unit i (tx_saved t4) = Some (n, u3)"
    using h4(3,4,6) t3 u3(1) job_unit_cong [of "tx_now t4" "tx_now ?t3" i] by auto
  have r4: "tx_runs t4 = tx_runs t @ [i]" using h4(2) by simp
  show thesis by (rule that [of t4 u3]) (use t4 h4 n4 s4 r4 u3(2) t3(3) assms(8) in simp_all)
qed

text \<open>C33. One attempt of a job, with its events written: when the handler returns, the row is successful with the result
  and the attempt counted, the handler's own rows are committed, and the execution unit is completed; when it raises and
  attempts are left, the row is pending again with the error and a retry is due, and the unit stays executing; when none
  are left, row and unit are failed.\<close>
theorem job_attempt_outcome:
  assumes "tx_saved t = tx_now t" "get_log i t = Some row" "0 \<le> jl_attempt_count row"
    and "job_unit i (tx_now t) = Some (n, u)" "xu_status u \<in> {''pending'', ''executing''}" "distinct (map fst (jd_units (tx_now t)))"
    and "je_registry e task = Some h" "h p = (ans, writes, commits)" "\<forall>k. je_emit e k" "je_started e"
    and "execute_job_inline e i task p t = (how, t')"
  shows "\<exists>r v. dget (jd_logs (tx_saved t')) i = Some r \<and> job_unit i (tx_saved t') = Some (n, v) \<and> tx_runs t' = tx_runs t @ [i]
    \<and> jl_attempt_count r = jl_attempt_count row + 1
    \<and> (case ans of
         Inr x \<Rightarrow> how = Job_done \<and> jl_status r = ''success'' \<and> xu_status v = ''completed''
           \<and> jl_result r = normalize_result (if is_execution_envelope x then x else execution_success x i)
           \<and> jd_work (tx_saved t') = jd_work (tx_now t) @ writes
       | Inl x \<Rightarrow> jl_error_message r = Some (exc_text x) \<and>
           (if jl_attempt_count row + 1 < jl_max_attempts row
            then how = Job_retry (jl_user_id row) \<and> jl_status r = ''pending'' \<and> xu_status v = ''executing''
            else how = Job_done \<and> jl_status r = ''failed'' \<and> xu_status v = ''failed''))"
proof -
  let ?run = "row\<lparr>jl_status := ''running'', jl_started_at := Some (je_now e), jl_attempt_count := jl_attempt_count row + 1\<rparr>"
  obtain t4 u3 where t4: "run_handler h i p (start_attempt e i (jl_attempt_count row + 1) t) = (ans, t4)" and u3: "xu_status u3 = ''executing''"
    and n4: "dget (jd_logs (tx_now t4)) i = Some ?run" "distinct (map fst (jd_units (tx_now t4)))" "job_unit i (tx_now t4) = Some (n, u3)"
    and s4: "dget (jd_logs (tx_saved t4)) i = Some ?run" "distinct (map fst (jd_units (tx_saved t4)))" "job_unit i (tx_saved t4) = Some (n, u3)"
    and r4: "tx_runs t4 = tx_runs t @ [i]" and w4: "jd_work (tx_now t4) = jd_work (tx_now t) @ writes"
    by (rule attempt_ran [where h = h and p = p and run = ?run, OF assms(2,4-6,8-10) refl])
  show ?thesis
  proof (cases ans)
    case (Inr x)
    have t': "how = Job_done" "t' = finish_attempt e i x t4" using assms(2,7,11) t4 Inr by (simp_all add: execute_job_inline_def)
    let ?f = "\<lambda>r. r\<lparr>jl_status := ''success'', jl_result := normalize_result (if is_execution_envelope x then x else execution_success x i),
      jl_completed_at := Some (je_now e)\<rparr>"
    let ?t6 = "move_job_unit (je_now e) i ''completed'' (set_log i ?f t4)"
    note l = log_and_unit [OF n4 refl, of "je_now e" "''completed''" ?f]
    have same: "tx_saved t' = tx_now ?t6" "tx_runs t' = tx_runs ?t6"
      unfolding t'(2) finish_attempt_def Let_def using assms(9) by simp_all
    obtain v where "job_unit i (tx_now ?t6) = Some (n, v)" "xu_status v = ''completed''" using l(4) u3 by auto
    then show ?thesis using n4(1) same r4 w4 t'(1) Inr by simp
  next
    case (Inl x)
    have t': "(how, t') = fail_attempt e i (jl_attempt_count row + 1) False (exc_text x) t4"
      using assms(2,7,11) t4 Inl by (simp add: execute_job_inline_def)
    have rb: "dget (jd_logs (tx_now (rollback_txn t4))) i = Some ?run" "distinct (map fst (jd_units (tx_now (rollback_txn t4))))"
      "job_unit i (tx_now (rollback_txn t4)) = Some (n, u3)" using s4 by simp_all
    show ?thesis
    proof (cases "jl_attempt_count row + 1 < jl_max_attempts row")
      case True
      then show ?thesis using t' s4 Inl r4 u3 job_unit_cong [of "tx_saved t'" "tx_saved t4" i]
        by (simp add: fail_attempt_def get_log_def Let_def)
    next
      case False
      let ?f = "\<lambda>r. r\<lparr>jl_attempt_count := jl_attempt_count row + 1, jl_status := ''failed'', jl_error_message := Some (exc_text x),
        jl_result := normalize_result (execution_error (exc_text x) i), jl_completed_at := Some (je_now e)\<rparr>"
      let ?t6 = "move_job_unit (je_now e) i ''failed'' (set_log i ?f (rollback_txn t4))"
      note l = log_and_unit [OF rb refl, of "je_now e" "''failed''" ?f]
      have same: "how = Job_done" "tx_saved t' = tx_now ?t6" "tx_runs t' = tx_runs ?t6"
        using t' s4(1) False assms(9) by (simp_all add: fail_attempt_def get_log_def Let_def)
      obtain v where "job_unit i (tx_now ?t6) = Some (n, v)" "xu_status v = ''failed''" using l(4) u3 by auto
      then show ?thesis using s4(1) same r4 Inl False by simp
    qed
  qed
qed


definition sample_request :: job_request where
  "sample_request = \<lparr>jq_task_name = ''mail'', jq_payload = [], jq_user_id = PNone, jq_source = ''app'', jq_max_attempts = 2, jq_inline_in_test = True\<rparr>"

definition sample_jobs :: job_db where
  "sample_jobs = \<lparr>jd_logs = [(''j'', new_JobLog 0 sample_request)],
     jd_units = [(1, new_unit (unit_clock 0) 0 (job_unit_args ''j'' sample_request))], jd_work = []\<rparr>"

definition sample_txn :: txn where
  "sample_txn = \<lparr>tx_saved = sample_jobs, tx_now = sample_jobs, tx_runs = []\<rparr>"

definition sample_job_env :: "job_handler \<Rightarrow> job_env" where
  "sample_job_env h = \<lparr>je_registry = (\<lambda>task. if task = ''mail'' then Some h else None), je_now = 5, je_emit = (\<lambda>_. True),
     je_started = True, je_strict = True\<rparr>"

lemma sample_job_unit:
  "job_unit ''j'' sample_jobs = Some (1, new_unit (unit_clock 0) 0 (job_unit_args ''j'' sample_request))"
  by (simp add: job_unit_def get_by_source_def unit_clock_def begin_session_def view_def sample_jobs_def new_unit_def job_unit_args_def)

lemma sample_txn_facts:
  "tx_saved sample_txn = tx_now sample_txn" "get_log ''j'' sample_txn = Some (new_JobLog 0 sample_request)"
  "0 \<le> jl_attempt_count (new_JobLog 0 sample_request)"
  "job_unit ''j'' (tx_now sample_txn) = Some (1, new_unit (unit_clock 0) 0 (job_unit_args ''j'' sample_request))"
  "xu_status (new_unit (unit_clock 0) 0 (job_unit_args ''j'' sample_request)) \<in> {''pending'', ''executing''}"
  "distinct (map fst (jd_units (tx_now sample_txn)))"
  using sample_job_unit
  by (simp_all add: sample_txn_def get_log_def sample_jobs_def new_JobLog_def new_unit_def job_unit_args_def)

theorem job_attempt_outcome_witness:
  "\<exists>r v. dget (jd_logs (tx_saved (snd (execute_job_inline (sample_job_env (\<lambda>p. (Inl (ValueError ''x''), [''w''], False))) ''j'' ''mail'' [] sample_txn)))) ''j'' = Some r
    \<and> job_unit ''j'' (tx_saved (snd (execute_job_inline (sample_job_env (\<lambda>p. (Inl (ValueError ''x''), [''w''], False))) ''j'' ''mail'' [] sample_txn))) = Some (1, v)
    \<and> jl_status r = ''pending'' \<and> xu_status v = ''executing''"
proof -
  let ?e = "sample_job_env (\<lambda>p. (Inl (ValueError ''x''), [''w''], False))"
  have e: "je_registry ?e ''mail'' = Some (\<lambda>p. (Inl (ValueError ''x''), [''w''], False))" "\<forall>k. je_emit ?e k" "je_started ?e"
    by (simp_all add: sample_job_env_def)
  have m: "jl_max_attempts (new_JobLog 0 sample_request) = 2" "jl_attempt_count (new_JobLog 0 sample_request) = 0"
    by (simp_all add: new_JobLog_def sample_request_def)
  show ?thesis
    using job_attempt_outcome [OF sample_txn_facts e(1) refl e(2,3) prod.collapse [symmetric], of "[]"] unfolding m by auto
qed

lemma dispatch_job_frame:
  "jw_db (snd (dispatch_job_task d task ctx w)) = jw_db w" "jw_runs (snd (dispatch_job_task d task ctx w)) = jw_runs w"
  by (auto simp: dispatch_job_task_def split: prod.splits sum.splits dispatched.splits)

lemma schedule_retry_frame:
  "jw_db (snd (schedule_job_retry d task user w)) = jw_db w" "jw_runs (snd (schedule_job_retry d task user w)) = jw_runs w"
  by (auto simp: schedule_job_retry_def dispatch_job_frame split: sum.splits)

lemma close_txn_simps [simp]: "jw_db (close_txn t w) = tx_saved t" "jw_runs (close_txn t w) = tx_runs t"
    "jw_queue (close_txn t w) = jw_queue w" "jw_timers (close_txn t w) = jw_timers w" "jw_pool (close_txn t w) = jw_pool w"
  by (simp_all add: close_txn_def)

lemma open_txn_simps [simp]: "tx_saved (open_txn w) = jw_db w" "tx_now (open_txn w) = jw_db w" "tx_runs (open_txn w) = jw_runs w"
  by (simp_all add: open_txn_def)

lemma execute_job_frame:
  assumes "execute_job e d (i, task, p) w = (x, w')"
  shows "\<exists>how t'. execute_job_inline e i task p (open_txn w) = (how, t') \<and> jw_db w' = tx_saved t' \<and> jw_runs w' = tx_runs t'"
proof -
  obtain how t' where x: "execute_job_inline e i task p (open_txn w) = (how, t')" by (cases "execute_job_inline e i task p (open_txn w)")
  then have "w' = close_txn t' w \<or> (\<exists>user. w' = snd (schedule_job_retry d (i, task, p) user (close_txn t' w)))"
    using assms by (cases how) (auto simp: execute_job_def map_prod_def split_beta)
  then show ?thesis using x schedule_retry_frame [of d "(i, task, p)" _ "close_txn t' w"] by auto
qed

text \<open>An event that cannot be written takes the work of the job with it: the completion event of a job is written on the
  handler's own session and a failure to write it rolls that session back, so the rows of a handler that returned are
  lost, the row of the job stays running, and the execution reports a normal end.\<close>
theorem failed_event_discards_work:
  assumes "tx_saved t = tx_now t" "get_log i t = Some row" "je_registry e task = Some h" "h p = (Inr v, writes, False)"
    and "je_started e" "je_emit e 0" "\<not> je_emit e 1"
  shows "\<exists>t' r. execute_job_inline e i task p t = (Job_done, t') \<and> tx_runs t' = tx_runs t @ [i]
    \<and> jd_work (tx_saved t') = jd_work (tx_saved t)
    \<and> dget (jd_logs (tx_saved t')) i = Some r \<and> jl_status r = ''running''"
  using assms by (simp add: execute_job_inline_def run_handler_def start_attempt_def finish_attempt_def get_log_def Let_def)


theorem failed_event_discards_work_witness:
  "\<exists>t' r. execute_job_inline ((sample_job_env (\<lambda>p. (Inr PNone, [''w''], False)))\<lparr>je_emit := (\<lambda>k. k = 0)\<rparr>) ''j'' ''mail'' [] sample_txn = (Job_done, t')
    \<and> tx_runs t' = [''j''] \<and> jd_work (tx_saved t') = []
    \<and> dget (jd_logs (tx_saved t')) ''j'' = Some r \<and> jl_status r = ''running''"
  using failed_event_discards_work [OF sample_txn_facts(1,2), of
      "(sample_job_env (\<lambda>p. (Inr PNone, [''w''], False)))\<lparr>je_emit := (\<lambda>k. k = 0)\<rparr>" "''mail''" "\<lambda>p. (Inr PNone, [''w''], False)" "[]" PNone "[''w'']"]
  by (simp add: sample_job_env_def sample_txn_def sample_jobs_def)

lemma retry_delay_default:
  "ev ''AINDY_RETRY_BACKOFF_BASE_MS'' = None \<Longrightarrow> ev ''AINDY_RETRY_BACKOFF_MAX_MS'' = None \<Longrightarrow>
     \<exists>ms. compute_retry_delay ev n = Inr ms \<and> 1000 \<le> ms \<and> ms \<le> 30000"
  by (auto simp: compute_retry_delay_def env_int_def Let_def)

text \<open>A failed inline job is reported as successful: the inline fallback runs the first attempt, which raises and leaves the row
  pending with a retry due; the guard after it turns every row that is neither successful nor failed into a successful
  one, and the submission returns normally.\<close>
theorem failed_inline_job_reported_success:
  assumes "dget (jd_logs (jw_db w)) i = Some row" "jl_attempt_count row = 0" "2 \<le> jl_max_attempts row"
    and "je_registry e (jq_task_name q) = Some h" "h (jq_payload q) = (Inl x, writes, commits)"
    and "resolve_execution_mode (de_env d) (de_settings d) \<noteq> ''distributed''"
    and "de_env d ''AINDY_RETRY_BACKOFF_BASE_MS'' = None" "de_env d ''AINDY_RETRY_BACKOFF_MAX_MS'' = None"
  shows "\<exists>w' r ms. submit_inline e d i q w = (Inr i, w') \<and> jw_runs w' = jw_runs w @ [i]
    \<and> dget (jd_logs (jw_db w')) i = Some r \<and> jl_status r = ''success'' \<and> jl_error_message r = Some (exc_text x)
    \<and> jw_timers w' = jw_timers w @ [((i, jq_task_name q, jq_payload q), ms)]"
proof -
  let ?task = "(i, jq_task_name q, jq_payload q)"
  have g: "get_log i (open_txn w) = Some row" using assms(1) by (simp add: get_log_def)
  obtain t4 where t4: "run_handler h i (jq_payload q) (start_attempt e i 1 (open_txn w)) = (Inl x, t4)"
    using assms(5) by (simp add: run_handler_def Let_def)
  note logs = start_attempt_logs(2) [OF _ g, of _ e 1, simplified]
  have "jd_logs (tx_saved t4) \<in> {jd_logs (tx_now (start_attempt e i 1 (open_txn w))), jd_logs (tx_saved (start_attempt e i 1 (open_txn w)))}"
    by (rule run_handler_logs(3) [OF t4])
  then obtain srow where s: "dget (jd_logs (tx_saved t4)) i = Some srow" "jl_max_attempts srow = jl_max_attempts row" "jl_attempt_count srow \<in> {0, 1}"
    using logs [of "tx_now (start_attempt e i 1 (open_txn w))"] logs [of "tx_saved (start_attempt e i 1 (open_txn w))"] assms(2) by auto
  let ?f = "\<lambda>r. r\<lparr>jl_attempt_count := max (jl_attempt_count srow) 1, jl_status := ''pending'', jl_error_message := Some (exc_text x)\<rparr>"
  let ?t5 = "commit_txn (set_log i ?f (rollback_txn t4))"
  have inl: "execute_job_inline e i (jq_task_name q) (jq_payload q) (open_txn w) = (Job_retry (jl_user_id srow), ?t5)"
    using g t4 s assms(2,3,4) by (auto simp: execute_job_inline_def fail_attempt_def get_log_def Let_def)
  obtain ms where ms: "schedule_job_retry d ?task (jl_user_id srow) (close_txn ?t5 w) =
      (None, (close_txn ?t5 w)\<lparr>jw_timers := jw_timers w @ [(?task, ms)]\<rparr>)"
    using retry_delay_default [OF assms(7,8), of "row_attempts i (close_txn ?t5 w)"] assms(6)
    by (auto simp: schedule_job_retry_def)
  have runs: "tx_runs t4 = jw_runs w @ [i]" using run_handler_logs(1) [OF t4] by simp
  show ?thesis using inl ms s(1) runs
    by (simp add: submit_inline_def execute_job_def ensure_inline_terminal_def get_log_def Let_def)
qed


definition sample_world :: job_world where
  "sample_world = \<lparr>jw_db = sample_jobs, jw_runs = [], jw_queue = None, jw_pool = [], jw_timers = []\<rparr>"

definition sample_dispatch_env :: dispatch_env where
  "sample_dispatch_env = \<lparr>de_env = (\<lambda>_. None), de_settings = sample_queue_settings\<lparr>qc_is_prod := False\<rparr>,
     de_probe = \<lparr>qp_unready = None, qp_ready_again = True, qp_metrics_ok = True, qp_server = new_redis_queue 100\<rparr>,
     de_stamp = ''2026'', de_trace = \<lparr>te_syscall_trace = [], te_trace = ''t'', te_fresh = ''f'', te_eu = []\<rparr>,
     de_queue = fst sample_queue_env, de_attempts = None\<rparr>"

theorem failed_inline_job_reported_success_witness:
  "\<exists>w' r. submit_inline (sample_job_env (\<lambda>p. (Inl (ValueError ''x''), [], False))) sample_dispatch_env ''j'' sample_request sample_world = (Inr ''j'', w')
    \<and> jw_runs w' = [''j''] \<and> dget (jd_logs (jw_db w')) ''j'' = Some r \<and> jl_status r = ''success''"
  using failed_inline_job_reported_success [of sample_world "''j''" "new_JobLog 0 sample_request"
      "sample_job_env (\<lambda>p. (Inl (ValueError ''x''), [], False))" sample_request "\<lambda>p. (Inl (ValueError ''x''), [], False)" "ValueError ''x''" "[]" False
      sample_dispatch_env]
  by (auto simp: sample_world_def sample_jobs_def new_JobLog_def sample_request_def sample_job_env_def sample_dispatch_env_def
      resolve_execution_mode_def sample_queue_settings_def)


text \<open>A deferred job that is due can be stranded: its row is committed as pending before it is handed to the queue, so when the
  queue is full the call raises, no message names the job, and no later pass looks at it, because only deferred rows are
  picked up.\<close>
theorem full_queue_strands_deferred_job:
  assumes "jd_logs (jw_db w) = [(i, row)]" "i \<noteq> []" "jl_status row = ''deferred''" "jl_scheduled_for row = Some s" "s \<le> je_now e"
    and "judge i = Execute" "resolve_execution_mode (de_env d) (de_settings d) = ''distributed''"
    and "jw_queue w = Some (Memory_backend dg rs m)" "mq_max m \<le> mem_pending_depth m"
  shows "\<exists>x w'. process_deferred_jobs e d False judge True 25 w = (Inl x, w')
    \<and> jd_logs (jw_db w') = [(i, row\<lparr>jl_status := ''pending''\<rparr>)] \<and> jw_queue w' = jw_queue w \<and> jw_pool w' = jw_pool w
    \<and> process_deferred_jobs e' d' tm judge' fence n w' = (Inr 0, w')"
proof -
  let ?w1 = "close_txn (commit_txn (set_log i (\<lambda>r. r\<lparr>jl_status := ''pending''\<rparr>) (open_txn w))) w"
  have due: "due_deferred (je_now e) 25 (jw_db w) = [(i, row)]"
    using assms(1,3-5) by (simp add: due_deferred_def)
  have w1: "jd_logs (jw_db ?w1) = [(i, row\<lparr>jl_status := ''pending''\<rparr>)]"
    using assms(1) by (simp add: set_log_def get_log_def)
  have a: "decide_mode (de_env d) JOB_DISPATCH_STUB = ASYNC"
    by (simp add: decide_mode_def JOB_DISPATCH_STUB_def pget_def dget_or_def Let_def)
  have x: "dispatch_job_task d (i, jl_task_name row, jl_payload row) [(''log_id'', PStr i)] ?w1
      = (Some (Dispatch_queue (Saturated (mq_max m))), ?w1)"
    using assms(2,7-9) a
    by (simp add: dispatch_job_task_def dispatch_def enqueue_distributed_def build_job_payload_def read_resume_context_def
        RESUME_CONTEXT_KEY_def pget_def dget_or_def int_key_def get_queue_def deliver_def enqueue_on_def mem_enqueue_def Let_def)
  show ?thesis using due x assms(6) w1
    by (simp add: process_deferred_jobs_def due_deferred_def Let_def)
qed

theorem full_queue_strands_deferred_job_witness:
  "\<exists>x w'. process_deferred_jobs (sample_job_env (\<lambda>p. (Inr PNone, [], False)))
        (sample_dispatch_env\<lparr>de_env := (\<lambda>k. if k = ''EXECUTION_MODE'' then Some ''distributed'' else None)\<rparr>) False (\<lambda>_. Execute) True 25
        (sample_world\<lparr>jw_db := sample_jobs\<lparr>jd_logs := [(''j'', (new_JobLog 0 sample_request)\<lparr>jl_status := ''deferred'', jl_scheduled_for := Some 1\<rparr>)]\<rparr>,
           jw_queue := Some (Memory_backend True None (new_mem_queue 0))\<rparr>) = (Inl x, w')
    \<and> jd_logs (jw_db w') = [(''j'', (new_JobLog 0 sample_request)\<lparr>jl_scheduled_for := Some 1\<rparr>)]"
  using full_queue_strands_deferred_job [of "sample_world\<lparr>jw_db := sample_jobs\<lparr>jd_logs := [(''j'', (new_JobLog 0 sample_request)\<lparr>jl_status := ''deferred'', jl_scheduled_for := Some 1\<rparr>)]\<rparr>,
        jw_queue := Some (Memory_backend True None (new_mem_queue 0))\<rparr>" "''j''"
      "(new_JobLog 0 sample_request)\<lparr>jl_status := ''deferred'', jl_scheduled_for := Some 1\<rparr>" 1
      "sample_job_env (\<lambda>p. (Inr PNone, [], False))" "\<lambda>_. Execute"
      "sample_dispatch_env\<lparr>de_env := (\<lambda>k. if k = ''EXECUTION_MODE'' then Some ''distributed'' else None)\<rparr>" True None "new_mem_queue 0"
      "sample_job_env (\<lambda>p. (Inr PNone, [], False))" sample_dispatch_env False "\<lambda>_. Execute" True 25]
  by (auto simp: sample_job_env_def resolve_execution_mode_def py_strip_def py_strip_chars_def py_lstrip_chars_def py_rstrip_chars_def
      is_space_def code_def py_lower_def lower_char_def new_mem_queue_def mem_pending_depth_def new_JobLog_def)


lemma reclaim_orphans:
  assumes "distinct (map fst es)"
    and "\<forall>(k, r) \<in> set es. dget (jd_logs (jw_db w)) k = Some r \<and> jl_status r \<in> set ORPHAN_STATUSES"
  shows "\<exists>w'. fold reclaim_orphan es (ts, w) = (ts @ map (\<lambda>(k, r). (k, jl_task_name r, jl_payload r)) es, w')
    \<and> jw_runs w' = jw_runs w
    \<and> (\<forall>k. dget (jd_logs (jw_db w')) k =
         map_option (\<lambda>r. if k \<in> fst ` set es then r\<lparr>jl_status := ''pending'', jl_started_at := None\<rparr> else r) (dget (jd_logs (jw_db w)) k))"
  using assms
proof (induction es arbitrary: ts w)
  case Nil
  then show ?case by (simp add: option.map_ident)
next
  case (Cons x es)
  obtain i r where x: "x = (i, r)" by fastforce
  let ?f = "\<lambda>r. r\<lparr>jl_status := ''pending'', jl_started_at := None\<rparr>"
  let ?w1 = "close_txn (commit_txn (set_log i ?f (open_txn w))) w"
  have r: "dget (jd_logs (jw_db w)) i = Some r" "jl_status r \<in> set ORPHAN_STATUSES" "i \<notin> fst ` set es" using Cons.prems x by auto
  have "\<forall>(k, r) \<in> set es. dget (jd_logs (jw_db ?w1)) k = Some r \<and> jl_status r \<in> set ORPHAN_STATUSES"
    using Cons.prems(2) r(3) by (force simp del: map_of_eq_Some_iff)
  then obtain w' where w': "fold reclaim_orphan es (ts @ [(i, jl_task_name r, jl_payload r)], ?w1)
        = (ts @ [(i, jl_task_name r, jl_payload r)] @ map (\<lambda>(k, r). (k, jl_task_name r, jl_payload r)) es, w')"
      "jw_runs w' = jw_runs w"
      "\<forall>k. dget (jd_logs (jw_db w')) k = map_option (\<lambda>r. if k \<in> fst ` set es then ?f r else r) (dget (jd_logs (jw_db ?w1)) k)"
    using Cons.IH [of ?w1 "ts @ [(i, jl_task_name r, jl_payload r)]"] Cons.prems(1) by auto
  have "dget (jd_logs (jw_db w')) k
      = map_option (\<lambda>r. if k \<in> fst ` set (x # es) then ?f r else r) (dget (jd_logs (jw_db w)) k)" for k
    using w'(3) r x by (cases "k = i") auto
  moreover have "reclaim_orphan x (ts, w) = (ts @ [(i, jl_task_name r, jl_payload r)], ?w1)"
    using r x by (simp add: reclaim_orphan_def)
  ultimately show ?case using w'(1,2) x by simp
qed

lemma execute_job_runs:
  assumes "je_registry e task = Some h" "dget (jd_logs (jw_db w)) i = Some row"
  shows "jw_runs (snd (execute_job e d (i, task, p) w)) = jw_runs w @ [i]"
proof -
  obtain how t' where t': "execute_job_inline e i task p (open_txn w) = (how, t')" "jw_runs (snd (execute_job e d (i, task, p) w)) = tx_runs t'"
    using execute_job_frame [of e d i task p w] by (metis prod.collapse)
  obtain ans t1 where t1: "run_handler h i p (start_attempt e i (jl_attempt_count row + 1) (open_txn w)) = (ans, t1)" by fastforce
  have "tx_runs (snd (fail_attempt e i a fin err t)) = tx_runs t" for a fin err t
    by (auto simp: fail_attempt_def Let_def split: option.splits)
  moreover have "tx_runs (finish_attempt e i v t) = tx_runs t" for v t by (simp add: finish_attempt_def Let_def)
  moreover have "tx_runs t1 = jw_runs w @ [i]" using run_handler_logs(1) [OF t1] by simp
  ultimately have "tx_runs t' = jw_runs w @ [i]"
    using t'(1) t1 assms by (cases ans) (auto simp: execute_job_inline_def get_log_def prod_eq_iff)
  then show ?thesis using t'(2) by simp
qed

text \<open>At start-up in thread mode every job a crash left pending or running is reset to pending and handed to a thread exactly
  once, the other rows are untouched, and the thread runs the handler of its job. Nothing asks how many attempts the
  job has had: one whose attempts are used up, and that took the process down, is run again at every start.\<close>

theorem recovery_redispatches_orphans:
  assumes "resolve_execution_mode (de_env d) (de_settings d) = ''thread''" "distinct (dkeys (jd_logs (jw_db w)))"
    and "length (jd_logs (jw_db w)) \<le> MAX_RECOVER" "recover_orphaned_thread_jobs d w = (tasks, w')"
  shows "distinct (map fst tasks) \<and> jw_runs w' = jw_runs w \<and>
    (\<forall>i r. dget (jd_logs (jw_db w)) i = Some r \<longrightarrow>
       (if jl_status r \<in> {''pending'', ''running''}
        then (i, jl_task_name r, jl_payload r) \<in> set tasks
           \<and> dget (jd_logs (jw_db w')) i = Some (r\<lparr>jl_status := ''pending'', jl_started_at := None\<rparr>)
           \<and> (\<forall>e h d p. je_registry e (jl_task_name r) = Some h \<longrightarrow>
                jw_runs (snd (execute_job e d (i, jl_task_name r, p) w')) = jw_runs w @ [i])
        else i \<notin> set (map fst tasks) \<and> dget (jd_logs (jw_db w')) i = Some r))"
proof -
  let ?P = "\<lambda>(k :: string, r). jl_status r \<in> set ORPHAN_STATUSES"
  let ?es = "filter ?P (jd_logs (jw_db w))"
  have all: "take MAX_RECOVER ?es = ?es" using assms(3) le_trans [OF length_filter_le] by simp
  have es: "distinct (map fst ?es)" "\<forall>(k, r) \<in> set ?es. dget (jd_logs (jw_db w)) k = Some r \<and> jl_status r \<in> set ORPHAN_STATUSES"
    using assms(2) by (auto simp: distinct_map_filter)
  obtain w'' where w'': "fold reclaim_orphan ?es ([], w) = (map (\<lambda>(k, r). (k, jl_task_name r, jl_payload r)) ?es, w'')"
      "jw_runs w'' = jw_runs w"
      "\<And>k. dget (jd_logs (jw_db w'')) k =
         map_option (\<lambda>r. if k \<in> fst ` set ?es then r\<lparr>jl_status := ''pending'', jl_started_at := None\<rparr> else r) (dget (jd_logs (jw_db w)) k)"
    using reclaim_orphans [OF es, of "[]"] by auto
  have eq: "tasks = map (\<lambda>(k, r). (k, jl_task_name r, jl_payload r)) ?es" "w' = w''"
    using assms(1,4) w''(1) all by (simp_all add: recover_orphaned_thread_jobs_def)
  have keys: "map fst tasks = map fst ?es" unfolding eq(1) by (induction "jd_logs (jw_db w)") (auto split: prod.splits)
  show ?thesis
  proof (intro conjI allI impI)
    show "distinct (map fst tasks)" "jw_runs w' = jw_runs w" using keys es(1) eq(2) w''(2) by simp_all
    fix i r assume i: "dget (jd_logs (jw_db w)) i = Some r"
    have mem: "i \<in> fst ` set ?es \<longleftrightarrow> jl_status r \<in> set ORPHAN_STATUSES"
      using i es(2) map_of_SomeD [OF i] by force
    show "if jl_status r \<in> {''pending'', ''running''}
        then (i, jl_task_name r, jl_payload r) \<in> set tasks
           \<and> dget (jd_logs (jw_db w')) i = Some (r\<lparr>jl_status := ''pending'', jl_started_at := None\<rparr>)
           \<and> (\<forall>e h d p. je_registry e (jl_task_name r) = Some h \<longrightarrow>
                jw_runs (snd (execute_job e d (i, jl_task_name r, p) w')) = jw_runs w @ [i])
        else i \<notin> set (map fst tasks) \<and> dget (jd_logs (jw_db w')) i = Some r"
    proof (cases "jl_status r \<in> set ORPHAN_STATUSES")
      case True
      then have "dget (jd_logs (jw_db w')) i = Some (r\<lparr>jl_status := ''pending'', jl_started_at := None\<rparr>)"
        using mem i w''(3) [of i] eq(2) by simp
      moreover have "(i, jl_task_name r, jl_payload r) \<in> set tasks"
        using True map_of_SomeD [OF i] unfolding eq(1) by force
      ultimately show ?thesis using True execute_job_runs [of _ "jl_task_name r" _ w' i] eq(2) w''(2) by (auto simp: ORPHAN_STATUSES_def)
    next
      case False
      then have "i \<notin> set (map fst tasks)" "dget (jd_logs (jw_db w')) i = Some r"
        using mem i w''(3) [of i] eq(2) keys by simp_all
      then show ?thesis using False by (simp add: ORPHAN_STATUSES_def)
    qed
  qed
qed


theorem recovery_redispatches_orphans_witness:
  "set (fst (recover_orphaned_thread_jobs sample_dispatch_env (sample_world\<lparr>jw_db := sample_jobs\<lparr>jd_logs :=
      [(''j'', (new_JobLog 0 sample_request)\<lparr>jl_status := ''running'', jl_attempt_count := 2\<rparr>)]\<rparr>\<rparr>))) \<supseteq> {(''j'', ''mail'', [])}"
proof -
  let ?r = "(new_JobLog 0 sample_request)\<lparr>jl_status := ''running'', jl_attempt_count := 2\<rparr>"
  let ?w = "sample_world\<lparr>jw_db := sample_jobs\<lparr>jd_logs := [(''j'', ?r)]\<rparr>\<rparr>"
  have d: "resolve_execution_mode (de_env sample_dispatch_env) (de_settings sample_dispatch_env) = ''thread''"
    by (simp add: sample_dispatch_env_def resolve_execution_mode_def sample_queue_settings_def)
  have w: "distinct (dkeys (jd_logs (jw_db ?w)))" "length (jd_logs (jw_db ?w)) \<le> MAX_RECOVER" "dget (jd_logs (jw_db ?w)) ''j'' = Some ?r"
    by (simp_all add: MAX_RECOVER_def)
  have "jl_task_name ?r = ''mail''" "jl_payload ?r = []" "jl_status ?r = ''running''"
    by (simp_all add: new_JobLog_def sample_request_def)
  then show ?thesis using recovery_redispatches_orphans [OF d w(1,2) prod.collapse [symmetric]] w(3) by fastforce
qed

end
