(* ===== verification/Worker_Loop.thy ===== *)
theory Worker_Loop
  imports Async_Jobs
begin

text \<open>
  The worker (\<^verbatim>\<open>worker/worker_loop.py\<close>): it takes one message from the queue, claims the row of the job or
  rebuilds the resume the message names, executes it, and settles the message; it also recovers
  stale messages and drains the dead letters.
\<close>


section \<open>Health and the failure window\<close>

record WorkerRuntimeHealth =
  wh_state :: string
  wh_started_at :: time
  wh_last_heartbeat :: time
  wh_first_iteration :: bool
  wh_active_jobs :: int
  wh_queue_depth :: int
  wh_queue_capacity :: int

definition set_worker_state :: "string \<Rightarrow> WorkerRuntimeHealth \<Rightarrow> WorkerRuntimeHealth" where
  "set_worker_state st h = h\<lparr>wh_state := st\<rparr>"

definition queue_capacity :: "backend \<Rightarrow> int" where
  "queue_capacity b = (case b of Memory_backend d reason m \<Rightarrow> mq_max m | Redis_backend r \<Rightarrow> rq_max r)"

text \<open>\<open>b\<close> is the queue when its metrics can be read.\<close>

definition update_worker_queue_snapshot :: "backend option \<Rightarrow> WorkerRuntimeHealth \<Rightarrow> WorkerRuntimeHealth" where
  "update_worker_queue_snapshot b h =
     (case b of
        None \<Rightarrow> h
      | Some q \<Rightarrow> h\<lparr>wh_queue_depth := total_pending_jobs q, wh_queue_capacity := queue_capacity q\<rparr>)"

definition record_worker_heartbeat :: "time \<Rightarrow> bool \<Rightarrow> backend option \<Rightarrow> WorkerRuntimeHealth \<Rightarrow> WorkerRuntimeHealth" where
  "record_worker_heartbeat now iteration_completed b h =
     (let h1 = h\<lparr>wh_last_heartbeat := now\<rparr>;
          h2 = (if iteration_completed \<and> \<not> wh_first_iteration h1
                then h1\<lparr>wh_first_iteration := True, wh_state := (if wh_state h1 \<noteq> ''DRAINING'' then ''READY'' else wh_state h1)\<rparr>
                else h1)
      in update_worker_queue_snapshot b h2)"

definition increment_active_jobs :: "WorkerRuntimeHealth \<Rightarrow> WorkerRuntimeHealth" where
  "increment_active_jobs h = h\<lparr>wh_active_jobs := wh_active_jobs h + 1\<rparr>"

definition decrement_active_jobs :: "WorkerRuntimeHealth \<Rightarrow> WorkerRuntimeHealth" where
  "decrement_active_jobs h = h\<lparr>wh_active_jobs := max 0 (wh_active_jobs h - 1)\<rparr>"

definition FAILURE_WINDOW_SECONDS :: int where
  "FAILURE_WINDOW_SECONDS = 300"

definition prune_failure_window :: "time \<Rightarrow> time list \<Rightarrow> time list" where
  "prune_failure_window now ws = dropWhile (\<lambda>t. t < now - FAILURE_WINDOW_SECONDS * secs) ws"

text \<open>The window afterwards and whether the alert is raised; \<open>threshold\<close> is \<^verbatim>\<open>DLQ_ALERT_THRESHOLD\<close>.\<close>

definition record_job_failure_alert :: "time \<Rightarrow> int \<Rightarrow> time list \<Rightarrow> bool \<times> time list" where
  "record_job_failure_alert now threshold ws =
     (let ws' = prune_failure_window now (ws @ [now]) in (threshold \<le> int (length ws'), ws'))"


section \<open>The queue as the worker uses it\<close>

definition dequeue_on :: "queue_env \<Rightarrow> backend \<Rightarrow> (queue_error + QueueJobPayload option) \<times> backend" where
  "dequeue_on qe b =
     (case b of
        Memory_backend d reason m \<Rightarrow> map_prod Inr (Memory_backend d reason) (mem_dequeue (qe_now qe) m)
      | Redis_backend r \<Rightarrow> map_prod id Redis_backend (redis_dequeue qe r))"

definition ack_on :: "queue_env \<Rightarrow> string \<Rightarrow> backend \<Rightarrow> bool \<times> backend" where
  "ack_on qe jid b =
     (case b of
        Memory_backend d reason m \<Rightarrow> (True, Memory_backend d reason (mem_ack jid m))
      | Redis_backend r \<Rightarrow> map_prod id Redis_backend (redis_ack qe jid r))"

definition fail_on :: "queue_env \<Rightarrow> string \<Rightarrow> string \<Rightarrow> backend \<Rightarrow> bool \<times> backend" where
  "fail_on qe jid err b =
     (case b of
        Memory_backend d reason m \<Rightarrow> (True, Memory_backend d reason (mem_fail (qe_now qe) jid err m))
      | Redis_backend r \<Rightarrow> map_prod id Redis_backend (redis_fail qe jid err r))"

definition requeue_stale_on :: "queue_env \<Rightarrow> int \<Rightarrow> backend \<Rightarrow> backend" where
  "requeue_stale_on qe timeout_seconds b =
     (case b of
        Memory_backend d reason m \<Rightarrow> Memory_backend d reason (mem_requeue_stale_jobs (qe_now qe) timeout_seconds m)
      | Redis_backend r \<Rightarrow> Redis_backend (snd (redis_requeue_stale_jobs qe timeout_seconds r)))"


section \<open>One job\<close>

text \<open>\<^verbatim>\<open>UPDATE ... SET status = 'running' WHERE id = :id AND status = 'pending'\<close>; a failing statement claims nothing.\<close>

definition try_claim_job :: "bool \<Rightarrow> time \<Rightarrow> string \<Rightarrow> job_db \<Rightarrow> bool \<times> job_db" where
  "try_claim_job db_ok now log_id db =
     (case dget (jd_logs db) log_id of
        Some r \<Rightarrow>
          if db_ok \<and> jl_status r = ''pending''
          then (True, db\<lparr>jd_logs := dset log_id (r\<lparr>jl_status := ''running'', jl_started_at := Some now\<rparr>) (jd_logs db)\<rparr>)
          else (False, db)
      | None \<Rightarrow> (False, db))"

definition fetch_job_data :: "string \<Rightarrow> job_db \<Rightarrow> (string \<times> payload) option" where
  "fetch_job_data log_id db = map_option (\<lambda>r. (jl_task_name r, jl_payload r)) (dget (jd_logs db) log_id)"

text \<open>
  The surroundings of one iteration. \<open>wn_slot\<close> is the outcome of the concurrency guard; \<open>wn_builders\<close> are
  the builders of resumes for the reconstructible types: nothing when the run cannot be rebuilt,
  otherwise what the rebuilt callback raises, if anything. \<open>wn_queue\<close> gives the surroundings of the \<open>i\<close>-th
  queue operation.
\<close>

datatype slot = Unlimited | Acquired | Stopped_waiting | Bad_limit

record worker_env =
  wn_queue :: "nat \<Rightarrow> queue_env"
  wn_slot :: slot
  wn_db_ok :: bool
  wn_builders :: "(string \<Rightarrow> py_exc option option) dict"
  wn_threshold :: int

record worker =
  wl_world :: job_world
  wl_health :: WorkerRuntimeHealth
  wl_failures :: "time list"

definition require_resume_callback :: "worker_env \<Rightarrow> string \<times> string \<Rightarrow> py_exc option option" where
  "require_resume_callback n r =
     (case dget (wn_builders n) (py_lower (snd r)) of None \<Rightarrow> None | Some builder \<Rightarrow> builder (fst r))"

text \<open>How an iteration leaves a message: acknowledged, failed with an error, or an exception on the way to it.\<close>

datatype settled = Acked | Dead string

text \<open>
  The body of the \<^verbatim>\<open>try\<close>: what is to happen with the message and whether the error reaches the handler
  of exceptions. A resume that cannot be rebuilt is failed in place.
\<close>

definition run_resume :: "worker_env \<Rightarrow> string \<times> string \<Rightarrow> settled \<times> bool" where
  "run_resume n r =
     (case require_resume_callback n r of
        None \<Rightarrow> (Dead ''cannot rebuild a resume'', False)
      | Some None \<Rightarrow> (Acked, False)
      | Some (Some x) \<Rightarrow> (Dead (exc_text x), True))"

definition run_job :: "worker_env \<Rightarrow> job_env \<Rightarrow> dispatch_env \<Rightarrow> string \<Rightarrow> job_world \<Rightarrow> (settled \<times> bool) \<times> job_world" where
  "run_job n e d jid w =
     (case try_claim_job (wn_db_ok n) (je_now e) jid (jw_db w) of
        (False, db) \<Rightarrow> ((Acked, False), w)
      | (True, db) \<Rightarrow>
          let w1 = w\<lparr>jw_db := db\<rparr>
          in (case fetch_job_data jid (jw_db w1) of
                None \<Rightarrow> ((Acked, False), w1)
              | Some (task, p) \<Rightarrow>
                  (case execute_job e d (jid, task, p) w1 of
                     (None, w2) \<Rightarrow> ((Acked, False), w2)
                   | (Some x, w2) \<Rightarrow> ((Dead (error_text x), True), w2))))"

text \<open>
  Settling: an acknowledgement that raises goes to the handler of exceptions, which fails the message and
  counts the failure; \<open>None\<close> when that raises too.
\<close>

definition fail_message :: "worker_env \<Rightarrow> time \<Rightarrow> nat \<Rightarrow> string \<Rightarrow> string \<Rightarrow> bool \<Rightarrow> backend \<times> time list \<Rightarrow> (backend \<times> time list) \<times> bool" where
  "fail_message n now i jid err counted st =
     (case fail_on (wn_queue n i) jid err (fst st) of
        (True, b) \<Rightarrow> ((b, if counted then snd (record_job_failure_alert now (wn_threshold n) (snd st)) else snd st), True)
      | (False, b) \<Rightarrow> ((b, snd st), False))"

definition settle :: "worker_env \<Rightarrow> time \<Rightarrow> string \<Rightarrow> settled \<times> bool \<Rightarrow> backend \<times> time list \<Rightarrow> (backend \<times> time list) \<times> bool" where
  "settle n now jid how st =
     (case how of
        (Acked, _) \<Rightarrow>
          (case ack_on (wn_queue n 1) jid (fst st) of
             (True, b) \<Rightarrow> ((b, snd st), True)
           | (False, b) \<Rightarrow> fail_message n now 2 jid ''ack failed'' True (b, snd st))
      | (Dead err, True) \<Rightarrow> fail_message n now 1 jid err True st
      | (Dead err, False) \<Rightarrow>
          (case fail_message n now 1 jid err False st of
             (st', True) \<Rightarrow> (st', True)
           | (st', False) \<Rightarrow> fail_message n now 2 jid err True st'))"

datatype iteration = Idle | Put_back | Processed string | Loop_error

definition process_one_job :: "worker_env \<Rightarrow> job_env \<Rightarrow> dispatch_env \<Rightarrow> worker \<Rightarrow> iteration \<times> worker" where
  "process_one_job n e d k =
     (case jw_queue (wl_world k) of
        None \<Rightarrow> (Loop_error, k)
      | Some b0 \<Rightarrow>
          (case dequeue_on (wn_queue n 0) b0 of
             (Inl x, b1) \<Rightarrow> (Loop_error, k\<lparr>wl_world := (wl_world k)\<lparr>jw_queue := Some b1\<rparr>\<rparr>)
           | (Inr None, b1) \<Rightarrow>
               (Idle, k\<lparr>wl_world := (wl_world k)\<lparr>jw_queue := Some b1\<rparr>,
                  wl_health := record_worker_heartbeat (je_now e) True (Some b1) (wl_health k)\<rparr>)
           | (Inr (Some job), b1) \<Rightarrow>
               let k1 = k\<lparr>wl_world := (wl_world k)\<lparr>jw_queue := Some b1\<rparr>,
                     wl_health := record_worker_heartbeat (je_now e) True (Some b1) (wl_health k)\<rparr>
               in if wn_slot n = Bad_limit then (Loop_error, k1)
                  else if wn_slot n = Stopped_waiting
                  then (case enqueue_on (wn_queue n 1) job b1 of
                          (None, b2) \<Rightarrow> (Put_back, k1\<lparr>wl_world := (wl_world k1)\<lparr>jw_queue := Some b2\<rparr>\<rparr>)
                        | (Some x, b2) \<Rightarrow> (Loop_error, k1\<lparr>wl_world := (wl_world k1)\<lparr>jw_queue := Some b2\<rparr>\<rparr>))
                  else
                    let h1 = increment_active_jobs (wl_health k1);
                        (how, w2) = (case read_resume_context (job_context job) of
                            Some r \<Rightarrow> (run_resume n r, wl_world k1)
                          | None \<Rightarrow> run_job n e d (job_id job) (wl_world k1));
                        b2 = the (jw_queue w2);
                        ((b3, fs), ok) = settle n (je_now e) (job_id job) how (b2, wl_failures k1);
                        h2 = update_worker_queue_snapshot (Some b3) (decrement_active_jobs h1)
                    in (if ok then Processed (job_id job) else Loop_error,
                        k1\<lparr>wl_world := w2\<lparr>jw_queue := Some b3\<rparr>, wl_health := h2, wl_failures := fs\<rparr>)))"


section \<open>Recovery and dead letters\<close>

text \<open>One pass of \<^verbatim>\<open>_run_stale_recovery\<close>; \<^verbatim>\<open>WORKER_VISIBILITY_TIMEOUT_SECS\<close> is 300 by default.\<close>

definition stale_recovery :: "queue_env \<Rightarrow> int \<Rightarrow> worker \<Rightarrow> worker" where
  "stale_recovery qe visibility_timeout k =
     k\<lparr>wl_world := (wl_world k)\<lparr>jw_queue := map_option (requeue_stale_on qe visibility_timeout) (jw_queue (wl_world k))\<rparr>\<rparr>"

definition dead_letters_of :: "backend \<Rightarrow> dead_letter list" where
  "dead_letters_of b = (case b of Memory_backend d reason m \<Rightarrow> mq_dlq m | Redis_backend r \<Rightarrow> rq_dead r)"

definition trim_dead_letters :: "nat \<Rightarrow> backend \<Rightarrow> backend" where
  "trim_dead_letters n b =
     (case b of
        Memory_backend d reason m \<Rightarrow> Memory_backend d reason (m\<lparr>mq_dlq := drop n (mq_dlq m)\<rparr>)
      | Redis_backend r \<Rightarrow> Redis_backend (record_success (r\<lparr>rq_dead := drop n (rq_dead r)\<rparr>)))"

fun requeue_letters :: "queue_env \<Rightarrow> dead_letter list \<Rightarrow> nat \<times> string list \<times> backend \<Rightarrow> nat \<times> string list \<times> backend" where
  "requeue_letters qe [] st = st"
| "requeue_letters qe (dl # rest) (n, errs, b) =
     (case dl_payload dl of
        None \<Rightarrow> requeue_letters qe rest (n, errs @ [dl_job_id dl], b)
      | Some job \<Rightarrow>
          (case enqueue_on qe job b of
             (None, b') \<Rightarrow> requeue_letters qe rest (n + 1, errs, b')
           | (Some x, b') \<Rightarrow> requeue_letters qe rest (n, errs @ [dl_job_id dl], b')))"

text \<open>How many letters were inspected and requeued, and the jobs that were not; the trim of the list succeeds.\<close>

definition drain_dead_letters :: "queue_env \<Rightarrow> int \<Rightarrow> bool \<Rightarrow> backend \<Rightarrow> (nat \<times> nat \<times> string list) \<times> backend" where
  "drain_dead_letters qe max_items requeue b =
     (let limit = nat (max 0 (min max_items 100))
      in if limit = 0 then ((0, 0, []), b)
         else
           let letters = take limit (dead_letters_of b)
           in if \<not> requeue then ((length letters, 0, []), b)
              else (case requeue_letters qe letters (0, [], trim_dead_letters limit b) of
                      (n, errs, b') \<Rightarrow> ((length letters, n, errs), b')))"



section \<open>How often a handler runs\<close>

definition row_ok :: "JobLog \<Rightarrow> nat \<Rightarrow> bool" where
  "row_ok r runs \<longleftrightarrow> int runs \<le> max 1 (jl_max_attempts r) \<and>
     (jl_status r \<in> {''pending'', ''deferred''} \<longrightarrow>
        int runs \<le> jl_attempt_count r \<and> (jl_attempt_count r = 0 \<or> jl_attempt_count r < jl_max_attempts r))"

definition jobs_ok :: "job_world \<Rightarrow> bool" where
  "jobs_ok w \<longleftrightarrow> (\<forall>i r. dget (jd_logs (jw_db w)) i = Some r \<longrightarrow> row_ok r (count_list (jw_runs w) i))"

lemma jobs_okD: "jobs_ok w \<Longrightarrow> dget (jd_logs (jw_db w)) i = Some r \<Longrightarrow> row_ok r (count_list (jw_runs w) i)"
  by (simp add: jobs_ok_def)

lemma jobs_ok_cong:
  "jd_logs (jw_db w') = jd_logs (jw_db w) \<Longrightarrow> jw_runs w' = jw_runs w \<Longrightarrow> jobs_ok w \<Longrightarrow> jobs_ok w'"
  by (simp add: jobs_ok_def)

lemma jobs_ok_row:
  assumes "jobs_ok w" "jw_runs w' = jw_runs w" "\<And>k. k \<noteq> i \<Longrightarrow> dget (jd_logs (jw_db w')) k = dget (jd_logs (jw_db w)) k"
    and "\<And>r. dget (jd_logs (jw_db w')) i = Some r \<Longrightarrow> row_ok r (count_list (jw_runs w) i)"
  shows "jobs_ok w'"
  unfolding jobs_ok_def
proof (intro allI impI)
  fix k r assume "dget (jd_logs (jw_db w')) k = Some r"
  then show "row_ok r (count_list (jw_runs w') k)" using assms by (cases "k = i") (simp_all add: jobs_ok_def)
qed

lemma claim_ok:
  assumes "jobs_ok w" "try_claim_job ok now i (jw_db w) = (c, db)"
  shows "jobs_ok (w\<lparr>jw_db := db\<rparr>)"
    and "c \<Longrightarrow> \<exists>r. dget (jd_logs db) i = Some r \<and> jl_status r = ''running''
      \<and> int (count_list (jw_runs w) i) \<le> jl_attempt_count r
      \<and> (jl_attempt_count r = 0 \<or> jl_attempt_count r < jl_max_attempts r)"
proof -
  show "jobs_ok (w\<lparr>jw_db := db\<rparr>)"
    using assms(2) jobs_okD [OF assms(1), of i]
    by (intro jobs_ok_row [OF assms(1), of _ i]) (auto simp: try_claim_job_def row_ok_def split: option.splits if_splits)
  show "c \<Longrightarrow> \<exists>r. dget (jd_logs db) i = Some r \<and> jl_status r = ''running''
      \<and> int (count_list (jw_runs w) i) \<le> jl_attempt_count r
      \<and> (jl_attempt_count r = 0 \<or> jl_attempt_count r < jl_max_attempts r)"
    using assms(2) jobs_okD [OF assms(1), of i] by (auto simp: try_claim_job_def row_ok_def split: option.splits if_splits)
qed

lemma run_job_ok:
  assumes "jobs_ok w" "run_job n e d i w = (how, w')"
  shows "jobs_ok w'"
proof -
  obtain c db where c: "try_claim_job (wn_db_ok n) (je_now e) i (jw_db w) = (c, db)" by fastforce
  note ok = claim_ok [OF assms(1) c]
  show ?thesis
  proof (cases c)
    case False
    then show ?thesis using assms c by (simp add: run_job_def)
  next
    case True
    let ?w1 = "w\<lparr>jw_db := db\<rparr>"
    obtain r where r: "dget (jd_logs db) i = Some r" "jl_status r = ''running''"
        "int (count_list (jw_runs w) i) \<le> jl_attempt_count r" "jl_attempt_count r = 0 \<or> jl_attempt_count r < jl_max_attempts r"
      using ok(2) True by blast
    obtain x where x: "execute_job e d (i, jl_task_name r, jl_payload r) ?w1 = (x, w')"
      using assms(2) c True r(1) by (auto simp: run_job_def fetch_job_data_def Let_def split: prod.splits option.splits)
    obtain how t' where t': "execute_job_inline e i (jl_task_name r) (jl_payload r) (open_txn ?w1) = (how, t')"
        "jw_db w' = tx_saved t'" "jw_runs w' = tx_runs t'"
      using execute_job_frame [OF x] by blast
    have "tx_saved (open_txn ?w1) = tx_now (open_txn ?w1)" "get_log i (open_txn ?w1) = Some r" "jl_status r \<notin> {''pending'', ''deferred''}"
      using r(1,2) by (simp_all add: get_log_def)
    note weak = execute_inline_weak [OF this t'(1), folded t'(2,3), simplified]
    show ?thesis unfolding jobs_ok_def
    proof (intro allI impI)
      fix k r' assume r': "dget (jd_logs (jw_db w')) k = Some r'"
      show "row_ok r' (count_list (jw_runs w') k)"
      proof (cases "k = i")
        case False
        then have "dget (jd_logs db) k = Some r'" "count_list (jw_runs w') k = count_list (jw_runs w) k" using weak r' by auto
        then show ?thesis using jobs_okD [OF ok(1), of k] by simp
      next
        case True
        have "count_list (jw_runs w') i \<le> count_list (jw_runs w) i + 1" using weak by auto
        then show ?thesis using True weak r' r(3,4) by (auto simp: row_ok_def)
      qed
    qed
  qed
qed


text \<open>
  What can happen to the rows while workers run: an iteration of some worker on some message; a worker that dies after its
  claim or after its handler, before the message is settled; any change of the queue (redelivery, loss, duplicates,
  dead letters sent back); the clean-up of stale rows; one row of the deferred pass; and a submission that does
  not run inline, under a fresh id.
\<close>

inductive worker_step :: "worker \<Rightarrow> worker \<Rightarrow> bool" where
  Iteration: "process_one_job n e d k = (r, k') \<Longrightarrow> worker_step k k'"
| Died_claimed: "try_claim_job ok now i (jw_db (wl_world k)) = (c, db) \<Longrightarrow>
    worker_step k (k\<lparr>wl_world := (wl_world k)\<lparr>jw_db := db\<rparr>\<rparr>)"
| Died_executed: "run_job n e d i (wl_world k) = (how, w) \<Longrightarrow> worker_step k (k\<lparr>wl_world := w\<rparr>)"
| Queue_moved: "worker_step k (k\<lparr>wl_world := (wl_world k)\<lparr>jw_queue := q\<rparr>\<rparr>)"
| Cleaned_up: "worker_step k (k\<lparr>wl_world := cleanup_stale_logs now (wl_world k)\<rparr>)"
| Deferred_row: "dget (jd_logs (jw_db (wl_world k))) i = Some row \<Longrightarrow> jl_status row = ''deferred'' \<Longrightarrow>
    process_deferred_rows e d False judge fence [(i, row)] (m, wl_world k) = (x, w) \<Longrightarrow> worker_step k (k\<lparr>wl_world := w\<rparr>)"
| Submitted: "\<not> inline_enabled d n q \<Longrightarrow> sn_log_id n \<notin> set (jw_runs (wl_world k)) \<Longrightarrow>
    dget (jd_logs (jw_db (wl_world k))) (sn_log_id n) = None \<Longrightarrow>
    submit_async_job e d n q (wl_world k) = (x, w) \<Longrightarrow> worker_step k (k\<lparr>wl_world := w\<rparr>)"

lemma process_one_job_db:
  assumes "process_one_job n e d k = (r, k')" "jobs_ok (wl_world k)"
  shows "jobs_ok (wl_world k')"
proof -
  have queue: "jobs_ok ((wl_world k)\<lparr>jw_queue := b\<rparr>)" for b
    by (rule jobs_ok_cong [OF _ _ assms(2)]) simp_all
  have run: "jobs_ok ((snd (run_job n e d i ((wl_world k)\<lparr>jw_queue := b\<rparr>)))\<lparr>jw_queue := b'\<rparr>)" for i b b'
    by (rule jobs_ok_cong [OF _ _ run_job_ok [OF queue prod.collapse [symmetric]]]) simp_all
  show ?thesis using assms queue run
    by (auto simp: process_one_job_def Let_def split_beta split: option.splits sum.splits prod.splits if_splits)
qed

lemma fail_stale_rows:
  "tx_saved (fold (fail_stale_log now) es t) = tx_saved t \<and> tx_runs (fold (fail_stale_log now) es t) = tx_runs t \<and>
   (\<forall>i r. dget (jd_logs (tx_now (fold (fail_stale_log now) es t))) i = Some r \<longrightarrow>
     (\<exists>r0. dget (jd_logs (tx_now t)) i = Some r0 \<and> jl_max_attempts r = jl_max_attempts r0 \<and> (r = r0 \<or> jl_status r = ''failed'')))"
proof (induction es arbitrary: t)
  case (Cons x es)
  have unit: "jd_logs (tx_now (finalize_job_unit now i s t)) = jd_logs (tx_now t) \<and> tx_saved (finalize_job_unit now i s t) = tx_saved t
      \<and> tx_runs (finalize_job_unit now i s t) = tx_runs t" for i s t
    by (simp add: finalize_job_unit_def split: prod.splits option.splits)
  have one: "\<exists>r0. dget (jd_logs (tx_now t)) i = Some r0 \<and> jl_max_attempts r = jl_max_attempts r0 \<and> (r = r0 \<or> jl_status r = ''failed'')"
    if "dget (jd_logs (tx_now (fail_stale_log now x t))) i = Some r" for i r
    using that by (auto simp: fail_stale_log_def unit split: if_splits)
  have frame: "tx_saved (fail_stale_log now x t) = tx_saved t" "tx_runs (fail_stale_log now x t) = tx_runs t"
    by (simp_all add: fail_stale_log_def unit)
  show ?case using Cons.IH [of "fail_stale_log now x t"] one frame by (auto, metis)
qed simp

lemma cleanup_ok: "jobs_ok w \<Longrightarrow> jobs_ok (cleanup_stale_logs now w)"
  using fail_stale_rows [of now "filter (stale_row now) (jd_logs (jw_db w))" "open_txn w"]
  by (auto simp: jobs_ok_def cleanup_stale_logs_def row_ok_def) (fastforce)+


lemma set_log_ok:
  assumes "jobs_ok w" "\<And>r. dget (jd_logs (jw_db w)) i = Some r \<Longrightarrow> row_ok (f r) (count_list (jw_runs w) i)"
  shows "jobs_ok (close_txn (commit_txn (set_log i f (open_txn w))) w)"
  using assms(2) by (intro jobs_ok_row [OF assms(1), of _ i]) auto

lemma row_failed: "row_ok r n \<Longrightarrow> row_ok (r\<lparr>jl_status := ''failed'', jl_error_message := m, jl_completed_at := c\<rparr>) n"
  by (simp add: row_ok_def)

lemma deferred_row_ok:
  assumes "jobs_ok w" "dget (jd_logs (jw_db w)) i = Some row" "jl_status row = ''deferred''"
    and "process_deferred_rows e d False judge fence [(i, row)] (m, w) = (x, w')"
  shows "jobs_ok w'"
proof -
  have row: "row_ok row (count_list (jw_runs w) i)" by (rule jobs_okD [OF assms(1,2)])
  have set: "jobs_ok (close_txn (commit_txn (set_log i f (open_txn w))) w)" if "row_ok (f row) (count_list (jw_runs w) i)" for f
    using that assms(2) by (intro set_log_ok [OF assms(1)]) simp
  have pending: "jobs_ok (close_txn (commit_txn (set_log i (\<lambda>r. r\<lparr>jl_status := ''pending''\<rparr>) (open_txn w))) w)"
    using row assms(3) by (intro set) (simp add: row_ok_def)
  have dispatched: "jobs_ok (snd (dispatch_job_task d task ctx
      (close_txn (commit_txn (set_log i (\<lambda>r. r\<lparr>jl_status := ''pending''\<rparr>) (open_txn w))) w)))" for task ctx
    by (rule jobs_ok_cong [OF _ _ pending]) (simp_all add: dispatch_job_frame)
  show ?thesis
  proof (cases "judge i")
    case Ignore
    then show ?thesis using assms(4) row by (auto intro!: set simp: row_ok_def)
  next
    case (Defer s)
    then show ?thesis using assms(3,4) row by (auto intro!: set simp: row_ok_def)
  next
    case Execute
    then show ?thesis using assms(1,4) dispatched [of "(i, jl_task_name row, jl_payload row)" "[(''log_id'', PStr i)]"]
      by (auto simp: Let_def split: if_splits prod.splits option.splits)
  qed
qed

lemma give_up_ok:
  assumes "jobs_ok w"
  shows "jobs_ok (snd (give_up e i err w))"
  using row_failed [OF jobs_okD [OF assms, of i]]
  by (intro jobs_ok_row [OF assms, of _ i]) (auto simp: give_up_def submission_failed_def dest: jobs_okD [OF assms] split: if_splits)

lemma recorded_ok:
  assumes "jobs_ok w" "sn_log_id n \<notin> set (jw_runs w)" "jl_attempt_count row = 0"
  shows "jobs_ok (close_txn (record_job now n row q (open_txn w)) w)"
  using assms(2,3) by (intro jobs_ok_row [OF assms(1), of _ "sn_log_id n"]) (auto simp: record_job_def Let_def row_ok_def count_list_0_iff)

lemma backpressure_frame:
  "jw_db (snd (enforce_distributed_queue_backpressure d w)) = jw_db w" "jw_runs (snd (enforce_distributed_queue_backpressure d w)) = jw_runs w"
  by (auto simp: enforce_distributed_queue_backpressure_def split: prod.splits sum.splits)

lemma submitted_ok:
  assumes "jobs_ok w" "\<not> inline_enabled d n q" "sn_log_id n \<notin> set (jw_runs w)"
    and "submit_async_job e d n q w = (x, w')"
  shows "jobs_ok w'"
proof -
  let ?w1 = "snd (enforce_distributed_queue_backpressure d w)"
  let ?w2 = "close_txn (record_job (je_now e) n (new_JobLog (je_now e) q) q (open_txn ?w1)) ?w1"
  have w1: "jobs_ok ?w1" by (rule jobs_ok_cong [OF _ _ assms(1)]) (simp_all add: backpressure_frame)
  have w2: "jobs_ok ?w2" by (rule recorded_ok [OF w1]) (simp_all add: assms(3) backpressure_frame new_JobLog_def)
  have full: "jobs_ok (close_txn (commit_txn (set_log (sn_log_id n) (\<lambda>r. r\<lparr>jl_status := ''failed'',
        jl_error_message := m, jl_completed_at := c\<rparr>) (open_txn ?w2))) ?w2)" for m c
    by (intro set_log_ok [OF w2] row_failed jobs_okD [OF w2])
  have sent: "jobs_ok (snd (dispatch_job_task d task ctx ?w2))" for task ctx
    by (rule jobs_ok_cong [OF _ _ w2]) (simp_all add: dispatch_job_frame)
  have pool: "jobs_ok (?w2\<lparr>jw_pool := p\<rparr>)" for p
    by (rule jobs_ok_cong [OF _ _ w2]) simp_all
  have "jobs_ok (snd (submit_async_job e d n q w))"
    using assms(1,2) w1 sent pool give_up_ok [OF full] give_up_ok [OF sent] unfolding submit_async_job_def
    by (auto simp: Let_def split_beta split: option.splits if_splits)
  then show ?thesis using assms(4) by simp
qed


lemma worker_step_ok: "worker_step k k' \<Longrightarrow> jobs_ok (wl_world k) \<Longrightarrow> jobs_ok (wl_world k')"
proof (induction rule: worker_step.induct)
  case (Iteration n e d k r k')
  then show ?case by (rule process_one_job_db)
next
  case (Died_claimed ok now i k c db)
  then show ?case using claim_ok(1) by fastforce
next
  case (Died_executed n e d i k how w)
  then show ?case using run_job_ok by simp
next
  case (Queue_moved k q)
  then show ?case by (simp add: jobs_ok_def)
next
  case (Cleaned_up k now)
  then show ?case using cleanup_ok by simp
next
  case (Deferred_row k i row e d judge fence m x w)
  then show ?case using deferred_row_ok by simp
next
  case (Submitted d n q k e x w)
  then show ?case using submitted_ok by simp
qed

definition fresh_jobs :: "worker \<Rightarrow> bool" where
  "fresh_jobs k \<longleftrightarrow> jw_runs (wl_world k) = [] \<and> (\<forall>i r. dget (jd_logs (jw_db (wl_world k))) i = Some r \<longrightarrow> jl_attempt_count r = 0)"

text \<open>C7. However workers iterate, die between the claim, the handler and the settlement of a message, however messages are
  lost, duplicated, redelivered or sent back from the dead letters, and however rows are cleaned up, deferred and submitted
  meanwhile, the handler of a job has been started at most \<^verbatim>\<open>max_attempts\<close> times (once when that is not positive).\<close>

theorem handler_runs_bounded:
  assumes "reach fresh_jobs worker_step k" "dget (jd_logs (jw_db (wl_world k))) i = Some r"
  shows "int (count_list (jw_runs (wl_world k)) i) \<le> max 1 (jl_max_attempts r)"
proof -
  have "jobs_ok (wl_world k)" using assms(1)
  proof (induction rule: reach_invariant)
    case (init k)
    then show ?case by (auto simp: fresh_jobs_def jobs_ok_def row_ok_def)
  next
    case (step k k')
    then show ?case using worker_step_ok by blast
  qed
  then show ?thesis using assms(2) by (auto simp: jobs_ok_def row_ok_def)
qed



section \<open>Rows that are not claimable stay as they are\<close>

definition keyed :: "txn \<Rightarrow> bool" where
  "keyed t \<longleftrightarrow> distinct (dkeys (jd_logs (tx_saved t))) \<and> distinct (dkeys (jd_logs (tx_now t)))"

lemma keyed_set_log [intro, simp]: "keyed t \<Longrightarrow> keyed (set_log i f t)"
  by (auto simp: keyed_def set_log_def split: option.splits)

lemma keyed_simps [intro, simp]:
  "keyed t \<Longrightarrow> keyed (commit_txn t)" "keyed t \<Longrightarrow> keyed (rollback_txn t)" "keyed t \<Longrightarrow> keyed (emit_async ok t)"
  "keyed t \<Longrightarrow> keyed (move_job_unit now i st t)" "keyed t \<Longrightarrow> keyed (start_attempt e i a t)" "keyed t \<Longrightarrow> keyed (finish_attempt e i v t)"
  by (simp_all add: keyed_def start_attempt_def finish_attempt_def Let_def)
     (auto simp: set_log_def split: option.splits)

lemma keyed_fail [intro]: "keyed t \<Longrightarrow> keyed (snd (fail_attempt e i a term err t))"
  by (auto simp: fail_attempt_def Let_def split: option.splits)

lemma keyed_handler [intro]: "keyed t \<Longrightarrow> keyed (snd (run_handler h i p t))"
  by (auto simp: keyed_def run_handler_def Let_def split: prod.splits)

lemma keyed_execute [intro]:
  assumes "keyed t"
  shows "keyed (snd (execute_job_inline e i task p t))"
proof (cases "get_log i t")
  case (Some row)
  show ?thesis
  proof (cases "je_registry e task")
    case (Some h)
    obtain ans t1 where "run_handler h i p (start_attempt e i (jl_attempt_count row + 1) t) = (ans, t1)" by fastforce
    then show ?thesis
      using \<open>get_log i t = Some row\<close> Some keyed_handler [of "start_attempt e i (jl_attempt_count row + 1) t" h i p] assms
      by (cases ans) (auto simp: execute_job_inline_def)
  qed (use Some assms in \<open>auto simp: execute_job_inline_def\<close>)
qed (simp add: execute_job_inline_def assms)

definition at_rest :: "string \<Rightarrow> JobLog \<Rightarrow> nat \<Rightarrow> job_world \<Rightarrow> bool" where
  "at_rest i row c w \<longleftrightarrow> distinct (dkeys (jd_logs (jw_db w))) \<and> dget (jd_logs (jw_db w)) i = Some row \<and> count_list (jw_runs w) i = c"

lemma at_rest_cong:
  "jd_logs (jw_db w') = jd_logs (jw_db w) \<Longrightarrow> jw_runs w' = jw_runs w \<Longrightarrow> at_rest i row c w \<Longrightarrow> at_rest i row c w'"
  by (simp add: at_rest_def)

lemma at_rest_run_job:
  assumes "at_rest i row c w" "jl_status row \<notin> {''pending'', ''deferred''}" "run_job n e d j w = (how, w')"
  shows "at_rest i row c w'"
proof -
  obtain b db where b: "try_claim_job (wn_db_ok n) (je_now e) j (jw_db w) = (b, db)" by fastforce
  show ?thesis
  proof (cases b)
    case False
    then show ?thesis using assms b by (simp add: run_job_def)
  next
    case True
    let ?w1 = "w\<lparr>jw_db := db\<rparr>"
    obtain r where r: "dget (jd_logs (jw_db w)) j = Some r" "jl_status r = ''pending''"
        "db = (jw_db w)\<lparr>jd_logs := dset j (r\<lparr>jl_status := ''running'', jl_started_at := Some (je_now e)\<rparr>) (jd_logs (jw_db w))\<rparr>"
      using b True by (auto simp: try_claim_job_def split: option.splits if_splits)
    have ij: "i \<noteq> j" using r(1,2) assms(1,2) by (auto simp: at_rest_def)
    obtain x where x: "execute_job e d (j, jl_task_name r, jl_payload r) ?w1 = (x, w')"
      using assms(3) b True r by (auto simp: run_job_def fetch_job_data_def Let_def split: prod.splits option.splits)
    obtain how t' where t': "execute_job_inline e j (jl_task_name r) (jl_payload r) (open_txn ?w1) = (how, t')"
        "jw_db w' = tx_saved t'" "jw_runs w' = tx_runs t'"
      using execute_job_frame [OF x] by blast
    have "tx_saved (open_txn ?w1) = tx_now (open_txn ?w1)"
        "get_log j (open_txn ?w1) = Some (r\<lparr>jl_status := ''running'', jl_started_at := Some (je_now e)\<rparr>)"
        "jl_status (r\<lparr>jl_status := ''running'', jl_started_at := Some (je_now e)\<rparr>) \<notin> {''pending'', ''deferred''}"
      using r(3) by (simp_all add: get_log_def)
    note weak = execute_inline_weak [OF this t'(1), folded t'(2,3), simplified]
    have "keyed (open_txn ?w1)" using assms(1) r(3) by (simp add: keyed_def at_rest_def)
    then have "distinct (dkeys (jd_logs (jw_db w')))"
      using keyed_execute [of "open_txn ?w1" e j "jl_task_name r" "jl_payload r"] t' by (simp add: keyed_def)
    then show ?thesis using weak ij assms(1) r(3) by (auto simp: at_rest_def)
  qed
qed


lemma at_rest_claim:
  assumes "at_rest i row c w" "jl_status row \<notin> {''pending'', ''deferred''}" "try_claim_job ok now j (jw_db w) = (b, db)"
  shows "at_rest i row c (w\<lparr>jw_db := db\<rparr>)"
proof (cases "i = j")
  case True
  then have "db = jw_db w" using assms by (auto simp: at_rest_def try_claim_job_def)
  then show ?thesis using assms(1) by simp
next
  case False
  then show ?thesis using assms(1,3) by (cases "dget (jd_logs (jw_db w)) j") (auto simp: at_rest_def try_claim_job_def split: if_splits)
qed

lemma at_rest_iteration:
  assumes "at_rest i row c (wl_world k)" "jl_status row \<notin> {''pending'', ''deferred''}" "process_one_job n e d k = (r, k')"
  shows "at_rest i row c (wl_world k')"
proof -
  have queue: "at_rest i row c ((wl_world k)\<lparr>jw_queue := b\<rparr>)" for b
    by (rule at_rest_cong [OF _ _ assms(1)]) simp_all
  have run: "at_rest i row c ((snd (run_job n e d j ((wl_world k)\<lparr>jw_queue := b\<rparr>)))\<lparr>jw_queue := b'\<rparr>)" for j b b'
    by (rule at_rest_cong [OF _ _ at_rest_run_job [OF queue assms(2) prod.collapse [symmetric]]]) simp_all
  show ?thesis using assms(1,3) queue run
    by (auto simp: process_one_job_def Let_def split_beta split: option.splits sum.splits prod.splits if_splits)
qed

lemma keyed_stale: "keyed t \<Longrightarrow> keyed (fold (fail_stale_log now) es t)"
proof (induction es arbitrary: t)
  case (Cons x es)
  have "keyed (fail_stale_log now x t)" using Cons.prems keyed_set_log [OF Cons.prems]
    by (auto simp: fail_stale_log_def finalize_job_unit_def keyed_def split: prod.splits option.splits)
  then show ?case using Cons.IH by simp
qed simp

lemma stale_other:
  "i \<notin> fst ` set es \<Longrightarrow> dget (jd_logs (tx_now (fold (fail_stale_log now) es t))) i = dget (jd_logs (tx_now t)) i"
proof (induction es arbitrary: t)
  case (Cons x es)
  have "dget (jd_logs (tx_now (fail_stale_log now x t))) i = dget (jd_logs (tx_now t)) i" using Cons.prems
    by (auto simp: fail_stale_log_def finalize_job_unit_def split: prod.splits option.splits)
  then show ?case using Cons by simp
qed simp

lemma at_rest_cleanup:
  assumes "at_rest i row c w" "jl_status row \<notin> {''pending'', ''deferred''}"
  shows "at_rest i row c (cleanup_stale_logs now w)"
proof -
  let ?es = "filter (stale_row now) (jd_logs (jw_db w))"
  have "r = row" if "(i, r) \<in> set (jd_logs (jw_db w))" for r
    using that assms(1) by (auto simp: at_rest_def dest: map_of_is_SomeI)
  then have "i \<notin> fst ` set ?es" using assms(2) by (auto simp: stale_row_def)
  then show ?thesis
    using assms(1) fail_stale_rows [of now ?es "open_txn w"] keyed_stale [of "open_txn w" now ?es] stale_other [of i ?es now "open_txn w"]
    by (auto simp: at_rest_def cleanup_stale_logs_def keyed_def)
qed

lemma at_rest_set_log:
  assumes "at_rest i row c w" "i \<noteq> j"
  shows "at_rest i row c (close_txn (commit_txn (set_log j f (open_txn w))) w)"
  using assms keyed_set_log [of "open_txn w" j f] by (auto simp: at_rest_def keyed_def)

lemma at_rest_deferred:
  assumes "at_rest i row c w" "i \<noteq> j" "process_deferred_rows e d False judge fence [(j, r)] (m, w) = (x, w')"
  shows "at_rest i row c w'"
proof -
  have "at_rest i row c (snd (dispatch_job_task d task ctx (close_txn (commit_txn (set_log j f (open_txn w))) w)))" for task ctx f
    by (rule at_rest_cong [OF _ _ at_rest_set_log [OF assms(1,2)]]) (simp_all add: dispatch_job_frame)
  from this [of "(j, jl_task_name r, jl_payload r)" "[(''log_id'', PStr j)]" "\<lambda>r. r\<lparr>jl_status := ''pending''\<rparr>"] show ?thesis
    using assms(1,3) at_rest_set_log [OF assms(1,2)]
    by (auto simp: Let_def split: decision.splits if_splits prod.splits option.splits)
qed


lemma at_rest_give_up:
  assumes "at_rest i row c w" "i \<noteq> j"
  shows "at_rest i row c (snd (give_up e j err w))"
proof -
  have "keyed (open_txn w)" using assms(1) by (simp add: at_rest_def keyed_def)
  then have "keyed (submission_failed e j err (open_txn w))" by (simp add: submission_failed_def)
  then show ?thesis using assms by (auto simp: at_rest_def give_up_def submission_failed_def keyed_def simp del: map_of_eq_Some_iff)
qed

lemma at_rest_submitted:
  assumes "at_rest i row c w" "\<not> inline_enabled d n q" "i \<noteq> sn_log_id n" "submit_async_job e d n q w = (x, w')"
  shows "at_rest i row c w'"
proof -
  let ?w1 = "snd (enforce_distributed_queue_backpressure d w)"
  let ?w2 = "close_txn (record_job (je_now e) n (new_JobLog (je_now e) q) q (open_txn ?w1)) ?w1"
  have w1: "at_rest i row c ?w1" by (rule at_rest_cong [OF _ _ assms(1)]) (simp_all add: backpressure_frame)
  then have w2: "at_rest i row c ?w2" using assms(3) by (auto simp: at_rest_def record_job_def Let_def)
  have sent: "at_rest i row c (snd (dispatch_job_task d task ctx ?w2))" for task ctx
    by (rule at_rest_cong [OF _ _ w2]) (simp_all add: dispatch_job_frame)
  have pool: "at_rest i row c (?w2\<lparr>jw_pool := p\<rparr>)" for p
    by (rule at_rest_cong [OF _ _ w2]) simp_all
  note give_up = at_rest_give_up [OF at_rest_set_log [OF w2 assms(3)] assms(3)] at_rest_give_up [OF sent assms(3)]
  have "at_rest i row c (snd (submit_async_job e d n q w))"
    using assms(1,2) w1 sent pool give_up unfolding submit_async_job_def
    by (auto simp: Let_def split_beta split: option.splits if_splits)
  then show ?thesis using assms(4) by simp
qed

lemma worker_step_at_rest:
  assumes "worker_step k k'" "at_rest i row c (wl_world k)" "jl_status row \<notin> {''pending'', ''deferred''}"
  shows "at_rest i row c (wl_world k')"
  using assms
proof (induction rule: worker_step.induct)
  case (Iteration n e d k r k')
  then show ?case using at_rest_iteration by blast
next
  case (Died_claimed ok now j k b db)
  then show ?case using at_rest_claim by fastforce
next
  case (Died_executed n e d j k how w)
  then show ?case using at_rest_run_job by simp
next
  case (Queue_moved k q)
  then show ?case by (simp add: at_rest_def)
next
  case (Cleaned_up k now)
  then show ?case using at_rest_cleanup by simp
next
  case (Deferred_row k j r e d judge fence m x w)
  then have "i \<noteq> j" by (auto simp: at_rest_def)
  then show ?case using Deferred_row at_rest_deferred by simp
next
  case (Submitted d n q k e x w)
  then have "i \<noteq> sn_log_id n" by (auto simp: at_rest_def)
  then show ?case using Submitted at_rest_submitted by simp
qed



definition sample_worker :: worker where
  "sample_worker = \<lparr>wl_world = sample_world,
     wl_health = \<lparr>wh_state = ''STARTING'', wh_started_at = 0, wh_last_heartbeat = 0, wh_first_iteration = False,
       wh_active_jobs = 0, wh_queue_depth = 0, wh_queue_capacity = 100\<rparr>, wl_failures = []\<rparr>"

definition sample_worker_env :: worker_env where
  "sample_worker_env = \<lparr>wn_queue = (\<lambda>_. fst sample_queue_env), wn_slot = Unlimited, wn_db_ok = True, wn_builders = [], wn_threshold = 10\<rparr>"

definition failing_job_env :: job_env where
  "failing_job_env = sample_job_env (\<lambda>p. (Inl (ValueError ''x''), [], False))"

lemma sample_claim:
  "dget (jd_logs (jw_db (wl_world sample_worker))) ''j'' = Some (new_JobLog 0 sample_request)"
  "fresh_jobs sample_worker" "distinct (dkeys (jd_logs (jw_db (wl_world sample_worker))))"
  by (auto simp: sample_worker_def sample_world_def sample_jobs_def fresh_jobs_def new_JobLog_def split: if_splits)

lemma sample_run:
  "\<exists>r. dget (jd_logs (jw_db (snd (run_job sample_worker_env failing_job_env sample_dispatch_env ''j'' sample_world)))) ''j'' = Some r
    \<and> jl_max_attempts r = 2
    \<and> jw_runs (snd (run_job sample_worker_env failing_job_env sample_dispatch_env ''j'' sample_world)) = [''j'']"
  by (simp add: sample_world_def sample_jobs_def run_job_def try_claim_job_def fetch_job_data_def execute_job_def
      execute_job_inline_def get_log_def failing_job_env_def sample_job_env_def sample_worker_env_def new_JobLog_def
      sample_request_def run_handler_def start_attempt_def fail_attempt_def Let_def split_beta schedule_retry_frame map_prod_def
      split: option.split)


lemma sample_reach:
  assumes "fresh_jobs sample_worker"
  shows "reach fresh_jobs worker_step (sample_worker\<lparr>wl_world := snd (run_job sample_worker_env failing_job_env sample_dispatch_env ''j'' sample_world)\<rparr>)"
proof (rule reach_step [of _ _ sample_worker])
  show "reach fresh_jobs worker_step sample_worker" by (rule reach_init) (rule assms)
  have w: "wl_world sample_worker = sample_world" by (simp add: sample_worker_def)
  show "worker_step sample_worker (sample_worker\<lparr>wl_world := snd (run_job sample_worker_env failing_job_env sample_dispatch_env ''j'' sample_world)\<rparr>)"
    by (rule Died_executed) (simp add: w prod_eq_iff)
qed

theorem handler_runs_bounded_witness:
  "\<exists>r. dget (jd_logs (jw_db (snd (run_job sample_worker_env failing_job_env sample_dispatch_env ''j'' sample_world)))) ''j'' = Some r
    \<and> int (count_list (jw_runs (snd (run_job sample_worker_env failing_job_env sample_dispatch_env ''j'' sample_world))) ''j'') \<le> max 1 (jl_max_attempts r)"
proof -
  let ?k = "sample_worker\<lparr>wl_world := snd (run_job sample_worker_env failing_job_env sample_dispatch_env ''j'' sample_world)\<rparr>"
  obtain r where r: "dget (jd_logs (jw_db (wl_world ?k))) ''j'' = Some r" using sample_run by auto
  have "reach fresh_jobs worker_step ?k" by (rule sample_reach [OF sample_claim(2)])
  from handler_runs_bounded [OF this r] r show ?thesis by auto
qed


definition orphaned_worker :: worker where
  "orphaned_worker = sample_worker\<lparr>wl_world := sample_world\<lparr>jw_db := snd (try_claim_job True 5 ''j'' sample_jobs),
     jw_queue := Some (Memory_backend True None ((new_mem_queue 100)\<lparr>mq_q := [sample_job ''j'']\<rparr>))\<rparr>\<rparr>"




section \<open>Dead letters and stale rows\<close>

lemma requeue_into_full:
  "mq_max m \<le> mem_pending_depth m \<Longrightarrow>
   requeue_letters qe ls (c, errs, Memory_backend dg reason m) = (c, errs @ map dl_job_id ls, Memory_backend dg reason m)"
  by (induction ls arbitrary: errs) (auto simp: enqueue_on_def mem_enqueue_def split: option.splits)

text \<open>Draining the dead letters takes them off their list before any of them is sent back: into a full queue none is sent
  back, and each of the letters drained is gone from both the queue and the list.\<close>

theorem drain_into_full_queue_loses_letters:
  assumes "mq_max m \<le> mem_pending_depth m" "0 < limit" "limit \<le> 100"
  shows "drain_dead_letters qe limit True (Memory_backend dg reason m) =
    ((min (length (mq_dlq m)) (nat limit), 0, map dl_job_id (take (nat limit) (mq_dlq m))),
     Memory_backend dg reason (m\<lparr>mq_dlq := drop (nat limit) (mq_dlq m)\<rparr>))"
proof -
  have "mq_max (m\<lparr>mq_dlq := drop (nat limit) (mq_dlq m)\<rparr>) \<le> mem_pending_depth (m\<lparr>mq_dlq := drop (nat limit) (mq_dlq m)\<rparr>)"
    using assms(1) by (simp add: mem_pending_depth_def)
  from requeue_into_full [OF this, of qe "take (nat limit) (mq_dlq m)" 0 "[]" dg reason] show ?thesis
    using assms(2,3) by (simp add: drain_dead_letters_def trim_dead_letters_def dead_letters_of_def Let_def)
qed

theorem drain_into_full_queue_loses_letters_witness:
  "drain_dead_letters (fst sample_queue_env) 5 True (Memory_backend False None ((new_mem_queue 0)\<lparr>mq_dlq :=
      [\<lparr>dl_job_id = ''j'', dl_payload = Some (sample_job ''j''), dl_error = ''x'', dl_failed_at = 0\<rparr>]\<rparr>))
   = ((1, 0, [''j'']), Memory_backend False None (new_mem_queue 0))"
  using drain_into_full_queue_loses_letters [of "(new_mem_queue 0)\<lparr>mq_dlq :=
      [\<lparr>dl_job_id = ''j'', dl_payload = Some (sample_job ''j''), dl_error = ''x'', dl_failed_at = 0\<rparr>]\<rparr>" 5 "fst sample_queue_env" False None]
  by (simp add: new_mem_queue_def mem_pending_depth_def)

lemma stale_entry:
  "i \<in> fst ` set es \<Longrightarrow> dget (jd_logs (tx_now t)) i = Some row \<Longrightarrow>
   \<exists>r. dget (jd_logs (tx_now (fold (fail_stale_log now) es t))) i = Some r \<and> jl_status r = ''failed''
     \<and> jl_error_message r = Some STALE_JOB_ERROR \<and> jl_attempt_count r = jl_attempt_count row"
proof (induction es arbitrary: t row)
  case (Cons x es)
  have logs: "jd_logs (tx_now (fail_stale_log now x t))
      = jd_logs (tx_now (set_log (fst x) (\<lambda>r. r\<lparr>jl_status := ''failed'', jl_error_message := Some STALE_JOB_ERROR\<rparr>) t))"
    by (simp add: fail_stale_log_def finalize_job_unit_def split: prod.splits option.splits)
  show ?case
  proof (cases "i \<in> fst ` set es")
    case True
    obtain row' where "dget (jd_logs (tx_now (fail_stale_log now x t))) i = Some row'" "jl_attempt_count row' = jl_attempt_count row"
      using logs Cons.prems(2) by (cases "i = fst x") auto
    then show ?thesis using Cons.IH [OF True] by fastforce
  next
    case False
    then have "i = fst x" using Cons.prems(1) by auto
    then show ?thesis using stale_other [OF False] logs Cons.prems(2) by simp
  qed
qed simp

text \<open>The clean-up of jobs that ``never started'' looks at the time of creation only: an hour after its submission a job that
  has already been attempted and waits for its retry is failed with that message, and the retry's message, when it is
  delivered, is acknowledged without an execution.\<close>

theorem cleanup_fails_job_awaiting_retry:
  assumes "dget (jd_logs (jw_db w)) i = Some row" "jl_status row = ''pending''" "0 < jl_attempt_count row"
    and "jl_created_at row < now - 3600 * secs"
  shows "\<exists>r. dget (jd_logs (jw_db (cleanup_stale_logs now w))) i = Some r \<and> jl_status r = ''failed''
      \<and> jl_error_message r = Some STALE_JOB_ERROR \<and> jl_attempt_count r = jl_attempt_count row
      \<and> run_job n e d i (cleanup_stale_logs now w) = ((Acked, False), cleanup_stale_logs now w)"
proof -
  have "i \<in> fst ` set (filter (stale_row now) (jd_logs (jw_db w)))"
    using map_of_SomeD [OF assms(1)] assms(2,4) by (force simp: stale_row_def)
  from stale_entry [OF this, of "open_txn w" row now] obtain r where
    r: "dget (jd_logs (jw_db (cleanup_stale_logs now w))) i = Some r" "jl_status r = ''failed''"
      "jl_error_message r = Some STALE_JOB_ERROR" "jl_attempt_count r = jl_attempt_count row"
    using assms(1) by (auto simp: cleanup_stale_logs_def)
  then show ?thesis by (simp add: run_job_def try_claim_job_def)
qed

theorem cleanup_fails_job_awaiting_retry_witness:
  "\<exists>r. dget (jd_logs (jw_db (cleanup_stale_logs (7200 * secs) (sample_world\<lparr>jw_db := sample_jobs\<lparr>jd_logs :=
      [(''j'', (new_JobLog 0 sample_request)\<lparr>jl_attempt_count := 1\<rparr>)]\<rparr>\<rparr>)))) ''j'' = Some r \<and> jl_status r = ''failed''"
  using cleanup_fails_job_awaiting_retry [of "sample_world\<lparr>jw_db := sample_jobs\<lparr>jd_logs :=
      [(''j'', (new_JobLog 0 sample_request)\<lparr>jl_attempt_count := 1\<rparr>)]\<rparr>\<rparr>" "''j''" "(new_JobLog 0 sample_request)\<lparr>jl_attempt_count := 1\<rparr>"
      "7200 * secs" sample_worker_env failing_job_env sample_dispatch_env]
  by (auto simp: new_JobLog_def secs_def)



section \<open>From submission to execution\<close>

text \<open>What a submission meets when it is accepted for the queue: no limit is reached, the process-wide queue is the
  in-memory one, and it has room.\<close>

definition queue_accepts :: "dispatch_env \<Rightarrow> submit_env \<Rightarrow> job_request \<Rightarrow> mem_queue \<Rightarrow> job_world \<Rightarrow> bool" where
  "queue_accepts d n q m w \<longleftrightarrow>
     sn_accepting n \<and> \<not> inline_enabled d n q \<and> sn_slot n \<and> sn_log_id n \<noteq> [] \<and>
     enforce_job_admission_limits (de_env d) (de_settings d) (parse_user_id (jq_user_id q)) (jw_db w) = None \<and>
     resolve_execution_mode (de_env d) (de_settings d) = ''distributed'' \<and>
     (\<exists>dg reason. jw_queue w = Some (Memory_backend dg reason m)) \<and>
     mem_pending_depth m < saturation_threshold (de_env d) (qc_attr (de_settings d)) \<and> mem_pending_depth m < mq_max m"

lemma submit_enqueues:
  assumes "queue_accepts d n q m w"
  shows "\<exists>w' dg reason job. submit_async_job e d n q w = (Inr (sn_log_id n), w')
    \<and> dget (jd_logs (jw_db w')) (sn_log_id n) = Some (new_JobLog (je_now e) q) \<and> jw_runs w' = jw_runs w
    \<and> jw_queue w' = Some (Memory_backend dg reason (m\<lparr>mq_q := mq_q m @ [job]\<rparr>))
    \<and> job_id job = sn_log_id n \<and> read_resume_context (job_context job) = None"
proof -
  let ?i = "sn_log_id n" and ?u = "user_text (parse_user_id (jq_user_id q))"
  let ?ctx = "[(''log_id'', PStr ?i), (''task_name'', PStr (jq_task_name q)), (''user_id'', ?u)]"
  obtain dg reason where b: "jw_queue w = Some (Memory_backend dg reason m)" using assms by (auto simp: queue_accepts_def)
  have r: "read_resume_context ?ctx = None" "truthy (pget ?ctx ''log_id'')" "py_str (pget ?ctx ''log_id'') = ?i" "pget ?ctx ''retry'' = PNone"
      "int_key ?ctx ''attempt_count'' 0 = Inr 0" "int_key ?ctx ''max_attempts'' 1 = Inr 1"
    using assms by (simp_all add: read_resume_context_def pget_def dget_or_def RESUME_CONTEXT_KEY_def queue_accepts_def int_key_def)
  obtain job where job: "build_job_payload (de_trace d) (de_stamp d) JOB_DISPATCH_STUB ?ctx = Inr job"
    using r by (simp add: build_job_payload_def Let_def bind_result_def)
  have names: "job_id job = ?i" "read_resume_context (job_context job) = None"
    using message_rebuilt [OF job] r by auto
  have sent: "dispatch_job_task d (?i, jq_task_name q, jq_payload q) ?ctx w2
      = (None, w2\<lparr>jw_queue := Some (Memory_backend dg reason (m\<lparr>mq_q := mq_q m @ [job]\<rparr>))\<rparr>)"
    if "jw_queue w2 = jw_queue w" for w2
    using that job assms r(4) b
    by (simp add: dispatch_job_task_def dispatch_def decide_mode_def JOB_DISPATCH_STUB_def pget_def dget_or_def queue_accepts_def
        enqueue_distributed_def get_queue_def deliver_def enqueue_on_def mem_enqueue_def)
  have pressure: "enforce_distributed_queue_backpressure d w = (None, w)"
    using assms b by (auto simp: queue_accepts_def enforce_distributed_queue_backpressure_def get_queue_def metrics_fail_def
        total_pending_jobs_def mem_pending_depth_def)
  show ?thesis using assms names
    by (auto simp: submit_async_job_def queue_accepts_def Let_def pressure sent record_job_def)
qed


lemma take_and_execute:
  assumes "wl_world k = w" "jw_queue w = Some (Memory_backend dg reason (m\<lparr>mq_q := [job]\<rparr>))" "job_id job = i"
    and "read_resume_context (job_context job) = None" "wn_slot n \<in> {Unlimited, Acquired}" "wn_db_ok n"
    and "dget (jd_logs (jw_db w)) i = Some r" "jl_status r = ''pending''"
    and "je_registry e (jl_task_name r) = Some h" "process_one_job n e d k = (ans, k')"
  shows "jw_runs (wl_world k') = jw_runs w @ [i]"
proof -
  let ?b = "Memory_backend dg reason (m\<lparr>mq_q := [], mq_inflight := dset i (job, qe_now (wn_queue n 0)) (mq_inflight m)\<rparr>)"
  let ?w1 = "w\<lparr>jw_queue := Some ?b\<rparr>"
  let ?db = "snd (try_claim_job True (je_now e) i (jw_db w))"
  have claim: "try_claim_job (wn_db_ok n) (je_now e) i (jw_db w) = (True, ?db)" using assms(6-8) by (simp add: try_claim_job_def)
  obtain r' where r': "dget (jd_logs ?db) i = Some r'" "jl_task_name r' = jl_task_name r" using assms(7,8) by (simp add: try_claim_job_def)
  obtain x w2 where x: "execute_job e d (i, jl_task_name r, jl_payload r') (?w1\<lparr>jw_db := ?db\<rparr>) = (x, w2)" by fastforce
  then have "jw_runs w2 = jw_runs w @ [i]"
    using execute_job_runs [OF assms(9), of "?w1\<lparr>jw_db := ?db\<rparr>" i r' d "jl_payload r'"] r'(1) by simp
  then have "jw_runs (snd (run_job n e d i ?w1)) = jw_runs w @ [i]"
    using claim r' x by (cases x) (simp_all add: run_job_def fetch_job_data_def)
  moreover have "dequeue_on (wn_queue n 0) (Memory_backend dg reason (m\<lparr>mq_q := [job]\<rparr>)) = (Inr (Some job), ?b)"
    using assms(3) by (simp add: dequeue_on_def mem_dequeue_def)
  ultimately show ?thesis using assms(1-5,10)
    by (auto simp: process_one_job_def Let_def split_beta)
qed


definition queued_world :: job_world where
  "queued_world = \<lparr>jw_db = \<lparr>jd_logs = [], jd_units = [], jd_work = []\<rparr>, jw_runs = [],
     jw_queue = Some (Memory_backend False None (new_mem_queue 10)), jw_pool = [], jw_timers = []\<rparr>"


definition queued_env :: dispatch_env where
  "queued_env = sample_dispatch_env\<lparr>de_env := (\<lambda>k. if k = ''EXECUTION_MODE'' then Some ''distributed'' else None)\<rparr>"

definition queued_submit :: submit_env where
  "queued_submit = \<lparr>sn_accepting = True, sn_is_testing = False, sn_runner_running = True, sn_sqlite = False, sn_log_id = ''j'', sn_unit_id = 1,
     sn_slot = True\<rparr>"

lemma queued_mode: "resolve_execution_mode (de_env queued_env) (de_settings queued_env) = ''distributed''"
  by (simp add: queued_env_def resolve_execution_mode_def py_strip_def py_strip_chars_def py_lstrip_chars_def py_rstrip_chars_def
      is_space_def code_def py_lower_def lower_char_def)

lemma queued_accepts: "queue_accepts queued_env queued_submit sample_request (new_mem_queue 10) queued_world"
  unfolding queue_accepts_def queued_mode inline_enabled_def runner_disabled_def
  by (auto simp: queued_env_def queued_submit_def queued_world_def sample_request_def force_inline_def enforce_job_admission_limits_def
      sample_dispatch_env_def safe_int_env_def sample_queue_settings_def new_mem_queue_def mem_pending_depth_def saturation_threshold_def
      queue_capacity_limit_def)


end
