(* ===== verification/State_Merge.thy ===== *)
theory State_Merge
  imports Py_Values "HOL-Library.Multiset"
begin

text \<open>
  How the patches of one superstep of a flow become one state (\<^verbatim>\<open>runtime/flow_engine/state_merge.py\<close>): the
  declared policy of each cell, the reducers, and the merge in declaration order. Comparison, equality, addition
  and sorting of Python values are written out; the arithmetic of floats is an argument, a float being known
  by its text.
\<close>


section \<open>Python operators\<close>

record float_ops =
  fl_add :: "pyval \<Rightarrow> pyval \<Rightarrow> pyval"
  fl_eq :: "pyval \<Rightarrow> pyval \<Rightarrow> bool"
  fl_less :: "pyval \<Rightarrow> pyval \<Rightarrow> bool"

fun num_of :: "pyval \<Rightarrow> int option" where
  "num_of (PInt i) = Some i"
| "num_of (PBool b) = Some (if b then 1 else 0)"
| "num_of _ = None"

fun is_float :: "pyval \<Rightarrow> bool" where
  "is_float (PFloat _) = True"
| "is_float _ = False"

definition float_operands :: "pyval \<Rightarrow> pyval \<Rightarrow> bool" where
  "float_operands a b \<longleftrightarrow> is_float a \<and> (is_float b \<or> num_of b \<noteq> None) \<or> is_float b \<and> num_of a \<noteq> None"

text \<open>\<^verbatim>\<open>a + b\<close>.\<close>

definition py_add :: "float_ops \<Rightarrow> pyval \<Rightarrow> pyval \<Rightarrow> py_exc + pyval" where
  "py_add fo a b =
     (if float_operands a b then Inr (fl_add fo a b)
      else case (num_of a, num_of b) of
        (Some i, Some j) \<Rightarrow> Inr (PInt (i + j))
      | _ \<Rightarrow> (case (a, b) of
                (PStr s, PStr t) \<Rightarrow> Inr (PStr (s @ t))
              | (PList xs, PList ys) \<Rightarrow> Inr (PList (xs @ ys))
              | _ \<Rightarrow> Inl (TypeError (type_name a))))"

lemma size_in_list: "(x, y) \<in> set (zip xs ys) \<Longrightarrow> size x < Suc (size_list size xs)"
  by (metis in_set_zipE less_Suc_eq_le size_list_estimation' le_refl)

lemma size_in_dict: "(k, v) \<in> set d \<Longrightarrow> size v < Suc (size_list (size_prod (\<lambda>x. 0) size) d)" for d :: payload
  by (induction d) auto

text \<open>\<^verbatim>\<open>a == b\<close>: numbers by value, lists elementwise, dictionaries without regard to order.\<close>

function py_eq :: "float_ops \<Rightarrow> pyval \<Rightarrow> pyval \<Rightarrow> bool" where
  "py_eq fo (PList xs) w =
     (case w of PList ys \<Rightarrow> length xs = length ys \<and> list_all (\<lambda>(x, y). py_eq fo x y) (zip xs ys) | _ \<Rightarrow> False)"
| "py_eq fo (PDict d) w =
     (case w of
        PDict e \<Rightarrow> length d = length e \<and>
          list_all (\<lambda>(k, v). case dget e k of None \<Rightarrow> False | Some v' \<Rightarrow> py_eq fo v v') d
      | _ \<Rightarrow> False)"
| "py_eq fo PNone w = (w = PNone)"
| "py_eq fo (PStr s) w = (w = PStr s)"
| "py_eq fo (PUuid n) w = (w = PUuid n)"
| "py_eq fo (PObj c t) w = (w = PObj c t)"
| "py_eq fo (PInt i) w = (if is_float w then fl_eq fo (PInt i) w else num_of w = Some i)"
| "py_eq fo (PBool b) w = (if is_float w then fl_eq fo (PBool b) w else num_of w = num_of (PBool b))"
| "py_eq fo (PFloat t) w = ((is_float w \<or> num_of w \<noteq> None) \<and> fl_eq fo (PFloat t) w)"
  by pat_completeness auto

termination
  by (relation "measure (\<lambda>(fo, v, w). size v)") (auto simp: size_in_list dest: size_in_dict)

text \<open>\<^verbatim>\<open>a < b\<close>; lists compare at the first place they differ.\<close>

fun py_less :: "float_ops \<Rightarrow> pyval \<Rightarrow> pyval \<Rightarrow> py_exc + bool" and list_less :: "float_ops \<Rightarrow> pyval list \<Rightarrow> pyval list \<Rightarrow> py_exc + bool" where
  "py_less fo a b =
     (if float_operands a b then Inr (fl_less fo a b)
      else case (num_of a, num_of b) of
        (Some i, Some j) \<Rightarrow> Inr (i < j)
      | _ \<Rightarrow> (case (a, b) of
                (PStr s, PStr t) \<Rightarrow> Inr (s < t)
              | (PUuid m, PUuid n) \<Rightarrow> Inr (m < n)
              | (PList xs, PList ys) \<Rightarrow> list_less fo xs ys
              | _ \<Rightarrow> Inl (TypeError (type_name a))))"
| "list_less fo (x # xs) (y # ys) = (if py_eq fo x y then list_less fo xs ys else py_less fo x y)"
| "list_less fo [] ys = Inr (ys \<noteq> [])"
| "list_less fo (x # xs) [] = Inr False"

definition py_max :: "float_ops \<Rightarrow> pyval \<Rightarrow> pyval \<Rightarrow> py_exc + pyval" where
  "py_max fo a b = bind_result (py_less fo a b) (\<lambda>lt. Inr (if lt then b else a))"

definition py_min :: "float_ops \<Rightarrow> pyval \<Rightarrow> pyval \<Rightarrow> py_exc + pyval" where
  "py_min fo a b = bind_result (py_less fo b a) (\<lambda>lt. Inr (if lt then b else a))"

text \<open>\<^verbatim>\<open>sorted(set(a) | set(b))\<close>: the members of an iterable, a set with the first of equal members, and a sort that raises on
  members that cannot be compared.\<close>

definition py_iter :: "pyval \<Rightarrow> py_exc + pyval list" where
  "py_iter v =
     (case v of PList xs \<Rightarrow> Inr xs | PStr s \<Rightarrow> Inr (map (\<lambda>c. PStr [c]) s) | PDict d \<Rightarrow> Inr (map (\<lambda>(k, _). PStr k) d)
      | _ \<Rightarrow> Inl (TypeError (type_name v)))"

fun set_members :: "float_ops \<Rightarrow> pyval list \<Rightarrow> pyval list" where
  "set_members fo [] = []"
| "set_members fo (x # xs) = x # set_members fo (filter (\<lambda>y. \<not> py_eq fo x y) xs)"

fun sort_insert :: "float_ops \<Rightarrow> pyval \<Rightarrow> pyval list \<Rightarrow> py_exc + pyval list" where
  "sort_insert fo x [] = Inr [x]"
| "sort_insert fo x (y # ys) =
     bind_result (py_less fo y x) (\<lambda>lt. if lt then bind_result (sort_insert fo x ys) (\<lambda>r. Inr (y # r)) else Inr (x # y # ys))"

fun py_sorted :: "float_ops \<Rightarrow> pyval list \<Rightarrow> py_exc + pyval list" where
  "py_sorted fo [] = Inr []"
| "py_sorted fo (x # xs) = bind_result (py_sorted fo xs) (sort_insert fo x)"

definition py_union :: "float_ops \<Rightarrow> pyval \<Rightarrow> pyval \<Rightarrow> py_exc + pyval" where
  "py_union fo a b =
     bind_result (py_iter a) (\<lambda>xs. bind_result (py_iter b) (\<lambda>ys.
       if list_all hashable (xs @ ys)
       then bind_result (py_sorted fo (set_members fo (xs @ ys))) (\<lambda>r. Inr (PList r))
       else Inl (TypeError ''unhashable'')))"


section \<open>Policies\<close>

definition POLICIES :: "string list" where
  "POLICIES = [''last_write_wins'', ''reduce'', ''barrier'']"

definition STATE_POLICIES_KEY :: string where
  "STATE_POLICIES_KEY = ''state_policies''"

definition reducer :: "float_ops \<Rightarrow> string \<Rightarrow> (pyval \<Rightarrow> pyval \<Rightarrow> py_exc + pyval) option" where
  "reducer fo op =
     (if op = ''sum'' then Some (py_add fo)
      else if op = ''max'' then Some (py_max fo)
      else if op = ''min'' then Some (py_min fo)
      else if op = ''and'' then Some (\<lambda>a b. Inr (PBool (truthy a \<and> truthy b)))
      else if op = ''or'' then Some (\<lambda>a b. Inr (PBool (truthy a \<or> truthy b)))
      else if op = ''union'' then Some (py_union fo)
      else None)"

text \<open>\<^verbatim>\<open>StateMergeConflict\<close>, by its reason, and exceptions of the operators.\<close>

datatype merge_error =
    Undeclared string "string list"
  | Unknown_policy string string
  | Unknown_reducer string string
  | Barrier_unnamed string
  | Barrier_missing string "string list"
  | Merge_raised py_exc

fun reduce_values :: "(pyval \<Rightarrow> pyval \<Rightarrow> py_exc + pyval) \<Rightarrow> pyval \<Rightarrow> pyval list \<Rightarrow> py_exc + pyval" where
  "reduce_values f acc [] = Inr acc"
| "reduce_values f acc (v # vs) = bind_result (f acc v) (\<lambda>r. reduce_values f r vs)"

text \<open>\<^verbatim>\<open>str(policy.get(k) or "")\<close>.\<close>

definition policy_text :: "payload \<Rightarrow> string \<Rightarrow> string" where
  "policy_text policy k = (if truthy (pget policy k) then py_str (pget policy k) else [])"

definition resolve_cell :: "float_ops \<Rightarrow> string \<Rightarrow> string list \<Rightarrow> pyval list \<Rightarrow> pyval \<Rightarrow> merge_error + pyval" where
  "resolve_cell fo cell writers values policy =
     (case policy of
        PNone \<Rightarrow> Inl (Undeclared cell writers)
      | PDict p \<Rightarrow>
          let name = policy_text p ''policy''
          in if name \<notin> set POLICIES then Inl (Unknown_policy cell name)
             else if name = ''last_write_wins'' then Inr (last values)
             else if name = ''reduce'' then
               (case reducer fo (policy_text p ''op'') of
                  None \<Rightarrow> Inl (Unknown_reducer cell (policy_text p ''op''))
                | Some f \<Rightarrow> (case reduce_values f (hd values) (tl values) of Inl x \<Rightarrow> Inl (Merge_raised x) | Inr v \<Rightarrow> Inr v))
             else
               (case py_iter (if truthy (pget p ''writers'') then pget p ''writers'' else PList []) of
                  Inl x \<Rightarrow> Inl (Merge_raised x)
                | Inr ws \<Rightarrow>
                    let expected = map py_str ws; missing = filter (\<lambda>w. w \<notin> set writers) expected
                    in if expected = [] then Inl (Barrier_unnamed cell)
                       else if missing \<noteq> [] then Inl (Barrier_missing cell missing)
                       else Inr (last values))
      | v \<Rightarrow> Inl (Merge_raised (AttributeError (type_name v))))"

definition cells_by_writer :: "(string \<times> payload) list \<Rightarrow> string list dict" where
  "cells_by_writer patches =
     fold (\<lambda>(writer, patch) seen. fold (\<lambda>(cell, _) seen. dset cell (dget_or seen cell [] @ [writer]) seen) patch seen) patches []"

definition dict_update :: "payload \<Rightarrow> payload \<Rightarrow> payload" where
  "dict_update d patch = fold (\<lambda>(k, v). dset k v) patch d"

definition cell_values :: "string \<Rightarrow> (string \<times> payload) list \<Rightarrow> pyval list" where
  "cell_values cell ordered = List.map_filter (\<lambda>(_, p). dget p cell) ordered"

text \<open>The state is updated in place, so a conflict leaves the cells before it written.\<close>

fun merge_cells :: "float_ops \<Rightarrow> (string \<times> payload) list \<Rightarrow> pyval dict \<Rightarrow> (string \<times> string list) list \<Rightarrow> payload \<Rightarrow> merge_error option \<times> payload" where
  "merge_cells fo ordered policies [] state = (None, state)"
| "merge_cells fo ordered policies ((cell, writers) # rest) state =
     (let values = cell_values cell ordered
      in if length writers = 1 then merge_cells fo ordered policies rest (dset cell (hd values) state)
         else (case resolve_cell fo cell writers values (pget policies cell) of
                 Inl x \<Rightarrow> (Some x, state)
               | Inr v \<Rightarrow> merge_cells fo ordered policies rest (dset cell v state)))"

definition merge_state :: "float_ops \<Rightarrow> payload \<Rightarrow> (string \<times> payload) list \<Rightarrow> pyval dict \<Rightarrow> merge_error option \<times> payload" where
  "merge_state fo state patches policies =
     (if length patches \<le> 1 then (None, fold (\<lambda>(_, patch) s. dict_update s patch) patches state)
      else merge_cells fo patches policies (cells_by_writer patches) state)"

definition declared_policies :: "payload \<Rightarrow> pyval dict" where
  "declared_policies flow = (case pget flow STATE_POLICIES_KEY of PDict d \<Rightarrow> d | _ \<Rightarrow> [])"



section \<open>What a merge leaves in each cell\<close>

definition patches_ok :: "(string \<times> payload) list \<Rightarrow> bool" where
  "patches_ok ps \<longleftrightarrow> (\<forall>(w, p) \<in> set ps. distinct (dkeys p))"

definition cell_writers :: "string \<Rightarrow> (string \<times> payload) list \<Rightarrow> string list" where
  "cell_writers cell ps = map fst (filter (\<lambda>(w, p). dget p cell \<noteq> None) ps)"

lemma writers_values_length: "length (cell_writers c ps) = length (cell_values c ps)"
  by (induction ps) (auto simp: cell_writers_def cell_values_def split: option.splits)

lemma fold_cells:
  "distinct (dkeys p) \<Longrightarrow>
   dget_or (fold (\<lambda>(cell, _) seen. dset cell (dget_or seen cell [] @ [w]) seen) p seen) c []
     = dget_or seen c [] @ (if dget p c = None then [] else [w])
   \<and> (dget (fold (\<lambda>(cell, _) seen. dset cell (dget_or seen cell [] @ [w]) seen) p seen) c = None \<longleftrightarrow> dget seen c = None \<and> dget p c = None)
   \<and> (distinct (dkeys seen) \<longrightarrow> distinct (dkeys (fold (\<lambda>(cell, _) seen. dset cell (dget_or seen cell [] @ [w]) seen) p seen)))"
proof (induction p arbitrary: seen)
  case (Cons x p)
  obtain k v where x: "x = (k, v)" by fastforce
  have "dget p k = None" using Cons.prems x by (auto simp: map_of_eq_None_iff)
  then show ?case using Cons.IH [of "dset k (dget_or seen k [] @ [w]) seen"] Cons.prems x by (auto simp: dget_or_def)
qed simp

lemma cells_by_writer_spec:
  assumes "patches_ok ps"
  shows "dget (cells_by_writer ps) c = (if cell_writers c ps = [] then None else Some (cell_writers c ps))"
    and "distinct (dkeys (cells_by_writer ps))"
proof -
  let ?f = "\<lambda>(w, p) seen. fold (\<lambda>(cell, _) seen. dset cell (dget_or seen cell [] @ [w]) seen) p seen"
  have gen: "dget_or (fold ?f ps seen) c [] = dget_or seen c [] @ cell_writers c ps
      \<and> (dget (fold ?f ps seen) c = None \<longleftrightarrow> dget seen c = None \<and> cell_writers c ps = [])
      \<and> (distinct (dkeys seen) \<longrightarrow> distinct (dkeys (fold ?f ps seen)))" for seen
    using assms
  proof (induction ps arbitrary: seen)
    case (Cons x ps)
    obtain w p where x: "x = (w, p)" by fastforce
    then show ?case using Cons fold_cells [of p w seen c] by (auto simp: patches_ok_def cell_writers_def)
  qed (simp add: cell_writers_def)
  show "dget (cells_by_writer ps) c = (if cell_writers c ps = [] then None else Some (cell_writers c ps))"
    using gen [of "[]"] by (auto simp: cells_by_writer_def dget_or_def split: option.splits)
  show "distinct (dkeys (cells_by_writer ps))" using gen [of "[]"] by (simp add: cells_by_writer_def)
qed

definition cell_result :: "float_ops \<Rightarrow> (string \<times> payload) list \<Rightarrow> pyval dict \<Rightarrow> string \<Rightarrow> merge_error + pyval" where
  "cell_result fo ps policies c =
     (if length (cell_writers c ps) = 1 then Inr (hd (cell_values c ps))
      else resolve_cell fo c (cell_writers c ps) (cell_values c ps) (pget policies c))"

lemma merge_cells_step:
  "merge_cells fo ps policies ((c, cell_writers c ps) # cs) s = (case cell_result fo ps policies c of
     Inl e \<Rightarrow> (Some e, s) | Inr v \<Rightarrow> merge_cells fo ps policies cs (dset c v s))"
  by (simp add: cell_result_def Let_def)

declare merge_cells.simps(2) [simp del]

lemma merge_cells_all:
  assumes "distinct (dkeys cs)" "\<And>c ws. (c, ws) \<in> set cs \<Longrightarrow> ws = cell_writers c ps"
    and "\<forall>c \<in> set (dkeys cs). \<exists>v. cell_result fo ps policies c = Inr v"
  shows "\<exists>s'. merge_cells fo ps policies cs s = (None, s')
    \<and> (\<forall>c. dget s' c = (if c \<in> set (dkeys cs) then (case cell_result fo ps policies c of Inr v \<Rightarrow> Some v | Inl _ \<Rightarrow> None) else dget s c))"
  using assms
proof (induction cs arbitrary: s)
  case (Cons x cs)
  obtain c where x: "x = (c, cell_writers c ps)" using Cons.prems(2) by (cases x) auto
  obtain v where v: "cell_result fo ps policies c = Inr v" using x Cons.prems(3) by auto
  obtain s' where "merge_cells fo ps policies cs (dset c v s) = (None, s')"
      "\<forall>k. dget s' k = (if k \<in> set (dkeys cs) then (case cell_result fo ps policies k of Inr v \<Rightarrow> Some v | Inl _ \<Rightarrow> None) else dget (dset c v s) k)"
    using Cons.IH [of "dset c v s"] Cons.prems by auto
  then show ?case using Cons.prems(1) x v by (auto simp: merge_cells_step)
qed simp

lemma merge_cells_conflict:
  assumes "\<And>c ws. (c, ws) \<in> set cs \<Longrightarrow> ws = cell_writers c ps"
    and "c \<in> set (dkeys cs)" "cell_result fo ps policies c = Inl x"
  shows "\<exists>y s'. merge_cells fo ps policies cs s = (Some y, s')"
  using assms
proof (induction cs arbitrary: s)
  case (Cons z cs)
  obtain k where z: "z = (k, cell_writers k ps)" using Cons.prems(1) by (cases z) auto
  show ?case
  proof (cases "cell_result fo ps policies k")
    case (Inr v)
    then have "c \<in> set (dkeys cs)" using Cons.prems(2,3) z by auto
    moreover have "ws = cell_writers d ps" if "(d, ws) \<in> set cs" for d ws using that Cons.prems(1) by simp
    ultimately have "\<exists>y s'. merge_cells fo ps policies cs (dset k v s) = (Some y, s')" using Cons.IH Cons.prems(3) by blast
    then show ?thesis unfolding z merge_cells_step by (simp add: Inr)
  qed (simp add: z merge_cells_step)
qed simp

lemma cells_listed:
  assumes "patches_ok ps"
  shows "(c, ws) \<in> set (cells_by_writer ps) \<Longrightarrow> ws = cell_writers c ps"
    and "c \<in> set (dkeys (cells_by_writer ps)) \<longleftrightarrow> cell_writers c ps \<noteq> []"
proof -
  have at: "dget (cells_by_writer ps) c = (if cell_writers c ps = [] then None else Some (cell_writers c ps))"
    by (rule cells_by_writer_spec(1) [OF assms])
  then show "c \<in> set (dkeys (cells_by_writer ps)) \<longleftrightarrow> cell_writers c ps \<noteq> []"
    using map_of_eq_None_iff [of "cells_by_writer ps" c] by (auto split: if_splits)
  assume "(c, ws) \<in> set (cells_by_writer ps)"
  then have "dget (cells_by_writer ps) c = Some ws" by (rule map_of_is_SomeI [OF cells_by_writer_spec(2) [OF assms]])
  then show "ws = cell_writers c ps" using at by (simp split: if_splits)
qed

lemma merge_state_ok:
  assumes "patches_ok ps" "1 < length ps" "\<And>c. cell_writers c ps \<noteq> [] \<Longrightarrow> \<exists>v. cell_result fo ps policies c = Inr v"
  shows "\<exists>s'. merge_state fo s ps policies = (None, s')
    \<and> (\<forall>c. dget s' c = (if cell_writers c ps = [] then dget s c else (case cell_result fo ps policies c of Inr v \<Rightarrow> Some v | Inl _ \<Rightarrow> None)))"
proof -
  note listed = cells_listed [OF assms(1)]
  have "\<forall>c \<in> set (dkeys (cells_by_writer ps)). \<exists>v. cell_result fo ps policies c = Inr v" using listed(2) assms(3) by blast
  from merge_cells_all [OF cells_by_writer_spec(2) [OF assms(1)] listed(1) this, of s] obtain s' where
    s': "merge_cells fo ps policies (cells_by_writer ps) s = (None, s')"
      "\<And>c. dget s' c = (if c \<in> set (dkeys (cells_by_writer ps))
         then (case cell_result fo ps policies c of Inr v \<Rightarrow> Some v | Inl _ \<Rightarrow> None) else dget s c)" by blast
  have "dget s' c = (if cell_writers c ps = [] then dget s c else (case cell_result fo ps policies c of Inr v \<Rightarrow> Some v | Inl _ \<Rightarrow> None))" for c
    unfolding s'(2) listed(2) by simp
  then show ?thesis using s'(1) assms(2) by (simp add: merge_state_def)
qed

lemma merge_state_conflict:
  assumes "patches_ok ps" "1 < length ps" "cell_writers c ps \<noteq> []" "cell_result fo ps policies c = Inl x"
  shows "\<exists>y s'. merge_state fo s ps policies = (Some y, s')"
proof -
  have "c \<in> set (dkeys (cells_by_writer ps))" using cells_listed(2) [OF assms(1)] assms(3) by blast
  from merge_cells_conflict [OF cells_listed(1) [OF assms(1)] this assms(4), of s] show ?thesis using assms(2) by (simp add: merge_state_def)
qed



definition no_floats :: float_ops where
  "no_floats = \<lparr>fl_add = (\<lambda>a b. PNone), fl_eq = (\<lambda>a b. False), fl_less = (\<lambda>a b. False)\<rparr>"




section \<open>Order of the branches\<close>

lemma reduce_sum: "reduce_values (py_add fo) (PInt a) (map PInt is) = Inr (PInt (a + sum_list is))"
  by (induction "is" arbitrary: a) (simp_all add: py_add_def float_operands_def add.assoc)

lemma reduce_max: "reduce_values (py_max fo) (PInt a) (map PInt is) = Inr (PInt (foldl max a is))"
  by (induction "is" arbitrary: a) (simp_all add: py_max_def float_operands_def max_def)

lemma reduce_min: "reduce_values (py_min fo) (PInt a) (map PInt is) = Inr (PInt (foldl min a is))"
  by (induction "is" arbitrary: a) (simp_all add: py_min_def float_operands_def min_def)

lemma reduce_bool:
  "reduce_values (\<lambda>a b. Inr (PBool (truthy a \<and> truthy b))) (PBool t) vs = Inr (PBool (t \<and> (\<forall>v \<in> set vs. truthy v)))"
  "reduce_values (\<lambda>a b. Inr (PBool (truthy a \<or> truthy b))) (PBool t) vs = Inr (PBool (t \<or> (\<exists>v \<in> set vs. truthy v)))"
  by (induction vs arbitrary: t) simp_all

lemma foldl_max: "foldl max a is = Max (set (a # is))" for a :: int
proof (induction "is" arbitrary: a)
  case (Cons i "is")
  show ?case unfolding foldl.simps Cons.IH by (cases "is") (simp_all add: max.assoc)
qed simp

lemma foldl_min: "foldl min a is = Min (set (a # is))" for a :: int
proof (induction "is" arbitrary: a)
  case (Cons i "is")
  show ?case unfolding foldl.simps Cons.IH by (cases "is") (simp_all add: min.assoc)
qed simp

definition reduced :: "string \<Rightarrow> int list \<Rightarrow> pyval" where
  "reduced op is =
     (if op = ''sum'' then PInt (sum_list is) else if op = ''max'' then PInt (Max (set is)) else if op = ''min'' then PInt (Min (set is))
      else if op = ''and'' then PBool (\<forall>i \<in> set is. i \<noteq> 0) else PBool (\<exists>i \<in> set is. i \<noteq> 0))"

lemma reduce_ints:
  assumes "1 < length is" "op \<in> {''sum'', ''max'', ''min'', ''and'', ''or''}"
  shows "\<exists>f. reducer fo op = Some f \<and> reduce_values f (hd (map PInt is)) (tl (map PInt is)) = Inr (reduced op is)"
proof -
  obtain a b js where "is": "is = a # b # js" using assms(1) by (cases "is"; cases "tl is") auto
  show ?thesis using assms(2) reduce_sum [of fo a "b # js"] reduce_max [of fo a "b # js"] reduce_min [of fo a "b # js"]
    unfolding "is" foldl_max foldl_min by (auto simp: reducer_def reduced_def reduce_bool)
qed

lemma reduced_perm:
  assumes "mset is = mset js"
  shows "reduced op is = reduced op js"
proof -
  have "set is = set js" by (rule mset_eq_setD [OF assms])
  moreover have "sum_list is = sum_list js" using arg_cong [OF assms, of sum_mset] by (simp add: sum_mset_sum_list)
  ultimately show ?thesis by (simp add: reduced_def)
qed

definition reducible :: "(string \<times> payload) list \<Rightarrow> pyval dict \<Rightarrow> bool" where
  "reducible ps policies \<longleftrightarrow> (\<forall>c. 1 < length (cell_values c ps) \<longrightarrow>
     (\<exists>p op is. pget policies c = PDict p \<and> policy_text p ''policy'' = ''reduce'' \<and> policy_text p ''op'' = op
        \<and> op \<in> {''sum'', ''max'', ''min'', ''and'', ''or''} \<and> cell_values c ps = map PInt is))"


lemma cell_values_perm:
  assumes "mset ps = mset qs"
  shows "mset (cell_values c ps) = mset (cell_values c qs)"
proof -
  have "mset (cell_values c xs) = image_mset (\<lambda>(_, p). the (dget p c)) (filter_mset (\<lambda>(_, p). dget p c \<noteq> None) (mset xs))" for xs
    by (induction xs) (auto simp: cell_values_def split: option.splits)
  then show ?thesis using assms by simp
qed

lemma reducible_result:
  assumes "reducible ps policies" "cell_values c ps \<noteq> []" "mset ps = mset qs"
  shows "\<exists>v. cell_result fo ps policies c = Inr v \<and> cell_result fo qs policies c = Inr v"
proof (cases "length (cell_values c ps) = 1")
  case True
  then obtain v where v: "cell_values c ps = [v]" by (cases "cell_values c ps") auto
  then have "cell_values c qs = [v]" using cell_values_perm [OF assms(3), of c] by simp
  then show ?thesis using v writers_values_length [of c ps] writers_values_length [of c qs] by (simp add: cell_result_def)
next
  case False
  then have len: "1 < length (cell_values c ps)" using assms(2) by (cases "cell_values c ps") (auto simp: neq_Nil_conv)
  then obtain p "is" where p: "pget policies c = PDict p" "policy_text p ''policy'' = ''reduce''" "policy_text p ''op'' \<in> {''sum'', ''max'', ''min'', ''and'', ''or''}"
      "cell_values c ps = map PInt is"
    using assms(1) unfolding reducible_def by blast
  have perm: "mset (cell_values c qs) = image_mset PInt (mset is)" using cell_values_perm [OF assms(3), of c] p(4) by simp
  obtain js where js: "cell_values c qs = map PInt js" "mset js = mset is"
  proof -
    have "\<forall>v \<in> set (cell_values c qs). \<exists>i. v = PInt i" using arg_cong [OF perm, of set_mset] by auto
    then obtain js where "cell_values c qs = map PInt js" by (metis ex_map_conv)
    moreover then have "mset js = mset is" using perm injD [OF multiset.inj_map [of PInt], of "mset js" "mset is"] by (simp add: inj_def)
    ultimately show ?thesis using that by blast
  qed
  have lens: "1 < length is" "1 < length js" using len p(4) mset_eq_length [OF js(2)] by simp_all
  have "resolve_cell fo c ws (map PInt ks) (PDict p) = Inr (reduced (policy_text p ''op'') ks)" if "1 < length ks" for ws ks
    using reduce_ints [OF that p(3), of fo] p(2) by (auto simp: resolve_cell_def POLICIES_def)
  then show ?thesis using lens p(1,4) js reduced_perm [OF js(2)] writers_values_length [of c ps] writers_values_length [of c qs]
    by (simp add: cell_result_def)
qed




text \<open>A barrier is not enforced when one writer is alone: the cell is taken from that writer before any policy is read, so a cell gated
  on several writers is decided from the partial input the barrier is there to refuse.\<close>

theorem barrier_ignored_for_single_writer:
  assumes "patches_ok ps" "1 < length ps" "cell_writers c ps = [w]" "cell_values c ps = [v]"
    and "pget policies c = PDict [(''policy'', PStr ''barrier''), (''writers'', PList [PStr w, PStr w'])]" "w' \<noteq> w"
    and "merge_state fo s ps policies = (None, s')"
  shows "dget s' c = Some v \<and> resolve_cell fo c [w] [v] (pget policies c) = Inl (Barrier_missing c [w'])"
proof
  have "\<forall>d. cell_writers d ps \<noteq> [] \<longrightarrow> (\<exists>v. cell_result fo ps policies d = Inr v)"
    using merge_state_conflict [OF assms(1,2), of _ fo policies _ s] assms(7) by (metis option.distinct(1) prod.inject sum.exhaust)
  then show "dget s' c = Some v"
    using merge_state_ok [OF assms(1,2), of fo policies s] assms(3,4,7) by (fastforce simp: cell_result_def)
  show "resolve_cell fo c [w] [v] (pget policies c) = Inl (Barrier_missing c [w'])"
    using assms(5,6) by (simp add: resolve_cell_def policy_text_def pget_def dget_or_def POLICIES_def py_iter_def Let_def)
qed

theorem barrier_ignored_for_single_writer_witness:
  "\<exists>s'. merge_state no_floats [] [(''a'', [(''n'', PInt 1)]), (''b'', [])]
      [(''n'', PDict [(''policy'', PStr ''barrier''), (''writers'', PList [PStr ''a'', PStr ''b''])])] = (None, s') \<and> dget s' ''n'' = Some (PInt 1)"
proof -
  let ?ps = "[(''a'', [(''n'', PInt 1)]), (''b'', [])]"
  let ?pol = "[(''n'', PDict [(''policy'', PStr ''barrier''), (''writers'', PList [PStr ''a'', PStr ''b''])])]"
  have "merge_state no_floats [] ?ps ?pol = (None, [(''n'', PInt 1)])"
    by (simp add: merge_state_def cells_by_writer_def merge_cells.simps(2) cell_values_def dget_or_def)
  moreover have "patches_ok ?ps" "cell_writers ''n'' ?ps = [''a'']" "cell_values ''n'' ?ps = [PInt 1]"
      "pget ?pol ''n'' = PDict [(''policy'', PStr ''barrier''), (''writers'', PList [PStr ''a'', PStr ''b''])]"
    by (simp_all add: patches_ok_def cell_writers_def cell_values_def pget_def dget_or_def)
  ultimately show ?thesis using barrier_ignored_for_single_writer [of ?ps "''n''" "''a''" "PInt 1" ?pol "''b''" no_floats "[]" "[(''n'', PInt 1)]"] by simp
qed

text \<open>The reducer \<^verbatim>\<open>sum\<close> is the operator \<^verbatim>\<open>+\<close>, which concatenates texts and lists: there the merged value depends on the order of the
  branches, which the table of commutative reducers is meant to exclude.\<close>

theorem sum_of_texts_depends_on_order:
  "snd (merge_state fo [] [(''a'', [(''t'', PStr x)]), (''b'', [(''t'', PStr y)])] [(''t'', PDict [(''policy'', PStr ''reduce''), (''op'', PStr ''sum'')])])
     = [(''t'', PStr (x @ y))]
   \<and> snd (merge_state fo [] [(''b'', [(''t'', PStr y)]), (''a'', [(''t'', PStr x)])] [(''t'', PDict [(''policy'', PStr ''reduce''), (''op'', PStr ''sum'')])])
     = [(''t'', PStr (y @ x))]"
  by (simp add: merge_state_def cells_by_writer_def merge_cells.simps(2) cell_values_def dget_or_def resolve_cell_def policy_text_def pget_def
      POLICIES_def reducer_def py_add_def float_operands_def)

end
