(* ===== verification/Flow_Graph.thy ===== *)
theory Flow_Graph
  imports State_Merge Retry_Policy
begin

text \<open>
  The graph of a flow: edges and fan-out groups with their joins (\<^verbatim>\<open>runtime/flow_engine/fan_out.py\<close>), the successors of a node
  (\<^verbatim>\<open>node_executor.py\<close>), named predicates (\<^verbatim>\<open>registry.py\<close>), the signature of the shape (\<^verbatim>\<open>graph_signature.py\<close>) and the flow a plan is
  compiled to (\<^verbatim>\<open>entrypoints.py\<close>).
\<close>


section \<open>Fan-out groups\<close>

record FanOutEdgeGroup =
  fg_targets :: "string list"
  fg_join :: string
  fg_quorum :: "int option"

definition JOIN_POLICIES :: "string list" where
  "JOIN_POLICIES = [''all'', ''any'', ''quorum'']"

text \<open>The constructor; \<open>join\<close> is the text given, empty when none is.\<close>

definition new_FanOutEdgeGroup :: "string list \<Rightarrow> string \<Rightarrow> int option \<Rightarrow> py_exc + FanOutEdgeGroup" where
  "new_FanOutEdgeGroup targets join quorum =
     (let j = py_lower (py_strip (if join = [] then ''all'' else join))
      in if length targets < 2 then Inl (ValueError ''FanOutEdgeGroup needs at least two targets'')
         else if length (remdups targets) \<noteq> length targets then Inl (ValueError ''FanOutEdgeGroup has duplicate targets'')
         else if j \<notin> set JOIN_POLICIES then Inl (ValueError ''FanOutEdgeGroup join'')
         else if j = ''quorum'' \<and> (case quorum of None \<Rightarrow> True | Some k \<Rightarrow> \<not> (1 \<le> k \<and> k \<le> int (length targets)))
              then Inl (ValueError ''FanOutEdgeGroup quorum'')
         else if j \<noteq> ''quorum'' \<and> quorum \<noteq> None then Inl (ValueError ''FanOutEdgeGroup quorum'')
         else Inr \<lparr>fg_targets = targets, fg_join = j, fg_quorum = quorum\<rparr>)"

definition required_successes :: "FanOutEdgeGroup \<Rightarrow> int" where
  "required_successes g =
     (if fg_join g = ''any'' then 1
      else if fg_join g = ''quorum'' then (case fg_quorum g of None \<Rightarrow> 0 | Some k \<Rightarrow> k)
      else int (length (fg_targets g)))"

definition join_label :: "FanOutEdgeGroup \<Rightarrow> string" where
  "join_label g =
     (if fg_join g = ''quorum'' then ''quorum:'' @ (case fg_quorum g of None \<Rightarrow> ''None'' | Some k \<Rightarrow> dec_int k) else fg_join g)"

record JoinOutcome =
  jo_join :: string
  jo_required :: int
  jo_succeeded :: "string list"
  jo_failed :: "string list"

definition satisfied :: "JoinOutcome \<Rightarrow> bool" where
  "satisfied j \<longleftrightarrow> jo_required j \<le> int (length (jo_succeeded j))"

definition join_partial :: "JoinOutcome \<Rightarrow> bool" where
  "join_partial j \<longleftrightarrow> satisfied j \<and> jo_failed j \<noteq> []"

definition resolve_join :: "FanOutEdgeGroup \<Rightarrow> string dict \<Rightarrow> JoinOutcome" where
  "resolve_join g statuses =
     \<lparr>jo_join = join_label g, jo_required = required_successes g,
      jo_succeeded = filter (\<lambda>t. dget statuses t = Some ''SUCCESS'') (fg_targets g),
      jo_failed = filter (\<lambda>t. dget statuses t \<noteq> Some ''SUCCESS'') (fg_targets g)\<rparr>"


section \<open>Edges and flows\<close>

text \<open>
  An edge is a node name, a dictionary with a target and a gate (a callable, a predicate's name, both or neither), or
  a group. The edges of a node are a list, or a group by itself.
\<close>

type_synonym predicate = "payload \<Rightarrow> py_exc + bool"

datatype flow_edge = Bare string | Gated "string option" "predicate option" "string option" | Group FanOutEdgeGroup
datatype edge_spec = Edge_list "flow_edge list" | Edge_group FanOutEdgeGroup

record flow =
  fl_start :: string
  fl_end :: "string list"
  fl_edges :: "edge_spec dict"
  fl_max_retries :: "int dict"
  fl_policies :: "pyval dict"

text \<open>The successor an edge names: a node, or the group itself where the code takes the first edge of a list as it is.\<close>

datatype successor = To string | To_group FanOutEdgeGroup

definition edges_of :: "string \<Rightarrow> flow \<Rightarrow> edge_spec" where
  "edges_of node f = dget_or (fl_edges f) node (Edge_list [])"

definition resolve_predicate :: "predicate dict \<Rightarrow> string \<Rightarrow> py_exc + predicate" where
  "resolve_predicate preds name =
     (case dget preds name of None \<Rightarrow> Inl (KeyError (''predicate '' @ name @ '' is not registered'')) | Some p \<Rightarrow> Inr p)"

text \<open>A bare name among gated edges is a text: \<^verbatim>\<open>"condition" in edge\<close> is a search in it, and indexing or \<^verbatim>\<open>get\<close> raises.\<close>

definition edge_predicate :: "predicate dict \<Rightarrow> flow_edge \<Rightarrow> py_exc + predicate" where
  "edge_predicate preds edge =
     (case edge of
        Gated t (Some c) (Some w) \<Rightarrow> Inl (ValueError ''edge declares both condition and when'')
      | Gated t None (Some w) \<Rightarrow> resolve_predicate preds w
      | Gated t (Some c) None \<Rightarrow> Inr c
      | Gated t None None \<Rightarrow> Inl (ValueError ''edge has neither condition nor when'')
      | Bare s \<Rightarrow>
          if py_in ''condition'' s \<longleftrightarrow> py_in ''when'' s then Inl (AttributeError ''str'') else Inl (TypeError ''str'')
      | Group g \<Rightarrow> Inl (TypeError ''FanOutEdgeGroup''))"

fun first_match :: "predicate dict \<Rightarrow> payload \<Rightarrow> flow_edge list \<Rightarrow> py_exc + successor option" where
  "first_match preds state [] = Inr None"
| "first_match preds state (edge # rest) =
     bind_result (edge_predicate preds edge) (\<lambda>p.
     bind_result (p state) (\<lambda>b.
       if b then (case edge of Gated (Some t) c w \<Rightarrow> Inr (Some (To t)) | _ \<Rightarrow> Inl (KeyError ''target''))
       else first_match preds state rest))"

definition resolve_next_node :: "predicate dict \<Rightarrow> string \<Rightarrow> payload \<Rightarrow> flow \<Rightarrow> py_exc + successor option" where
  "resolve_next_node preds node state f =
     (case edges_of node f of
        Edge_group g \<Rightarrow> Inl (TypeError ''FanOutEdgeGroup'')
      | Edge_list [] \<Rightarrow> Inr None
      | Edge_list (Gated t c w # rest) \<Rightarrow> first_match preds state (Gated t c w # rest)
      | Edge_list (Bare s # rest) \<Rightarrow> Inr (Some (To s))
      | Edge_list (Group g # rest) \<Rightarrow> Inr (Some (To_group g)))"

definition group_in :: "flow_edge list \<Rightarrow> FanOutEdgeGroup option" where
  "group_in es = (case List.map_filter (\<lambda>e. case e of Group g \<Rightarrow> Some g | _ \<Rightarrow> None) es of [] \<Rightarrow> None | g # _ \<Rightarrow> Some g)"

definition fan_out_group_for :: "string \<Rightarrow> flow \<Rightarrow> FanOutEdgeGroup option" where
  "fan_out_group_for node f = (case edges_of node f of Edge_group g \<Rightarrow> Some g | Edge_list es \<Rightarrow> group_in es)"

definition resolve_frontier :: "predicate dict \<Rightarrow> string \<Rightarrow> payload \<Rightarrow> flow \<Rightarrow> py_exc + string list" where
  "resolve_frontier preds node state f =
     (case fan_out_group_for node f of
        Some g \<Rightarrow>
          (case edges_of node f of
             Edge_list es \<Rightarrow> if length es \<noteq> 1 then Inl (ValueError ''FanOutEdgeGroup alongside other edges'') else Inr (fg_targets g)
           | Edge_group _ \<Rightarrow> Inr (fg_targets g))
      | None \<Rightarrow> bind_result (resolve_next_node preds node state f) (\<lambda>n.
          Inr (case n of Some (To t) \<Rightarrow> [t] | _ \<Rightarrow> [])))"


section \<open>Plans\<close>

definition compile_plan_to_flow :: "string list \<Rightarrow> py_exc + flow" where
  "compile_plan_to_flow steps =
     (if steps = [] then Inl (ValueError ''Plan must have at least one step'')
      else Inr \<lparr>fl_start = hd steps, fl_end = [last steps],
        fl_edges = fold (\<lambda>i d. dset (steps ! i) (Edge_list [Bare (steps ! (i + 1))]) d) [0..<length steps - 1] [],
        fl_max_retries = [], fl_policies = []\<rparr>)"


section \<open>The signature of a shape\<close>

definition SIGNATURE_VERSION :: int where
  "SIGNATURE_VERSION = 1"

definition canonical_edge :: "flow_edge \<Rightarrow> pyval" where
  "canonical_edge edge =
     (case edge of
        Group g \<Rightarrow>
          PDict ([(''fan_out'', PList (map PStr (fg_targets g)))] @
            (if fg_join g = [] \<or> fg_join g = ''all'' then []
             else [(''join'', PStr (fg_join g))] @ (case fg_quorum g of None \<Rightarrow> [] | Some k \<Rightarrow> [(''quorum'', PInt k)])))
      | Gated t c (Some w) \<Rightarrow> PDict [(''target'', PStr (case t of None \<Rightarrow> [] | Some s \<Rightarrow> s)), (''when'', PStr w)]
      | Gated t c None \<Rightarrow> PDict [(''target'', PStr (case t of None \<Rightarrow> [] | Some s \<Rightarrow> s)), (''gated'', PBool True)]
      | Bare s \<Rightarrow> PStr s)"

definition canonical_edges :: "edge_spec dict \<Rightarrow> pyval" where
  "canonical_edges edges =
     PDict (map (\<lambda>source. (source, PList (map canonical_edge
         (case dget edges source of Some (Edge_list es) \<Rightarrow> es | Some (Edge_group g) \<Rightarrow> [Group g] | None \<Rightarrow> []))))
       (sort (dkeys edges)))"

definition canonical_flow :: "flow \<Rightarrow> pyval" where
  "canonical_flow f =
     PDict [(''v'', PInt SIGNATURE_VERSION), (''start'', PStr (fl_start f)), (''end'', PList (map PStr (sort (fl_end f)))),
       (''edges'', canonical_edges (fl_edges f))]"

text \<open>\<open>sha256\<close> is the hexadecimal digest of a text.\<close>

definition flow_topology_signature :: "(string \<Rightarrow> string) \<Rightarrow> flow \<Rightarrow> string" where
  "flow_topology_signature sha256 f = sha256 (json_text (canonical_flow f))"

definition signatures_conflict :: "string option \<Rightarrow> string option \<Rightarrow> bool" where
  "signatures_conflict recorded current \<longleftrightarrow>
     recorded \<noteq> None \<and> recorded \<noteq> Some [] \<and> current \<noteq> None \<and> current \<noteq> Some [] \<and> recorded \<noteq> current"



section \<open>Equal signatures, equal routing\<close>

definition group_ok :: "FanOutEdgeGroup \<Rightarrow> bool" where
  "group_ok g \<longleftrightarrow> (\<exists>join quorum. new_FanOutEdgeGroup (fg_targets g) join quorum = Inr g)"

fun edge_named :: "flow_edge \<Rightarrow> bool" where
  "edge_named (Bare s) = True"
| "edge_named (Gated t c w) = (t \<noteq> None \<and> c = None \<and> w \<noteq> None)"
| "edge_named (Group g) = group_ok g"

definition spec_list :: "edge_spec \<Rightarrow> flow_edge list" where
  "spec_list es = (case es of Edge_list l \<Rightarrow> l | Edge_group g \<Rightarrow> [Group g])"

text \<open>A flow whose decisions are data: every gate is a named predicate and every group came from the constructor.\<close>

definition flow_named :: "flow \<Rightarrow> bool" where
  "flow_named f \<longleftrightarrow> distinct (dkeys (fl_edges f)) \<and> (\<forall>(k, es) \<in> set (fl_edges f). list_all edge_named (spec_list es))"

lemma map_PStr_eq [simp]: "map PStr xs = map PStr ys \<longleftrightarrow> xs = ys"
  by (simp add: inj_def)

lemma group_ok_shape:
  assumes "group_ok g"
  shows "fg_join g \<in> {''all'', ''any'', ''quorum''} \<and> (fg_join g = ''quorum'' \<longleftrightarrow> fg_quorum g \<noteq> None)"
proof -
  obtain join quorum where mk: "new_FanOutEdgeGroup (fg_targets g) join quorum = Inr g" using assms by (auto simp: group_ok_def)
  obtain j where j: "j = py_lower (py_strip (if join = [] then ''all'' else join))" by blast
  from mk have "j \<in> set JOIN_POLICIES \<and> (j = ''quorum'' \<longleftrightarrow> quorum \<noteq> None) \<and> g = \<lparr>fg_targets = fg_targets g, fg_join = j, fg_quorum = quorum\<rparr>"
    unfolding new_FanOutEdgeGroup_def Let_def j [symmetric] by (simp split: if_split_asm option.splits)
  then have "j \<in> set JOIN_POLICIES" "j = ''quorum'' \<longleftrightarrow> quorum \<noteq> None" "fg_join g = j" "fg_quorum g = quorum"
    by (auto dest: arg_cong [of _ _ fg_join] arg_cong [of _ _ fg_quorum])
  then show ?thesis by (simp add: JOIN_POLICIES_def)
qed

lemma canonical_group:
  assumes "group_ok g"
  shows "canonical_edge (Group g) = PDict ((''fan_out'', PList (map PStr (fg_targets g))) #
     (if fg_join g = ''all'' then [] else (''join'', PStr (fg_join g)) # (case fg_quorum g of None \<Rightarrow> [] | Some k \<Rightarrow> [(''quorum'', PInt k)])))"
proof -
  have "fg_join g \<noteq> []" using group_ok_shape [OF assms] by auto
  then show ?thesis by (simp add: canonical_edge_def)
qed

lemma canonical_group_inj:
  assumes "group_ok g" "group_ok h" "canonical_edge (Group g) = canonical_edge (Group h)"
  shows "g = h"
proof -
  have eq: "fg_targets g = fg_targets h" "(fg_join g = ''all'') = (fg_join h = ''all'')"
      "fg_join g \<noteq> ''all'' \<Longrightarrow> fg_join g = fg_join h \<and> (case fg_quorum g of None \<Rightarrow> [] | Some k \<Rightarrow> [(''quorum'', PInt k)])
         = (case fg_quorum h of None \<Rightarrow> [] | Some k \<Rightarrow> [(''quorum'', PInt k)])"
    using assms(3) unfolding canonical_group [OF assms(1)] canonical_group [OF assms(2)] by (simp_all split: if_splits)
  have "fg_join g = fg_join h" using eq(2,3) by metis
  moreover have "fg_quorum g = fg_quorum h"
  proof (cases "fg_join g = ''all''")
    case True
    then have "fg_quorum g = None" "fg_quorum h = None"
      using eq(2) group_ok_shape [OF assms(1)] group_ok_shape [OF assms(2)] by simp_all
    then show ?thesis by simp
  next
    case False
    then show ?thesis using eq(3) by (simp split: option.splits)
  qed
  ultimately show ?thesis using eq(1) by simp
qed

lemma canonical_edge_inj: "edge_named a \<Longrightarrow> edge_named b \<Longrightarrow> canonical_edge a = canonical_edge b \<Longrightarrow> a = b"
proof (cases a; cases b)
  fix g h assume "edge_named a" "edge_named b" "canonical_edge a = canonical_edge b" "a = Group g" "b = Group h"
  then show "a = b" using canonical_group_inj by simp
qed (auto simp: canonical_edge_def split: if_splits option.splits)

lemma canonical_list_inj:
  "list_all edge_named xs \<Longrightarrow> list_all edge_named ys \<Longrightarrow> map canonical_edge xs = map canonical_edge ys \<Longrightarrow> xs = ys"
proof (induction xs arbitrary: ys)
  case (Cons x xs)
  then show ?case using canonical_edge_inj by (cases ys) auto
qed simp

lemma frontier_spec_list:
  assumes "spec_list (edges_of node f) = spec_list (edges_of node g)"
  shows "resolve_frontier preds node state f = resolve_frontier preds node state g"
proof -
  have "resolve_frontier preds node state h =
      (case group_in (spec_list (edges_of node h)) of
         Some gr \<Rightarrow> if length (spec_list (edges_of node h)) \<noteq> 1 then Inl (ValueError ''FanOutEdgeGroup alongside other edges'') else Inr (fg_targets gr)
       | None \<Rightarrow> bind_result
           (case spec_list (edges_of node h) of [] \<Rightarrow> Inr None
            | Gated t c w # rest \<Rightarrow> first_match preds state (Gated t c w # rest) | Bare s # rest \<Rightarrow> Inr (Some (To s)) | Group g # rest \<Rightarrow> Inr (Some (To_group g)))
           (\<lambda>n. Inr (case n of Some (To t) \<Rightarrow> [t] | _ \<Rightarrow> [])))" for h
    by (cases "edges_of node h")
      (auto simp: resolve_frontier_def fan_out_group_for_def spec_list_def resolve_next_node_def group_in_def split: option.splits list.splits flow_edge.splits)
  from this [of f] this [of g] show ?thesis unfolding assms by simp
qed

lemma canonical_edges_spec:
  assumes "flow_named f" "flow_named g" "canonical_edges (fl_edges f) = canonical_edges (fl_edges g)"
  shows "spec_list (edges_of node f) = spec_list (edges_of node g)"
proof -
  let ?c = "\<lambda>edges source. PList (map canonical_edge (spec_list (dget_or edges source (Edge_list []))))"
  have canon: "canonical_edges edges = PDict (map (\<lambda>s. (s, ?c edges s)) (sort (dkeys edges)))" for edges
    by (auto simp: canonical_edges_def spec_list_def dget_or_def split: option.splits edge_spec.splits)
  have eq: "map (\<lambda>s. (s, ?c (fl_edges f) s)) (sort (dkeys (fl_edges f))) = map (\<lambda>s. (s, ?c (fl_edges g) s)) (sort (dkeys (fl_edges g)))"
    using assms(3) unfolding canon by simp
  from arg_cong [OF eq, of "map fst"] have keys: "sort (dkeys (fl_edges f)) = sort (dkeys (fl_edges g))" by (simp add: comp_def)
  have named: "list_all edge_named (spec_list (dget_or (fl_edges h) node (Edge_list [])))" if "flow_named h" for h
    using that by (auto simp: flow_named_def dget_or_def spec_list_def dest!: map_of_SomeD split: option.splits)
  show ?thesis
  proof (cases "node \<in> set (dkeys (fl_edges f))")
    case True
    then have "node \<in> set (sort (dkeys (fl_edges g)))" unfolding keys [symmetric] by simp
    then have "?c (fl_edges f) node = ?c (fl_edges g) node" using eq unfolding keys map_eq_conv by blast
    then show ?thesis using canonical_list_inj [OF named [OF assms(1)] named [OF assms(2)]] by (simp add: edges_of_def)
  next
    case False
    then have "node \<notin> set (dkeys (fl_edges g))" using arg_cong [OF keys, of set] by simp
    then show ?thesis using False by (simp add: edges_of_def dget_or_def map_of_eq_None_iff [THEN iffD2])
  qed
qed



definition sample_group :: FanOutEdgeGroup where
  "sample_group = \<lparr>fg_targets = [''b'', ''c''], fg_join = ''any'', fg_quorum = None\<rparr>"

definition sample_flow :: "edge_spec \<Rightarrow> flow" where
  "sample_flow es = \<lparr>fl_start = ''a'', fl_end = [''d''],
     fl_edges = [(''a'', es), (''b'', Edge_list [Gated (Some ''d'') None (Some ''default'')]), (''c'', Edge_list [Bare ''d''])],
     fl_max_retries = [], fl_policies = []\<rparr>"

lemma sample_group_ok: "group_ok sample_group"
proof -
  have "new_FanOutEdgeGroup (fg_targets sample_group) ''any'' None = Inr sample_group"
    by (simp add: new_FanOutEdgeGroup_def sample_group_def JOIN_POLICIES_def Let_def py_lower_def lower_char_def code_def py_strip_def
        py_strip_chars_def py_lstrip_chars_def py_rstrip_chars_def is_space_def)
  then show ?thesis unfolding group_ok_def by blast
qed



section \<open>The flow of a plan\<close>

lemma plan_edges:
  "n < length steps \<Longrightarrow> dget (fold (\<lambda>i d. dset (steps ! i) (Edge_list [Bare (steps ! (i + 1))]) d) [0..<n] []) k =
     (case filter (\<lambda>i. steps ! i = k) [0..<n] of [] \<Rightarrow> None | is \<Rightarrow> Some (Edge_list [Bare (steps ! (last is + 1))]))"
  by (induction n) (auto split: list.splits)

lemma filter_eq_upt: "filter (\<lambda>j. j = i) [0..<n] = (if i < n then [i] else [])"
  by (induction n) auto

text \<open>The flow of a plan: it starts at the first step and ends at the last, and from a step it goes on to the step after the
  last occurrence of that step in the plan. A plan without repetitions is therefore run in its order; a step that
  occurs twice sends the run past everything in between.\<close>

theorem plan_successor:
  assumes "compile_plan_to_flow steps = Inr f"
  shows "fl_start f = hd steps \<and> fl_end f = [last steps]
    \<and> (\<forall>preds state s. resolve_frontier preds s state f =
         Inr (case filter (\<lambda>i. steps ! i = s) [0..<length steps - 1] of [] \<Rightarrow> [] | is \<Rightarrow> [steps ! (last is + 1)]))
    \<and> (distinct steps \<longrightarrow> (\<forall>i preds state. i + 1 < length steps \<longrightarrow> resolve_frontier preds (steps ! i) state f = Inr [steps ! (i + 1)]))"
proof -
  have ne: "steps \<noteq> []" using assms by (auto simp: compile_plan_to_flow_def split: if_splits)
  have f: "fl_start f = hd steps" "fl_end f = [last steps]"
      "fl_edges f = fold (\<lambda>i d. dset (steps ! i) (Edge_list [Bare (steps ! (i + 1))]) d) [0..<length steps - 1] []"
    using assms by (auto simp: compile_plan_to_flow_def split: if_splits)
  have edges: "edges_of s f = (case filter (\<lambda>i. steps ! i = s) [0..<length steps - 1] of [] \<Rightarrow> Edge_list []
      | is \<Rightarrow> Edge_list [Bare (steps ! (last is + 1))])" for s
    using plan_edges [of "length steps - 1" steps s] ne by (auto simp: edges_of_def dget_or_def f(3) split: list.splits)
  have front: "resolve_frontier preds s state f =
      Inr (case filter (\<lambda>i. steps ! i = s) [0..<length steps - 1] of [] \<Rightarrow> [] | is \<Rightarrow> [steps ! (last is + 1)])" for preds s state
    by (cases "filter (\<lambda>i. steps ! i = s) [0..<length steps - 1]")
      (simp_all add: resolve_frontier_def fan_out_group_for_def group_in_def edges resolve_next_node_def)
  have one: "filter (\<lambda>j. steps ! j = steps ! i) [0..<length steps - 1] = [i]" if "distinct steps" "i + 1 < length steps" for i
  proof -
    have "filter (\<lambda>j. steps ! j = steps ! i) [0..<length steps - 1] = filter (\<lambda>j. j = i) [0..<length steps - 1]"
      using that by (intro filter_cong) (auto simp: nth_eq_iff_index_eq)
    also have "\<dots> = [i]" using that by (simp add: filter_eq_upt)
    finally show ?thesis .
  qed
  show ?thesis using f(1,2) front one by simp
qed


theorem plan_successor_witness:
  "\<exists>f. compile_plan_to_flow [''read'', ''check'', ''read'', ''store''] = Inr f \<and> resolve_frontier [] ''read'' [] f = Inr [''store'']"
proof -
  obtain f where f: "compile_plan_to_flow [''read'', ''check'', ''read'', ''store''] = Inr f" by (simp add: compile_plan_to_flow_def)
  show ?thesis using plan_successor [OF f] f by (simp add: upt_rec numeral_eq_Suc)
qed

end
