(* ===== verification/Flow_Runner.thy ===== *)
theory Flow_Runner
  imports Flow_Graph
begin

text \<open>
  The runner of flows (\<^verbatim>\<open>runtime/flow_engine/runner.py\<close>, \<^verbatim>\<open>runner_steps.py\<close>, \<^verbatim>\<open>runner_completion.py\<close>, \<^verbatim>\<open>runner_failure.py\<close>, \<^verbatim>\<open>node_executor.py\<close>, \<^verbatim>\<open>fan_out.py\<close>,
  \<^verbatim>\<open>serialization.py\<close>), the typed requests of a wait (\<^verbatim>\<open>core/pending_request.py\<close>) and the fold of the history
  (\<^verbatim>\<open>core/flow_history_fold.py\<close>). Node functions return patches and leave the state they are given as it is; what a node
  answers, the admission, the quota and the events that can be written are arguments, by the number of the
  iteration. Calls to the resource manager, the unit service and the scheduler are kept in order. The texts of
  exceptions are shortened to what names the cause; commits succeed.
\<close>


section \<open>Rows, history and serialization\<close>

text \<open>\<^verbatim>\<open>_json_safe\<close>; the text of a date with the separator of \<^verbatim>\<open>isoformat\<close>.\<close>

fun json_safe :: "pyval \<Rightarrow> pyval" where
  "json_safe (PUuid n) = PStr (uuid_str n)"
| "json_safe (PObj c t) =
     (if c \<in> set [''datetime'', ''date''] then PStr (map (\<lambda>x. if x = CHR '' '' then CHR ''T'' else x) t) else PObj c t)"
| "json_safe (PDict d) = PDict (map (\<lambda>(k, v). (k, json_safe v)) d)"
| "json_safe (PList xs) = PList (map json_safe xs)"
| "json_safe v = v"

definition safe_dict :: "payload \<Rightarrow> payload" where
  "safe_dict d = map (\<lambda>(k, v). (k, json_safe v)) d"

record flow_row =
  rw_status :: string
  rw_waiting_for :: "string option"
  rw_current_node :: string
  rw_state :: payload
  rw_error :: pyval
  rw_job_log_id :: pyval
  rw_signature :: "string option"

record FlowHistory =
  fh_node :: string
  fh_status :: string
  fh_input :: payload
  fh_patch :: pyval
  fh_error :: pyval
  fh_seq :: int

datatype flow_call =
    Mark_started | Mark_waiting | Mark_completed | Record_usage
  | Unit_status string | Unit_wait string | Unit_resume | Register_wait string | Event string

record flow_world =
  fw_row :: flow_row
  fw_history :: "FlowHistory list"
  fw_calls :: "flow_call list"
  fw_holds :: bool
  fw_attempts :: "int dict"
  fw_state :: payload

definition call :: "flow_call \<Rightarrow> flow_world \<Rightarrow> flow_world" where
  "call c w = w\<lparr>fw_calls := fw_calls w @ [c]\<rparr>"

text \<open>\<^verbatim>\<open>_allocate_sequence_numbers\<close>.\<close>

definition highest_sequence :: "FlowHistory list \<Rightarrow> int" where
  "highest_sequence hs = fold (\<lambda>h m. max (fh_seq h) m) hs 0"

definition allocate_sequence_numbers :: "FlowHistory list \<Rightarrow> nat \<Rightarrow> int list" where
  "allocate_sequence_numbers hs n = map (\<lambda>i. highest_sequence hs + 1 + int i) [0..<n]"

text \<open>\<^verbatim>\<open>fold_flow_history_state\<close>.\<close>

definition FOLDED_STATUSES :: "string list" where
  "FOLDED_STATUSES = [''SUCCESS'', ''WAIT'']"

definition upper_char :: "char \<Rightarrow> char" where
  "upper_char c = (let n = code c in if 97 \<le> n \<and> n \<le> 122 then char_of (n - 32) else c)"

definition patch_dict :: "pyval \<Rightarrow> payload" where
  "patch_dict v = (case v of PDict d \<Rightarrow> d | _ \<Rightarrow> [])"

definition fold_flow_history_state :: "FlowHistory list \<Rightarrow> payload" where
  "fold_flow_history_state rows =
     (if rows = [] then []
      else let h = last rows
           in if map upper_char (fh_status h) \<in> set FOLDED_STATUSES then dict_update (fh_input h) (patch_dict (fh_patch h)) else fh_input h)"


section \<open>Surroundings\<close>

text \<open>
  \<open>fe_node n node state\<close> is what the function registered for the node answers in iteration \<open>n\<close>; \<open>fe_event n k\<close> tells whether the \<open>k\<close>-th event of
  the iteration can be written (a required event that cannot be written raises); \<open>fe_present\<close> whether the row is still
  there when it is read again; \<open>fe_order\<close> is the order in which the branches of a group happen to
  run; \<open>fe_unit\<close> tells whether the run has its execution unit, \<open>fe_parked\<close> whether a resuming runner finds it waiting.
\<close>

record flow_env =
  fe_node :: "nat \<Rightarrow> string \<Rightarrow> payload \<Rightarrow> py_exc + pyval"
  fe_registered :: "string list"
  fe_blocked :: "string list"
  fe_admit :: "nat \<Rightarrow> bool"
  fe_quota :: "nat \<Rightarrow> string option"
  fe_present :: "nat \<Rightarrow> nat \<Rightarrow> bool"
  fe_event :: "nat \<Rightarrow> nat \<Rightarrow> bool"
  fe_preds :: "predicate dict"
  fe_float :: float_ops
  fe_extract :: "payload \<Rightarrow> py_exc + pyval"
  fe_order :: "nat \<Rightarrow> string list \<Rightarrow> string list"
  fe_unit :: bool
  fe_parked :: bool

text \<open>What the runner answers: a response with its status, result and the branches a lenient join went past, or an exception that leaves \<^verbatim>\<open>resume\<close>.\<close>

datatype flow_response = Response string pyval "pyval list" | Escaped py_exc

fun exc_message :: "py_exc \<Rightarrow> string" where
  "exc_message (TypeError s) = s"
| "exc_message (AttributeError s) = s"
| "exc_message (ValueError s) = s"
| "exc_message (KeyError s) = repr_str s"
| "exc_message (PermissionError s) = s"
| "exc_message (RuntimeError s) = s"
| "exc_message (Other_exc c s) = s"


section \<open>Nodes\<close>

definition quoted :: "string \<Rightarrow> string" where
  "quoted s = CHR 0x27 # s @ [CHR 0x27]"

definition emission_error :: py_exc where
  "emission_error = Other_exc ''SystemEventEmissionError'' []"

text \<open>A function that does not answer a dictionary fails at the assignment of the time it took.\<close>

definition execute_node :: "flow_env \<Rightarrow> nat \<Rightarrow> string \<Rightarrow> payload \<Rightarrow> int dict \<Rightarrow> (py_exc + payload) \<times> int dict" where
  "execute_node e n node state attempts =
     (if node \<in> set (fe_blocked e) then (Inl (PermissionError (''Node '' @ quoted node @ '' is blocked by policy'')), attempts)
      else if node \<notin> set (fe_registered e) then (Inl (KeyError (''Node '' @ quoted node @ '' not in registry. Available: '' @ py_repr (PList (map PStr (fe_registered e))))), attempts)
      else (case fe_node e n node state of
              Inl x \<Rightarrow> Inl x
            | Inr (PDict r) \<Rightarrow> Inr r
            | Inr v \<Rightarrow> Inl (TypeError (type_name v)),
            dset node (dget_or attempts node 0 + 1) attempts))"

definition release_slot_on_completion :: "flow_world \<Rightarrow> flow_world" where
  "release_slot_on_completion w = (if fw_holds w then call Mark_completed (w\<lparr>fw_holds := False\<rparr>) else w)"

definition finalize_flow_unit :: "flow_env \<Rightarrow> string \<Rightarrow> flow_world \<Rightarrow> flow_world" where
  "finalize_flow_unit e status w = (if fe_unit e then call (Unit_status status) w else w)"

text \<open>\<^verbatim>\<open>fail_execution\<close>; the two events at its end are required and raise when they cannot be written.\<close>

definition fail_execution :: "flow_env \<Rightarrow> nat \<Rightarrow> pyval \<Rightarrow> flow_world \<Rightarrow> flow_response \<times> flow_world" where
  "fail_execution e n msg w =
     (let w1 = w\<lparr>fw_row := (fw_row w)\<lparr>rw_status := ''failed'', rw_waiting_for := None, rw_error := msg\<rparr>\<rparr>;
          w2 = release_slot_on_completion (finalize_flow_unit e ''failed'' w1)
      in if \<not> fe_event e n 4 then (Escaped emission_error, w2)
         else if \<not> fe_event e n 6 then (Escaped emission_error, call (Event ''execution.failed'') w2)
         else (Response ''FAILED'' msg [], call (Event ''error.execution'') (call (Event ''execution.failed'') w2)))"

definition park_execution_unit :: "flow_env \<Rightarrow> string \<Rightarrow> flow_world \<Rightarrow> flow_world" where
  "park_execution_unit e wait_for w = (if fe_unit e then call (Unit_wait wait_for) (call (Unit_status ''waiting'') w) else w)"

definition release_slot_on_wait :: "flow_env \<Rightarrow> string \<Rightarrow> flow_world \<Rightarrow> flow_world" where
  "release_slot_on_wait e wait_for w =
     (if fw_holds w then park_execution_unit e wait_for (call Mark_waiting (w\<lparr>fw_holds := False\<rparr>)) else w)"

text \<open>\<^verbatim>\<open>_check_resources\<close>: the final response, if any.\<close>

definition check_resources :: "flow_env \<Rightarrow> nat \<Rightarrow> string \<Rightarrow> flow_world \<Rightarrow> flow_response option \<times> flow_world" where
  "check_resources e n node w =
     (if \<not> fw_holds w \<and> \<not> fe_admit e n
      then let w1 = w\<lparr>fw_row := (fw_row w)\<lparr>rw_status := ''waiting'', rw_waiting_for := Some ''resource_available'', rw_current_node := node,
                  rw_state := safe_dict (fw_state w)\<rparr>\<rparr>
           in (Some (Response ''WAITING'' (PStr ''resource_available'') []),
               call (Register_wait ''resource_available'') (park_execution_unit e ''resource_available'' w1))
      else let w1 = (if fw_holds w then w else call Mark_started (w\<lparr>fw_holds := True\<rparr>))
           in (case fe_quota e n of
                 None \<Rightarrow> (None, w1)
               | Some reason \<Rightarrow> map_prod Some id (fail_execution e n (PStr reason) w1)))"

definition execute_current_node :: "flow_env \<Rightarrow> nat \<Rightarrow> string \<Rightarrow> flow_world \<Rightarrow> (flow_response + payload) \<times> flow_world" where
  "execute_current_node e n node w =
     (case check_resources e n node w of
        (Some r, w1) \<Rightarrow> (Inl r, w1)
      | (None, w1) \<Rightarrow>
          (case execute_node e n node (fw_state w1) (fw_attempts w1) of
             (Inl x, a) \<Rightarrow>
               (if fe_event e n 1
                then map_prod Inl id (fail_execution e n (PStr (exc_message x)) (call (Event ''flow.node.failed'') (w1\<lparr>fw_attempts := a\<rparr>)))
                else (Inl (Escaped emission_error), w1\<lparr>fw_attempts := a\<rparr>))
           | (Inr r, a) \<Rightarrow> (Inr r, (if fe_unit e then call Record_usage else id) (w1\<lparr>fw_attempts := a\<rparr>))))"


section \<open>Waits and completion\<close>

definition PENDING_REQUEST_KEY :: string where "PENDING_REQUEST_KEY = ''__pending_request''"
definition RESUME_SCHEMA_KEY :: string where "RESUME_SCHEMA_KEY = ''resume_schema''"

definition build_pending_request :: "string \<Rightarrow> string \<Rightarrow> pyval \<Rightarrow> py_exc + pyval option" where
  "build_pending_request node event schema =
     (case schema of
        PNone \<Rightarrow> Inr None
      | PDict [] \<Rightarrow> Inr None
      | PDict d \<Rightarrow>
          (case filter (\<lambda>k. case dget d k of None \<Rightarrow> False | Some v \<Rightarrow> \<not> py_isinstance v T_list \<and> \<not> py_isinstance v T_dict)
                  [''required'', ''properties''] of
             k # _ \<Rightarrow> Inl (ValueError (''node '' @ repr_str node @ '' declared resume_schema['' @ repr_str k @ ''] of type '' @
                      repr_str (type_name (pget d k))))
           | [] \<Rightarrow> Inr (Some (PDict [(''node'', PStr node), (''event'', PStr event), (''schema'', PDict d)])))
      | v \<Rightarrow> Inl (ValueError (''node '' @ repr_str node @ '' declared resume_schema of type '' @ repr_str (type_name v))))"

definition handle_wait :: "flow_env \<Rightarrow> nat \<Rightarrow> string \<Rightarrow> payload \<Rightarrow> flow_world \<Rightarrow> flow_response \<times> flow_world" where
  "handle_wait e n node result w =
     (let wait_for = pget result ''wait_for''
      in if \<not> truthy wait_for then fail_execution e n (PStr (''Node '' @ node @ '' returned WAIT without wait_for'')) w
         else (case build_pending_request node (py_str wait_for) (pget result RESUME_SCHEMA_KEY) of
                 Inl x \<Rightarrow> fail_execution e n (PStr (exc_message x)) w
               | Inr pending \<Rightarrow>
                   let s = (case pending of Some p \<Rightarrow> dset PENDING_REQUEST_KEY p (fw_state w) | None \<Rightarrow> dpop PENDING_REQUEST_KEY (fw_state w));
                       w1 = w\<lparr>fw_state := s, fw_row := (fw_row w)\<lparr>rw_status := ''waiting'', rw_waiting_for := Some (py_str wait_for),
                             rw_current_node := node, rw_state := safe_dict s\<rparr>\<rparr>;
                       w2 = call (Register_wait (py_str wait_for)) (release_slot_on_wait e (py_str wait_for) w1)
                   in if fe_event e n 3 then (Response ''WAITING'' wait_for [], call (Event ''flow.waiting'') w2)
                      else (Escaped emission_error, w2)))"

text \<open>\<^verbatim>\<open>_extract_async_handoff\<close>: the status of an answer that hands the work on, and the job it names.\<close>

definition py_upper :: "string \<Rightarrow> string" where
  "py_upper = map upper_char"

definition text_or :: "pyval \<Rightarrow> string \<Rightarrow> string" where
  "text_or v d = (if truthy v then py_str v else d)"

definition handoff_job :: "payload \<Rightarrow> pyval" where
  "handoff_job response =
     (let data = patch_dict (pget response ''data'');
          nested = patch_dict (pget data ''result'')
      in if truthy (pget nested ''job_log_id'') then pget nested ''job_log_id''
         else if truthy (pget data ''job_log_id'') then pget data ''job_log_id'' else pget response ''job_log_id'')"

definition extract_async_handoff :: "pyval \<Rightarrow> (string \<times> pyval) option" where
  "extract_async_handoff result =
     (case result of
        PDict r \<Rightarrow>
          if pget r ''_http_status'' \<in> set [PInt 202, PFloat ''202.0''] \<and> py_isinstance (pget r ''_http_response'') T_dict
          then let response = patch_dict (pget r ''_http_response'')
               in Some (py_upper (text_or (pget response ''status'') ''QUEUED''), handoff_job response)
          else let status = py_upper (text_or (pget r ''status'') [])
               in if status \<in> set [''QUEUED'', ''DEFERRED''] then Some (status, handoff_job r) else None
      | _ \<Rightarrow> None)"

text \<open>\<^verbatim>\<open>_superstep_partial_units\<close>: the branches that failed under a lenient join.\<close>

definition SUPERSTEP_PARTIALS :: string where "SUPERSTEP_PARTIALS = ''_superstep_partials''"

fun failed_units :: "payload \<Rightarrow> pyval list \<Rightarrow> py_exc + pyval list" where
  "failed_units entry [] = Inr []"
| "failed_units entry (PDict b # rest) =
     bind_result (failed_units entry rest) (\<lambda>us. Inr (PDict [(''superstep'', pget entry ''superstep''), (''join'', pget entry ''join''),
       (''branch'', pget b ''branch''), (''error'', pget b ''error'')] # us))"
| "failed_units entry (v # rest) = Inl (AttributeError (type_name v))"

definition or_list :: "pyval \<Rightarrow> py_exc + pyval list" where
  "or_list v = py_iter (if truthy v then v else PList [])"

fun partial_units :: "pyval list \<Rightarrow> py_exc + pyval list" where
  "partial_units [] = Inr []"
| "partial_units (PDict d # rest) =
     bind_result (or_list (pget d ''failed'')) (\<lambda>bs. bind_result (failed_units d bs) (\<lambda>us.
     bind_result (partial_units rest) (\<lambda>vs. Inr (us @ vs))))"
| "partial_units (v # rest) = Inl (AttributeError (type_name v))"

definition superstep_partial_units :: "payload \<Rightarrow> py_exc + pyval list" where
  "superstep_partial_units state = bind_result (or_list (pget state SUPERSTEP_PARTIALS)) partial_units"

definition completion_failed :: "flow_env \<Rightarrow> nat \<Rightarrow> string \<Rightarrow> flow_world \<Rightarrow> flow_response option \<times> flow_world" where
  "completion_failed e n text w = map_prod Some id (fail_execution e n (PStr (''Completion finalization failed: '' @ text)) w)"

definition maybe_finalize_completion :: "flow_env \<Rightarrow> flow \<Rightarrow> nat \<Rightarrow> string \<Rightarrow> flow_world \<Rightarrow> flow_response option \<times> flow_world" where
  "maybe_finalize_completion e f n node w =
     (if node \<notin> set (fl_end f) then (None, w)
      else (case fe_extract e (fw_state w) of
        Inl x \<Rightarrow> completion_failed e n (exc_message x) w
      | Inr result \<Rightarrow>
          (case extract_async_handoff result of
             Some (status, job) \<Rightarrow>
               (Some (Response status result []),
                w\<lparr>fw_row := (fw_row w)\<lparr>rw_status := py_lower status, rw_state := safe_dict (fw_state w), rw_current_node := node,
                    rw_waiting_for := None, rw_job_log_id := (if truthy job then job else rw_job_log_id (fw_row w))\<rparr>\<rparr>)
           | None \<Rightarrow>
               let w1 = release_slot_on_completion (finalize_flow_unit e ''completed'' w);
                   w2 = w1\<lparr>fw_row := (fw_row w1)\<lparr>rw_status := ''success'', rw_state := safe_dict (fw_state w1), rw_waiting_for := None\<rparr>\<rparr>
               in (case superstep_partial_units (fw_state w2) of
                     Inl x \<Rightarrow> completion_failed e n (exc_message x) w2
                   | Inr units \<Rightarrow>
                       if fe_event e n 5 then (Some (Response ''SUCCESS'' result units), call (Event ''execution.completed'') w2)
                       else completion_failed e n (exc_message emission_error) w2))))"


section \<open>Steps\<close>

definition MERGED_STATUSES :: "string list" where
  "MERGED_STATUSES = [''SUCCESS'', ''WAIT'']"

definition retry_attempts_allowed :: "flow \<Rightarrow> string \<Rightarrow> int" where
  "retry_attempts_allowed f node = max_attempts (resolve_retry_policy (Some ''flow'') None (dget (fl_max_retries f) node) None)"

fun merge_exc :: "merge_error \<Rightarrow> py_exc" where
  "merge_exc (Merge_raised x) = x"
| "merge_exc (Undeclared cell writers) = Other_exc ''StateMergeConflict'' cell"
| "merge_exc (Unknown_policy cell name) = Other_exc ''StateMergeConflict'' cell"
| "merge_exc (Unknown_reducer cell name) = Other_exc ''StateMergeConflict'' cell"
| "merge_exc (Barrier_unnamed cell) = Other_exc ''StateMergeConflict'' cell"
| "merge_exc (Barrier_missing cell writers) = Other_exc ''StateMergeConflict'' cell"

text \<open>The patches that land: those of the nodes with a merged status; what is neither a dictionary nor empty cannot be merged.\<close>

fun landed :: "(string \<times> pyval \<times> string) list \<Rightarrow> py_exc + (string \<times> payload) list" where
  "landed [] = Inr []"
| "landed ((node, patch, status) # rest) =
     (if status \<notin> set MERGED_STATUSES then landed rest
      else if truthy patch \<and> \<not> py_isinstance patch T_dict then Inl (TypeError (type_name patch))
      else bind_result (landed rest) (\<lambda>ps. Inr ((node, patch_dict patch) # ps)))"

definition merge_superstep :: "flow_env \<Rightarrow> flow \<Rightarrow> payload \<Rightarrow> (string \<times> pyval \<times> string) list \<Rightarrow> py_exc option \<times> payload" where
  "merge_superstep e f state outcomes =
     (case landed outcomes of
        Inl x \<Rightarrow> (Some x, state)
      | Inr ps \<Rightarrow> map_prod (map_option merge_exc) id (merge_state (fe_float e) state ps (fl_policies f)))"

text \<open>The row of the history; its status is a text and not null.\<close>

definition status_text :: "pyval \<Rightarrow> py_exc + string" where
  "status_text v = (case v of PStr s \<Rightarrow> Inr s | _ \<Rightarrow> Inl (Other_exc ''StatementError'' (type_name v)))"

definition record_history :: "string \<Rightarrow> string \<Rightarrow> payload \<Rightarrow> pyval \<Rightarrow> pyval \<Rightarrow> int \<Rightarrow> FlowHistory" where
  "record_history node status snapshot patch err seq =
     \<lparr>fh_node = node, fh_status = status, fh_input = safe_dict snapshot, fh_patch = json_safe patch, fh_error = err, fh_seq = seq\<rparr>"

datatype node_verdict = Final flow_response | Retry_node | Go_on

definition handle_node_status :: "flow_env \<Rightarrow> flow \<Rightarrow> nat \<Rightarrow> string \<Rightarrow> payload \<Rightarrow> string \<Rightarrow> flow_world \<Rightarrow> node_verdict \<times> flow_world" where
  "handle_node_status e f n node result status w =
     (if status = ''RETRY'' then
        (let attempts = dget_or (fw_attempts w) node 0
         in if fst (decide_retry (PDict result) ''flow_node'' attempts (attempts < retry_attempts_allowed f node)) then (Retry_node, w)
            else map_prod Final id (fail_execution e n (PStr (''Node '' @ node @ '' failed after '' @ py_str (PInt attempts) @ '' retries'')) w))
      else if status = ''FAILURE'' then
        map_prod Final id (fail_execution e n (dget_or result ''error'' (PStr (''Node '' @ node @ '' failed''))) w)
      else if status = ''WAIT'' then map_prod Final id (handle_wait e n node result w)
      else
        (let w1 = (if status = ''SUCCESS'' then w\<lparr>fw_state := dpop PENDING_REQUEST_KEY (fw_state w)\<rparr> else w)
         in map_prod (\<lambda>r. case r of None \<Rightarrow> Go_on | Some x \<Rightarrow> Final x) id (maybe_finalize_completion e f n node w1)))"

section \<open>Supersteps\<close>

text \<open>
  The branches run on the shared pool in some order and their answers are read in the order of declaration. A branch that
  raises answers nothing but its error.
\<close>

fun run_in_order :: "flow_env \<Rightarrow> nat \<Rightarrow> payload \<Rightarrow> string list \<Rightarrow> int dict \<Rightarrow> (py_exc + payload) dict \<times> int dict" where
  "run_in_order e n state [] attempts = ([], attempts)"
| "run_in_order e n state (node # rest) attempts =
     (let (r, a) = execute_node e n node state attempts; (rs, b) = run_in_order e n state rest a in ((node, r) # rs, b))"

definition run_fan_out_branches :: "flow_env \<Rightarrow> nat \<Rightarrow> string list \<Rightarrow> payload \<Rightarrow> int dict \<Rightarrow> (string \<times> (py_exc + payload)) list \<times> int dict" where
  "run_fan_out_branches e n targets state attempts =
     (let (rs, a) = run_in_order e n state (fe_order e n targets) attempts in (map (\<lambda>t. (t, the (dget rs t))) targets, a))"

text \<open>What a branch leaves: its result, or a failure in its place.\<close>

definition branch_result :: "py_exc + payload \<Rightarrow> payload" where
  "branch_result r =
     (case r of
        Inl x \<Rightarrow> [(''status'', PStr ''FAILURE''), (''error'', PStr (exc_message x))]
      | Inr d \<Rightarrow> d)"

definition branch_status :: "py_exc + payload \<Rightarrow> pyval" where
  "branch_status r = dget_or (branch_result r) ''status'' (PStr ''FAILURE'')"

definition branch_patch :: "py_exc + payload \<Rightarrow> pyval" where
  "branch_patch r = (let p = pget (branch_result r) ''output_patch'' in if truthy p then p else PDict [])"

definition branch_error :: "py_exc + payload \<Rightarrow> pyval" where
  "branch_error r =
     (let err = pget (branch_result r) ''error''
      in if truthy err then err else (case r of Inl x \<Rightarrow> PStr (exc_message x) | Inr _ \<Rightarrow> PNone))"

fun texts :: "pyval list \<Rightarrow> py_exc + string list" where
  "texts [] = Inr []"
| "texts (v # vs) = bind_result (status_text v) (\<lambda>s. bind_result (texts vs) (\<lambda>ss. Inr (s # ss)))"

definition branch_rows :: "FlowHistory list \<Rightarrow> payload \<Rightarrow> (string \<times> (py_exc + payload)) list \<Rightarrow> string list \<Rightarrow> FlowHistory list" where
  "branch_rows hs snapshot results statuses =
     map (\<lambda>(((node, r), status), seq). record_history node status snapshot (branch_patch r) (branch_error r) seq)
       (zip (zip results statuses) (allocate_sequence_numbers hs (length results)))"

definition note_partial :: "string \<Rightarrow> JoinOutcome \<Rightarrow> (string \<times> (py_exc + payload)) list \<Rightarrow> payload \<Rightarrow> py_exc + payload" where
  "note_partial node outcome results state =
     (if \<not> join_partial outcome then Inr state
      else bind_result (or_list (pget state SUPERSTEP_PARTIALS)) (\<lambda>ps.
        Inr (dset SUPERSTEP_PARTIALS
          (PList (ps @ [PDict [(''superstep'', PStr node), (''join'', PStr (jo_join outcome)),
             (''succeeded'', PList (map PStr (jo_succeeded outcome))),
             (''failed'', PList (map (\<lambda>b. PDict [(''branch'', PStr b),
                (''error'', case dget results b of Some r \<Rightarrow> branch_error r | None \<Rightarrow> PNone)]) (jo_failed outcome)))]])) state)))"

fun successors_of :: "flow_env \<Rightarrow> flow \<Rightarrow> payload \<Rightarrow> string list \<Rightarrow> py_exc + successor option list" where
  "successors_of e f state [] = Inr []"
| "successors_of e f state (node # rest) =
     bind_result (resolve_next_node (fe_preds e) node state f) (\<lambda>s. bind_result (successors_of e f state rest) (\<lambda>ss. Inr (s # ss)))"

definition converge :: "successor option list \<Rightarrow> py_exc + successor" where
  "converge ss =
     (case remdups ss of [Some s] \<Rightarrow> Inr s | _ \<Rightarrow> Inl (ValueError ''fan-out branches did not converge''))"

text \<open>The barrier: the answers of the branches to the history, the merge, the join and the common successor.\<close>

definition join_branches :: "flow_env \<Rightarrow> flow \<Rightarrow> string \<Rightarrow> FanOutEdgeGroup \<Rightarrow> (string \<times> (py_exc + payload)) list \<Rightarrow> string list \<Rightarrow> flow_world \<Rightarrow> (py_exc + successor) \<times> flow_world" where
  "join_branches e f node g results statuses w =
     (let w1 = w\<lparr>fw_history := fw_history w @ branch_rows (fw_history w) (fw_state w) results statuses\<rparr>;
          outcome = resolve_join g (zip (map fst results) statuses)
      in (case merge_superstep e f (fw_state w) (map (\<lambda>((b, r), st). (b, branch_patch r, st)) (zip results statuses)) of
            (Some x, s) \<Rightarrow> (Inl x, w1\<lparr>fw_state := s\<rparr>)
          | (None, s) \<Rightarrow>
              if \<not> satisfied outcome
              then (Inl (ValueError (''branch(es) '' @ py_repr (PList (map PStr (jo_failed outcome))) @ '' failed'')), w1\<lparr>fw_state := s\<rparr>)
              else (case note_partial node outcome results s of
                      Inl x \<Rightarrow> (Inl x, w1\<lparr>fw_state := s\<rparr>)
                    | Inr s1 \<Rightarrow> (bind_result (successors_of e f s1 (jo_succeeded outcome)) converge, w1\<lparr>fw_state := s1\<rparr>))))"

text \<open>\<^verbatim>\<open>_execute_superstep\<close>: what it answers or raises, and what it leaves.\<close>

definition branch_waits :: "py_exc + payload \<Rightarrow> bool" where
  "branch_waits r = (case r of Inl _ \<Rightarrow> False | Inr d \<Rightarrow> pget d ''status'' = PStr ''WAIT'')"

definition execute_superstep :: "flow_env \<Rightarrow> flow \<Rightarrow> nat \<Rightarrow> string list \<Rightarrow> flow_world \<Rightarrow> (py_exc + successor) \<times> flow_world" where
  "execute_superstep e f n branches w =
     (let node = rw_current_node (fw_row w)
      in (case (case fan_out_group_for node f of Some g \<Rightarrow> Inr g | None \<Rightarrow> new_FanOutEdgeGroup branches ''all'' None) of
        Inl x \<Rightarrow> (Inl x, w)
      | Inr g \<Rightarrow>
          let (results, a) = run_fan_out_branches e n branches (fw_state w) (fw_attempts w);
              w1 = w\<lparr>fw_attempts := a\<rparr>
          in if list_ex (branch_waits \<circ> snd) results then (Inl (Other_exc ''FanOutWaitRefused'' node), w1)
             else (case texts (map (branch_status \<circ> snd) results) of
                     Inl x \<Rightarrow> (Inl x, w1)
                   | Inr statuses \<Rightarrow> join_branches e f node g results statuses w1)))"


section \<open>The loop\<close>

text \<open>
  \<^verbatim>\<open>_advance_to_next_node\<close>. Only a \<^verbatim>\<open>KeyError\<close> and a \<^verbatim>\<open>ValueError\<close> of the resolution fail the run; a successor that is a group cannot be stored as
  the current node.
\<close>

definition move_on :: "flow_env \<Rightarrow> nat \<Rightarrow> string \<Rightarrow> string \<Rightarrow> flow_world \<Rightarrow> (flow_response + string) \<times> flow_world" where
  "move_on e n node next w =
     (if next = [] then map_prod Inl id (fail_execution e n (PStr (''No next node from '' @ node @ '' - flow graph incomplete'')) w)
      else (Inr next, w\<lparr>fw_row := (fw_row w)\<lparr>rw_current_node := next, rw_state := safe_dict (fw_state w)\<rparr>\<rparr>))"

definition advance_to_next_node :: "flow_env \<Rightarrow> flow \<Rightarrow> nat \<Rightarrow> string \<Rightarrow> flow_world \<Rightarrow> (flow_response + string) \<times> flow_world" where
  "advance_to_next_node e f n node w =
     (case resolve_frontier (fe_preds e) node (fw_state w) f of
        Inl x \<Rightarrow>
          (case x of
             KeyError _ \<Rightarrow> map_prod Inl id (fail_execution e n (PStr (''cannot resolve the edge out of '' @ repr_str node @ '': '' @ exc_message x)) w)
           | ValueError _ \<Rightarrow> map_prod Inl id (fail_execution e n (PStr (''cannot resolve the edge out of '' @ repr_str node @ '': '' @ exc_message x)) w)
           | _ \<Rightarrow> (Inl (Escaped x), w))
      | Inr [] \<Rightarrow> move_on e n node [] w
      | Inr [next] \<Rightarrow> move_on e n node next w
      | Inr frontier \<Rightarrow>
          (case execute_superstep e f n frontier w of
             (Inl x, w1) \<Rightarrow> map_prod Inl id (fail_execution e n (PStr (exc_message x)) w1)
           | (Inr (To next), w1) \<Rightarrow> move_on e n node next w1
           | (Inr (To_group g), w1) \<Rightarrow> (Inl (Escaped (Other_exc ''StatementError'' ''FanOutEdgeGroup'')), w1)))"

text \<open>From the answer of a node to its verdict: the history, the event, the merge and the status.\<close>

definition settle_node :: "flow_env \<Rightarrow> flow \<Rightarrow> nat \<Rightarrow> string \<Rightarrow> payload \<Rightarrow> payload \<Rightarrow> flow_world \<Rightarrow> node_verdict \<times> flow_world" where
  "settle_node e f n node snapshot result w =
     (case dget result ''status'' of
        None \<Rightarrow> (Final (Escaped (KeyError ''status'')), w)
      | Some v \<Rightarrow>
          (case status_text v of
             Inl x \<Rightarrow> (Final (Escaped x), w)
           | Inr status \<Rightarrow>
               let patch = dget_or result ''output_patch'' (PDict []);
                   row = record_history node status snapshot patch (pget result ''error'') (hd (allocate_sequence_numbers (fw_history w) 1));
                   w1 = w\<lparr>fw_history := fw_history w @ [row]\<rparr>
               in if \<not> fe_event e n 2 then (Final (Escaped emission_error), w1)
                  else let w2 = call (Event (if status \<in> set MERGED_STATUSES then ''flow.node.completed'' else ''flow.node.failed'')) w1
                       in (case merge_superstep e f (fw_state w2) [(node, patch, status)] of
                             (Some x, s) \<Rightarrow> (Final (Escaped x), w2\<lparr>fw_state := s\<rparr>)
                           | (None, s) \<Rightarrow> handle_node_status e f n node result status (w2\<lparr>fw_state := s\<rparr>))))"

definition disappeared :: flow_response where
  "disappeared = Response ''FAILED'' (PStr ''FlowRun disappeared'') []"

text \<open>One turn of the loop of \<^verbatim>\<open>resume\<close>: the response it returns, or the node of the next turn.\<close>

definition flow_step :: "flow_env \<Rightarrow> flow \<Rightarrow> nat \<Rightarrow> string \<Rightarrow> flow_world \<Rightarrow> (flow_response + string) \<times> flow_world" where
  "flow_step e f n node w =
     (if \<not> fe_present e n 0 then (Inl disappeared, w)
      else if \<not> fe_event e n 0 then (Inl (Escaped emission_error), w)
      else (case execute_current_node e n node (call (Event ''flow.node.started'') w) of
        (Inl r, w1) \<Rightarrow> (Inl r, w1)
      | (Inr result, w1) \<Rightarrow>
          if \<not> fe_present e n 1 then (Inl disappeared, w1)
          else (case settle_node e f n node (fw_state w) result w1 of
                  (Final r, w2) \<Rightarrow> (Inl r, w2)
                | (Retry_node, w2) \<Rightarrow> (Inr node, w2)
                | (Go_on, w2) \<Rightarrow> advance_to_next_node e f n node w2)))"

fun run_loop :: "nat \<Rightarrow> flow_env \<Rightarrow> flow \<Rightarrow> nat \<Rightarrow> string \<Rightarrow> flow_world \<Rightarrow> (flow_response \<times> flow_world) option" where
  "run_loop 0 e f n node w = None"
| "run_loop (Suc k) e f n node w =
     (case flow_step e f n node w of (Inl r, w1) \<Rightarrow> Some (r, w1) | (Inr next, w1) \<Rightarrow> run_loop k e f (n + 1) next w1)"


section \<open>Resuming and starting a run\<close>

definition move_to_dead_letter :: "string \<Rightarrow> flow_row \<Rightarrow> bool \<times> flow_row" where
  "move_to_dead_letter reason r =
     (if rw_status r = ''waiting'' then (True, r\<lparr>rw_status := ''dead_letter'', rw_waiting_for := None, rw_error := PStr reason\<rparr>) else (False, r))"

text \<open>What the conditional update of the claim answers: its commit failed, or the number of rows it changed.\<close>

datatype claim_answer = Commit_failed | Claimed nat

definition claim_waiting_run :: "claim_answer \<Rightarrow> flow_row \<Rightarrow> flow_response option \<times> flow_row" where
  "claim_waiting_run answer r =
     (if rw_status r \<noteq> ''waiting'' then (None, r)
      else (case answer of
              Commit_failed \<Rightarrow> (Some (Response ''SKIPPED'' (PStr ''claim commit failed - concurrent resume likely'') []), r)
            | Claimed 0 \<Rightarrow> (Some (Response ''SKIPPED'' (PStr ''already claimed by another instance'') []), r)
            | Claimed _ \<Rightarrow> (None, r\<lparr>rw_status := ''executing'', rw_waiting_for := None\<rparr>)))"

definition with_trace :: "string \<Rightarrow> payload \<Rightarrow> payload" where
  "with_trace trace state = (if truthy (pget state ''trace_id'') then state else dset ''trace_id'' (PStr trace) state)"

definition idle_world :: "flow_row \<Rightarrow> FlowHistory list \<Rightarrow> flow_world" where
  "idle_world r hs = \<lparr>fw_row = r, fw_history = hs, fw_calls = [], fw_holds = False, fw_attempts = [], fw_state = rw_state r\<rparr>"

definition topology_reason :: string where
  "topology_reason = ''flow topology changed while run was suspended''"

text \<open>The run a resuming runner works on: a copy of the stored state, with its trace, and its unit out of its wait.\<close>

definition resumed_world :: "flow_env \<Rightarrow> string \<Rightarrow> flow_row \<Rightarrow> FlowHistory list \<Rightarrow> flow_world" where
  "resumed_world e trace r hs =
     (let w = idle_world (r\<lparr>rw_state := with_trace trace (safe_dict (rw_state r))\<rparr>) hs
      in if fe_unit e \<and> fe_parked e then call Unit_resume w else w)"

text \<open>\<^verbatim>\<open>resume\<close>, with the digest of the signatures, the claim's answer and the trace as arguments.\<close>

definition resume :: "(string \<Rightarrow> string) \<Rightarrow> claim_answer \<Rightarrow> string \<Rightarrow> nat \<Rightarrow> flow_env \<Rightarrow> flow \<Rightarrow> flow_row option \<Rightarrow> FlowHistory list \<Rightarrow> (flow_response \<times> flow_world option) option" where
  "resume sha answer trace fuel e f row hs =
     (case row of
        None \<Rightarrow> Some (Response ''FAILED'' (PStr ''FlowRun not found'') [], None)
      | Some r \<Rightarrow>
          if signatures_conflict (rw_signature r) (Some (flow_topology_signature sha f))
          then Some (Response ''FAILED'' (PStr topology_reason) [], Some (idle_world (snd (move_to_dead_letter topology_reason r)) hs))
          else (case claim_waiting_run answer r of
                  (Some response, r1) \<Rightarrow> Some (response, Some (idle_world r1 hs))
                | (None, r1) \<Rightarrow> map_option (map_prod id Some) (run_loop fuel e f 0 (rw_current_node r1) (resumed_world e trace r1 hs))))"

datatype unit_answer = Unit_created | Unit_none | Unit_raised

text \<open>\<^verbatim>\<open>_start_run\<close>: the row, its execution unit, the event that opens the trace, and the run.\<close>

definition start_run :: "(string \<Rightarrow> string) \<Rightarrow> unit_answer \<Rightarrow> py_exc + string option \<Rightarrow> string \<Rightarrow> nat \<Rightarrow> flow_env \<Rightarrow> flow \<Rightarrow> pyval \<Rightarrow> payload \<Rightarrow> (flow_response \<times> flow_world option) option" where
  "start_run sha unit_ans root_event trace fuel e f job initial =
     (let r = \<lparr>rw_status = ''running'', rw_waiting_for = None, rw_current_node = fl_start f, rw_state = safe_dict initial, rw_error = PNone,
               rw_job_log_id = job, rw_signature = Some (flow_topology_signature sha f)\<rparr>;
          s = with_trace trace initial
      in if unit_ans = Unit_none
         then Some (Escaped (RuntimeError ''ExecutionUnit creation returned None''),
                Some (idle_world (r\<lparr>rw_status := ''failed'', rw_error := PStr ''ExecutionUnit creation failed - execution aborted''\<rparr>) []))
         else (case root_event of
                 Inl x \<Rightarrow> Some (Escaped x, Some (idle_world (r\<lparr>rw_state := safe_dict s\<rparr>) []))
               | Inr ev \<Rightarrow>
                   let s1 = (case ev of Some i \<Rightarrow> dset ''root_event_id'' (PStr i) s | None \<Rightarrow> s)
                   in resume sha (Claimed 0) trace fuel (e\<lparr>fe_unit := (unit_ans = Unit_created), fe_parked := False\<rparr>) f
                        (Some (r\<lparr>rw_state := safe_dict s1\<rparr>)) []))"


section \<open>What a turn keeps and changes\<close>

definition slot_change :: "flow_call \<Rightarrow> int" where
  "slot_change c = (case c of Mark_started \<Rightarrow> 1 | Mark_waiting \<Rightarrow> - 1 | Mark_completed \<Rightarrow> - 1 | _ \<Rightarrow> 0)"

definition slot_balance :: "flow_call list \<Rightarrow> int" where
  "slot_balance cs = sum_list (map slot_change cs)"

definition slot_ok :: "flow_world \<Rightarrow> bool" where
  "slot_ok w \<longleftrightarrow> slot_balance (fw_calls w) = (if fw_holds w then 1 else 0)"

lemma slot_balance_simps [simp]:
  "slot_balance [] = 0" "slot_balance (c # cs) = slot_change c + slot_balance cs" "slot_balance (cs @ ds) = slot_balance cs + slot_balance ds"
  by (simp_all add: slot_balance_def)

lemma call_fields [simp]:
  "fw_row (call c w) = fw_row w" "fw_history (call c w) = fw_history w" "fw_calls (call c w) = fw_calls w @ [c]"
  "fw_holds (call c w) = fw_holds w" "fw_attempts (call c w) = fw_attempts w" "fw_state (call c w) = fw_state w"
  by (simp_all add: call_def)

text \<open>The operations that end a run leave history, attempts and state as they are.\<close>

definition same_work :: "flow_world \<Rightarrow> flow_world \<Rightarrow> bool" where
  "same_work w w' \<longleftrightarrow> fw_history w' = fw_history w \<and> fw_attempts w' = fw_attempts w \<and> fw_state w' = fw_state w"

lemma same_work_refl [simp]: "same_work w w"
  by (simp add: same_work_def)

lemma release_on_completion:
  "same_work w (release_slot_on_completion w)" "fw_row (release_slot_on_completion w) = fw_row w"
  "\<not> fw_holds (release_slot_on_completion w)" "slot_ok w \<Longrightarrow> slot_ok (release_slot_on_completion w)"
  by (simp_all add: release_slot_on_completion_def same_work_def slot_ok_def slot_change_def)

lemma finalize_unit:
  "same_work w (finalize_flow_unit e st w)" "fw_row (finalize_flow_unit e st w) = fw_row w"
  "fw_holds (finalize_flow_unit e st w) = fw_holds w" "slot_ok (finalize_flow_unit e st w) = slot_ok w"
  by (simp_all add: finalize_flow_unit_def same_work_def slot_ok_def slot_change_def)

lemma fail_execution_keeps:
  assumes "fail_execution e n msg w = (r, w')"
  shows "same_work w w'" "\<not> fw_holds w'" "slot_ok w \<Longrightarrow> slot_ok w'" "rw_current_node (fw_row w') = rw_current_node (fw_row w)"
proof -
  define w1 where "w1 = w\<lparr>fw_row := (fw_row w)\<lparr>rw_status := ''failed'', rw_waiting_for := None, rw_error := msg\<rparr>\<rparr>"
  define w2 where "w2 = release_slot_on_completion (finalize_flow_unit e ''failed'' w1)"
  have w': "\<exists>cs. fw_calls w' = fw_calls w2 @ cs \<and> slot_balance cs = 0 \<and> fw_holds w' = fw_holds w2 \<and> fw_row w' = fw_row w2 \<and> same_work w2 w'"
    using assms unfolding fail_execution_def Let_def w1_def [symmetric] w2_def [symmetric]
    by (auto simp: slot_balance_def slot_change_def same_work_def split: if_splits)
  have w2: "same_work w w2" "\<not> fw_holds w2" "slot_ok w \<Longrightarrow> slot_ok w2" "rw_current_node (fw_row w2) = rw_current_node (fw_row w)"
    using release_on_completion [of "finalize_flow_unit e ''failed'' w1"] finalize_unit [where w = w1 and e = e and st = "''failed''"]
    by (simp_all add: w2_def w1_def same_work_def slot_ok_def)
  show "same_work w w'" "\<not> fw_holds w'" "rw_current_node (fw_row w') = rw_current_node (fw_row w)"
    using w' w2 by (auto simp: same_work_def)
  show "slot_ok w \<Longrightarrow> slot_ok w'" using w' w2 by (auto simp: slot_ok_def slot_balance_def)
qed

lemma park_unit [simp]:
  "fw_row (park_execution_unit e x w) = fw_row w" "fw_history (park_execution_unit e x w) = fw_history w"
  "fw_holds (park_execution_unit e x w) = fw_holds w" "fw_attempts (park_execution_unit e x w) = fw_attempts w"
  "fw_state (park_execution_unit e x w) = fw_state w" "slot_balance (fw_calls (park_execution_unit e x w)) = slot_balance (fw_calls w)"
  by (simp_all add: park_execution_unit_def slot_change_def)

lemma check_resources_keeps:
  assumes "check_resources e n node w = (r, w')"
  shows "same_work w w'" "slot_ok w \<Longrightarrow> slot_ok w'" "r \<noteq> None \<Longrightarrow> \<not> fw_holds w'"
    "r = None \<Longrightarrow> fw_row w' = fw_row w \<and> fw_holds w'"
proof -
  define w1 where "w1 = (if fw_holds w then w else call Mark_started (w\<lparr>fw_holds := True\<rparr>))"
  have w1: "same_work w w1" "slot_ok w \<Longrightarrow> slot_ok w1" "fw_row w1 = fw_row w" "fw_holds w1"
    by (auto simp: w1_def same_work_def slot_ok_def slot_change_def)
  have "same_work w w' \<and> (slot_ok w \<longrightarrow> slot_ok w') \<and> (r \<noteq> None \<longrightarrow> \<not> fw_holds w') \<and> (r = None \<longrightarrow> fw_row w' = fw_row w \<and> fw_holds w')"
  proof (cases "\<not> fw_holds w \<and> \<not> fe_admit e n")
    case True
    then show ?thesis using assms
      by (auto simp: check_resources_def Let_def same_work_def slot_ok_def slot_change_def)
  next
    case False
    show ?thesis
    proof (cases "fe_quota e n")
      case None
      with False assms have "r = None" "w' = w1"
        by (auto simp: check_resources_def w1_def)
      then show ?thesis using w1 by simp
    next
      case (Some reason)
      obtain x where "fail_execution e n (PStr reason) w1 = (x, w')" "r = Some x"
        using False Some assms unfolding check_resources_def Let_def w1_def [symmetric] by (cases "fail_execution e n (PStr reason) w1") auto
      then show ?thesis using fail_execution_keeps [of e n "PStr reason" w1 x w'] w1 by (auto simp: same_work_def)
    qed
  qed
  then show "same_work w w'" "slot_ok w \<Longrightarrow> slot_ok w'" "r \<noteq> None \<Longrightarrow> \<not> fw_holds w'"
    "r = None \<Longrightarrow> fw_row w' = fw_row w \<and> fw_holds w'" by auto
qed


lemma execute_node_attempts:
  assumes "execute_node e n node s a = (r, b)"
  shows "dget_or a k 0 \<le> dget_or b k 0" "r = Inr d \<Longrightarrow> b = dset node (dget_or a node 0 + 1) a"
  using assms by (auto simp: execute_node_def dget_or_dset split: if_splits)

lemma execute_current_node_keeps:
  assumes "execute_current_node e n node w = (out, w')"
  shows "fw_history w' = fw_history w" "fw_state w' = fw_state w" "slot_ok w \<Longrightarrow> slot_ok w'"
    "out = Inl (Response s r u) \<Longrightarrow> \<not> fw_holds w'"
    "out = Inr d \<Longrightarrow> fw_row w' = fw_row w \<and> fw_holds w' \<and> fw_attempts w' = dset node (dget_or (fw_attempts w) node 0 + 1) (fw_attempts w)"
proof -
  obtain q w1 where c: "check_resources e n node w = (q, w1)" by force
  note k = check_resources_keeps [OF c]
  have "fw_history w' = fw_history w \<and> fw_state w' = fw_state w \<and> (slot_ok w \<longrightarrow> slot_ok w') \<and>
    ((\<exists>s r u. out = Inl (Response s r u)) \<longrightarrow> \<not> fw_holds w') \<and>
    ((\<exists>d. out = Inr d) \<longrightarrow> fw_row w' = fw_row w \<and> fw_holds w' \<and> fw_attempts w' = dset node (dget_or (fw_attempts w) node 0 + 1) (fw_attempts w))"
  proof (cases q)
    case (Some r)
    then show ?thesis using assms c k by (auto simp: execute_current_node_def same_work_def)
  next
    case None
    obtain v a where x: "execute_node e n node (fw_state w1) (fw_attempts w1) = (v, a)" by force
    show ?thesis
    proof (cases v)
      case (Inl y)
      define w2 where "w2 = call (Event ''flow.node.failed'') (w1\<lparr>fw_attempts := a\<rparr>)"
      obtain z w3 where f: "fail_execution e n (PStr (exc_message y)) w2 = (z, w3)" by force
      have "out = Inl z \<and> w' = w3 \<or> out = Inl (Escaped emission_error) \<and> w' = w1\<lparr>fw_attempts := a\<rparr>"
        using assms c None x Inl f by (auto simp: execute_current_node_def w2_def split: if_splits)
      then show ?thesis using fail_execution_keeps [OF f] k None
        by (elim disjE) (auto simp: w2_def same_work_def slot_ok_def slot_change_def)
    next
      case (Inr d)
      then show ?thesis using assms c None x k execute_node_attempts(2) [OF x]
        by (cases "fe_unit e") (auto simp: execute_current_node_def same_work_def slot_ok_def slot_change_def)
    qed
  qed
  then show "fw_history w' = fw_history w" "fw_state w' = fw_state w" "slot_ok w \<Longrightarrow> slot_ok w'"
    "out = Inl (Response s r u) \<Longrightarrow> \<not> fw_holds w'"
    "out = Inr d \<Longrightarrow> fw_row w' = fw_row w \<and> fw_holds w' \<and> fw_attempts w' = dset node (dget_or (fw_attempts w) node 0 + 1) (fw_attempts w)"
    by auto
qed

text \<open>A wait and a failure give the slot back; so does a completion, unless it hands the work on.\<close>

definition no_handoff :: "flow_env \<Rightarrow> bool" where
  "no_handoff e \<longleftrightarrow> (\<forall>s v. fe_extract e s = Inr v \<longrightarrow> extract_async_handoff v = None)"

lemma park_on_wait:
  "fw_row (release_slot_on_wait e x w) = fw_row w" "same_work w (release_slot_on_wait e x w)" "\<not> fw_holds (release_slot_on_wait e x w)"
  "slot_ok w \<Longrightarrow> slot_ok (release_slot_on_wait e x w)"
  by (simp_all add: release_slot_on_wait_def same_work_def slot_ok_def slot_change_def)

lemma handle_wait_parks:
  assumes "handle_wait e n node result w = (r, w')" "\<nexists>m. fail_execution e n m w = (r, w')"
  obtains x s c where "(\<forall>k. k \<noteq> PENDING_REQUEST_KEY \<longrightarrow> dget s k = dget (fw_state w) k)" "slot_balance c = 0"
    "fw_calls w' = fw_calls (release_slot_on_wait e x (w\<lparr>fw_state := s\<rparr>)) @ c" "fw_holds w' = False"
    "fw_history w' = fw_history w" "fw_attempts w' = fw_attempts w" "fw_state w' = s"
proof -
  define x where "x = py_str (pget result ''wait_for'')"
  obtain pending where p: "build_pending_request node x (pget result RESUME_SCHEMA_KEY) = Inr pending" and t: "truthy (pget result ''wait_for'')"
    using assms unfolding handle_wait_def x_def Let_def by (auto split: if_splits sum.splits)
  define s where "s = (case pending of Some p \<Rightarrow> dset PENDING_REQUEST_KEY p (fw_state w) | None \<Rightarrow> dpop PENDING_REQUEST_KEY (fw_state w))"
  define w1 where "w1 = w\<lparr>fw_state := s, fw_row := (fw_row w)\<lparr>rw_status := ''waiting'', rw_waiting_for := Some x, rw_current_node := node,
    rw_state := safe_dict s\<rparr>\<rparr>"
  have w': "w' = call (Register_wait x) (release_slot_on_wait e x w1) \<or> w' = call (Event ''flow.waiting'') (call (Register_wait x) (release_slot_on_wait e x w1))"
    using assms(1) p t unfolding handle_wait_def x_def [symmetric] Let_def s_def w1_def by (auto split: if_splits)
  have calls: "fw_calls (release_slot_on_wait e x w1) = fw_calls (release_slot_on_wait e x (w\<lparr>fw_state := s\<rparr>))"
    by (simp add: release_slot_on_wait_def w1_def park_execution_unit_def)
  have s: "\<forall>k. k \<noteq> PENDING_REQUEST_KEY \<longrightarrow> dget s k = dget (fw_state w) k"
    by (auto simp: s_def split: option.splits)
  show ?thesis
    by (rule that [of s "drop (length (fw_calls (release_slot_on_wait e x w1))) (fw_calls w')" x])
      (use w' s calls park_on_wait [where e = e and x = x and w = w1] in \<open>auto simp: w1_def same_work_def slot_change_def\<close>)
qed

lemma handle_wait_keeps:
  assumes "handle_wait e n node result w = (r, w')"
  shows "fw_history w' = fw_history w" "fw_attempts w' = fw_attempts w" "slot_ok w \<Longrightarrow> slot_ok w'" "\<not> fw_holds w'"
    "k \<noteq> PENDING_REQUEST_KEY \<Longrightarrow> dget (fw_state w') k = dget (fw_state w) k"
proof -
  have "fw_history w' = fw_history w \<and> fw_attempts w' = fw_attempts w \<and> (slot_ok w \<longrightarrow> slot_ok w') \<and> \<not> fw_holds w' \<and>
    (\<forall>k. k \<noteq> PENDING_REQUEST_KEY \<longrightarrow> dget (fw_state w') k = dget (fw_state w) k)"
  proof (cases "\<exists>m. fail_execution e n m w = (r, w')")
    case True
    then obtain m where "fail_execution e n m w = (r, w')" by blast
    then show ?thesis using fail_execution_keeps [of e n m w r w'] by (auto simp: same_work_def)
  next
    case False
    obtain x s c where h: "\<forall>k. k \<noteq> PENDING_REQUEST_KEY \<longrightarrow> dget s k = dget (fw_state w) k" "slot_balance c = 0"
      "fw_calls w' = fw_calls (release_slot_on_wait e x (w\<lparr>fw_state := s\<rparr>)) @ c" "fw_holds w' = False"
      "fw_history w' = fw_history w" "fw_attempts w' = fw_attempts w" "fw_state w' = s"
      by (rule handle_wait_parks [OF assms False])
    have "slot_ok w \<Longrightarrow> slot_ok w'"
      using park_on_wait(3,4) [where e = e and x = x and w = "w\<lparr>fw_state := s\<rparr>"] h by (simp add: slot_ok_def)
    then show ?thesis using h by simp
  qed
  then show "fw_history w' = fw_history w" "fw_attempts w' = fw_attempts w" "slot_ok w \<Longrightarrow> slot_ok w'" "\<not> fw_holds w'"
    "k \<noteq> PENDING_REQUEST_KEY \<Longrightarrow> dget (fw_state w') k = dget (fw_state w) k" by auto
qed


lemma finalize_completion_keeps:
  assumes "maybe_finalize_completion e f n node w = (r, w')"
  shows "same_work w w'" "slot_ok w \<Longrightarrow> slot_ok w'" "r = None \<Longrightarrow> w' = w"
    "no_handoff e \<Longrightarrow> r \<noteq> None \<Longrightarrow> \<not> fw_holds w'"
proof -
  have "same_work w w' \<and> (slot_ok w \<longrightarrow> slot_ok w') \<and> (r = None \<longrightarrow> w' = w) \<and> (no_handoff e \<longrightarrow> r \<noteq> None \<longrightarrow> \<not> fw_holds w')"
  proof (cases "\<exists>m x v. fail_execution e n m v = (x, w') \<and> r = Some x \<and> same_work w v \<and> (slot_ok w \<longrightarrow> slot_ok v)")
    case True
    then obtain m x v where v: "fail_execution e n m v = (x, w')" "r = Some x" "same_work w v" "slot_ok w \<longrightarrow> slot_ok v" by blast
    show ?thesis using fail_execution_keeps [OF v(1)] v(2-4) by (auto simp: same_work_def)
  next
    case False
    define w1 where "w1 = release_slot_on_completion (finalize_flow_unit e ''completed'' w)"
    define w2 where "w2 = w1\<lparr>fw_row := (fw_row w1)\<lparr>rw_status := ''success'', rw_state := safe_dict (fw_state w1), rw_waiting_for := None\<rparr>\<rparr>"
    have w2: "same_work w w2" "slot_ok w \<longrightarrow> slot_ok w2" "\<not> fw_holds w2"
      using release_on_completion [of "finalize_flow_unit e ''completed'' w"] finalize_unit [where e = e and w = w and st = "''completed''"]
      by (simp_all add: w2_def w1_def same_work_def slot_ok_def)
    have no: "completion_failed e n t v \<noteq> (r, w')" if "same_work w v" "slot_ok w \<longrightarrow> slot_ok v" for t v
      using False that by (cases "fail_execution e n (PStr (''Completion finalization failed: '' @ t)) v") (auto simp: completion_failed_def)
    have no_w: "completion_failed e n t w \<noteq> (r, w')" for t by (rule no) simp_all
    have no_w2: "completion_failed e n t w2 \<noteq> (r, w')" for t by (rule no) (use w2 in simp_all)
    consider "r = None" "w' = w" | v where "r \<noteq> None" "fe_extract e (fw_state w) = Inr v" "extract_async_handoff v \<noteq> None"
        "same_work w w'" "fw_calls w' = fw_calls w" "fw_holds w' = fw_holds w"
      | "r \<noteq> None" "w' = call (Event ''execution.completed'') w2"
    proof (cases "node \<in> set (fl_end f)")
      case True
      note def = assms [unfolded maybe_finalize_completion_def Let_def, folded w1_def, folded w2_def]
      obtain v where v: "fe_extract e (fw_state w) = Inr v" using def True no_w by (cases "fe_extract e (fw_state w)") simp_all
      show ?thesis
      proof (cases "extract_async_handoff v")
        case None
        obtain us where "superstep_partial_units (fw_state w2) = Inr us"
          using def True v None no_w2 by (cases "superstep_partial_units (fw_state w2)") simp_all
        then have "r \<noteq> None \<and> w' = call (Event ''execution.completed'') w2"
          using def True v None no_w2 by (cases "fe_event e n 5") auto
        then show ?thesis using that(3) by blast
      next
        case (Some h)
        then show ?thesis using def True v that(2) [of v] by (cases h) (auto simp: same_work_def)
      qed
    next
      case False
      then show ?thesis using assms that(1) by (simp add: maybe_finalize_completion_def)
    qed
    then show ?thesis using w2
      by cases (auto simp: no_handoff_def same_work_def slot_ok_def slot_change_def)
  qed
  then show "same_work w w'" "slot_ok w \<Longrightarrow> slot_ok w'" "r = None \<Longrightarrow> w' = w"
    "no_handoff e \<Longrightarrow> r \<noteq> None \<Longrightarrow> \<not> fw_holds w'" by auto
qed

lemma handle_status_keeps:
  assumes "handle_node_status e f n node result status w = (v, w')"
  shows "fw_history w' = fw_history w" "fw_attempts w' = fw_attempts w" "slot_ok w \<Longrightarrow> slot_ok w'"
    "k \<noteq> PENDING_REQUEST_KEY \<Longrightarrow> dget (fw_state w') k = dget (fw_state w) k"
    "no_handoff e \<Longrightarrow> v = Final x \<Longrightarrow> \<not> fw_holds w'"
    "v = Go_on \<Longrightarrow> fw_row w' = fw_row w"
    "v = Retry_node \<Longrightarrow> w' = w \<and> dget_or (fw_attempts w) node 0 < retry_attempts_allowed f node"
proof -
  define w1 where "w1 = (if status = ''SUCCESS'' then w\<lparr>fw_state := dpop PENDING_REQUEST_KEY (fw_state w)\<rparr> else w)"
  have w1: "fw_history w1 = fw_history w" "fw_attempts w1 = fw_attempts w" "slot_ok w1 = slot_ok w" "fw_row w1 = fw_row w"
    "\<And>k. k \<noteq> PENDING_REQUEST_KEY \<Longrightarrow> dget (fw_state w1) k = dget (fw_state w) k"
    by (auto simp: w1_def slot_ok_def)
  consider (retry) "v = Retry_node" "w' = w" "dget_or (fw_attempts w) node 0 < retry_attempts_allowed f node"
    | (fail) m y where "fail_execution e n m w = (y, w')" "v = Final y"
    | (wait) y where "handle_wait e n node result w = (y, w')" "v = Final y"
    | (fin) y where "maybe_finalize_completion e f n node w1 = (y, w')" "v = (case y of None \<Rightarrow> Go_on | Some x \<Rightarrow> Final x)"
  proof (cases "status \<in> {''RETRY'', ''FAILURE'', ''WAIT''}")
    case True
    then consider "status = ''RETRY''" | "status = ''FAILURE''" | "status = ''WAIT''" by blast
    then show ?thesis
    proof cases
      case 1
      define m where "m = PStr (''Node '' @ node @ '' failed after '' @ py_str (PInt (dget_or (fw_attempts w) node 0)) @ '' retries'')"
      obtain y w2 where y: "fail_execution e n m w = (y, w2)" by force
      show ?thesis using assms 1 y retry fail [of m y] unfolding handle_node_status_def Let_def m_def [symmetric]
        by (simp add: decide_retry_def Let_def split: if_splits)
    next
      case 2
      define m where "m = dget_or result ''error'' (PStr (''Node '' @ node @ '' failed''))"
      obtain y w2 where y: "fail_execution e n m w = (y, w2)" by force
      show ?thesis using assms 2 y fail [of m y] unfolding handle_node_status_def Let_def m_def [symmetric] by simp
    next
      case 3
      obtain y w2 where y: "handle_wait e n node result w = (y, w2)" by force
      show ?thesis using assms 3 y wait [of y] unfolding handle_node_status_def by simp
    qed
  next
    case False
    then have "map_prod (\<lambda>r. case r of None \<Rightarrow> Go_on | Some x \<Rightarrow> Final x) id (maybe_finalize_completion e f n node w1) = (v, w')"
      using assms unfolding handle_node_status_def Let_def w1_def [symmetric] by simp
    then show ?thesis using fin by (cases "maybe_finalize_completion e f n node w1") auto
  qed
  then have "fw_history w' = fw_history w \<and> fw_attempts w' = fw_attempts w \<and> (slot_ok w \<longrightarrow> slot_ok w') \<and>
    (\<forall>k. k \<noteq> PENDING_REQUEST_KEY \<longrightarrow> dget (fw_state w') k = dget (fw_state w) k) \<and>
    (no_handoff e \<longrightarrow> (\<exists>x. v = Final x) \<longrightarrow> \<not> fw_holds w') \<and> (v = Go_on \<longrightarrow> fw_row w' = fw_row w) \<and>
    (v = Retry_node \<longrightarrow> w' = w \<and> dget_or (fw_attempts w) node 0 < retry_attempts_allowed f node)"
  proof cases
    case fail
    show ?thesis using fail_execution_keeps [OF fail(1)] fail(2) by (auto simp: same_work_def)
  next
    case wait
    show ?thesis using handle_wait_keeps [OF wait(1)] wait(2) by auto
  next
    case fin
    show ?thesis using finalize_completion_keeps [OF fin(1)] fin(2) w1 by (auto simp: same_work_def split: option.splits)
  qed auto
  then show "fw_history w' = fw_history w" "fw_attempts w' = fw_attempts w" "slot_ok w \<Longrightarrow> slot_ok w'"
    "k \<noteq> PENDING_REQUEST_KEY \<Longrightarrow> dget (fw_state w') k = dget (fw_state w) k"
    "no_handoff e \<Longrightarrow> v = Final x \<Longrightarrow> \<not> fw_holds w'"
    "v = Go_on \<Longrightarrow> fw_row w' = fw_row w"
    "v = Retry_node \<Longrightarrow> w' = w \<and> dget_or (fw_attempts w) node 0 < retry_attempts_allowed f node" by auto
qed


text \<open>What settling the answer of a node does: one row of history, the merge, and the verdict.\<close>

definition fold_matches :: "FlowHistory \<Rightarrow> bool" where
  "fold_matches h \<longleftrightarrow> (map upper_char (fh_status h) \<in> set FOLDED_STATUSES \<longrightarrow> fh_status h \<in> set MERGED_STATUSES)"

lemma dict_update_nil [simp]: "dict_update d [] = d"
  by (simp add: dict_update_def)

lemma safe_dset: "safe_dict (dset k v d) = dset k (json_safe v) (safe_dict d)"
  by (induction d) (auto simp: safe_dict_def)

lemma safe_update: "safe_dict (dict_update d p) = dict_update (safe_dict d) (safe_dict p)"
  by (induction p arbitrary: d) (auto simp: dict_update_def safe_dset, auto simp: safe_dict_def)

lemma dget_safe: "dget (safe_dict d) k = map_option json_safe (dget d k)"
  by (induction d) (auto simp: safe_dict_def)

lemma patch_safe: "patch_dict (json_safe v) = safe_dict (patch_dict v)"
  by (cases v rule: json_safe.cases) (auto simp: patch_dict_def safe_dict_def)

lemma merge_single:
  assumes "merge_superstep e f s [(node, patch, status)] = (None, s')"
  shows "s' = (if status \<in> set MERGED_STATUSES then dict_update s (patch_dict patch) else s)"
  using assms by (auto simp: merge_superstep_def merge_state_def split: if_splits sum.splits)

lemma settle_node_cases:
  assumes "settle_node e f n node s0 result w = (v, w')"
  obtains (early) x where "v = Final (Escaped x)" "w' = w"
    | (late) x status patch c s where "v = Final (Escaped x)" "slot_balance c = 0"
        "w' = w\<lparr>fw_history := fw_history w @ [record_history node status s0 patch (pget result ''error'') (hd (allocate_sequence_numbers (fw_history w) 1))],
           fw_calls := fw_calls w @ c, fw_state := s\<rparr>"
    | (ok) status patch c s where "slot_balance c = 0" "s = (if status \<in> set MERGED_STATUSES then dict_update (fw_state w) (patch_dict patch) else fw_state w)"
        "handle_node_status e f n node result status
           (w\<lparr>fw_history := fw_history w @ [record_history node status s0 patch (pget result ''error'') (hd (allocate_sequence_numbers (fw_history w) 1))],
              fw_calls := fw_calls w @ c, fw_state := s\<rparr>) = (v, w')"
proof -
  consider (a) x where "v = Final (Escaped x)" "w' = w" | (b) t status where "dget result ''status'' = Some t" "status_text t = Inr status"
    using assms unfolding settle_node_def by (auto split: option.splits sum.splits)
  then show thesis
  proof cases
    case a
    then show ?thesis by (rule early)
  next
    case b
    define patch where "patch = dget_or result ''output_patch'' (PDict [])"
    define row where "row = record_history node status s0 patch (pget result ''error'') (hd (allocate_sequence_numbers (fw_history w) 1))"
    define ev where "ev = Event (if status \<in> set MERGED_STATUSES then ''flow.node.completed'' else ''flow.node.failed'')"
    note def = assms [unfolded settle_node_def Let_def, folded patch_def, unfolded b option.case sum.case, folded row_def ev_def]
    show ?thesis
    proof (cases "fe_event e n 2")
      case False
      then show ?thesis using def late [where x = emission_error and c = "[]" and status = status and patch = patch and s = "fw_state w"] by (cases w) (auto simp: row_def)
    next
      case True
      obtain q s where m: "merge_superstep e f (fw_state w) [(node, patch, status)] = (q, s)" by force
      have ev: "slot_balance [ev] = 0" by (simp add: ev_def slot_change_def)
      show ?thesis
      proof (cases q)
        case None
        then show ?thesis using def True m ok [OF ev, where s = s and status = status and patch = patch] merge_single [of e f "fw_state w" node patch status s]
          by (simp add: call_def row_def)
      next
        case (Some x)
        then show ?thesis using def True m late [where x = x and c = "[ev]" and status = status and patch = patch and s = s] ev by (simp add: call_def row_def)
      qed
    qed
  qed
qed


definition ordinals_ok :: "FlowHistory list \<Rightarrow> bool" where
  "ordinals_ok hs \<longleftrightarrow> map fh_seq hs = map (\<lambda>i. int i + 1) [0..<length hs]"

lemma highest_of_ordinals:
  assumes "ordinals_ok hs" shows "highest_sequence hs = int (length hs)"
proof -
  have f: "fold (\<lambda>h m. max (fh_seq h) m) xs 0 = fold max (map fh_seq xs) 0" for xs by (simp add: fold_map comp_def)
  have "fold max (map (\<lambda>i. int i + 1) [0..<k]) 0 = int k" for k by (induction k) auto
  then show ?thesis using assms by (simp add: highest_sequence_def ordinals_ok_def f)
qed

lemma ordinals_append:
  assumes "ordinals_ok hs" "map fh_seq new = allocate_sequence_numbers hs (length new)"
  shows "ordinals_ok (hs @ new)"
proof -
  have "map fh_seq new = map (\<lambda>i. int i + 1) [length hs..<length hs + length new]"
    unfolding assms(2) allocate_sequence_numbers_def highest_of_ordinals [OF assms(1)] by (rule nth_equalityI) simp_all
  moreover have "[0..<length hs + length new] = [0..<length hs] @ [length hs..<length hs + length new]"
    by (rule upt_add_eq_append) simp
  ultimately show ?thesis using assms(1) unfolding ordinals_ok_def by (simp only: map_append length_append)
qed

lemma merged_folded: "status \<in> set MERGED_STATUSES \<Longrightarrow> map upper_char status \<in> set FOLDED_STATUSES"
proof -
  have "map upper_char ''SUCCESS'' = ''SUCCESS''" "map upper_char ''WAIT'' = ''WAIT''" by code_simp+
  then show "status \<in> set MERGED_STATUSES \<Longrightarrow> map upper_char status \<in> set FOLDED_STATUSES"
    unfolding MERGED_STATUSES_def FOLDED_STATUSES_def by auto
qed

lemma settle_node_keeps:
  assumes "settle_node e f n node (fw_state w) result w = (v, w')"
  shows "ordinals_ok (fw_history w) \<Longrightarrow> ordinals_ok (fw_history w')"
    "slot_ok w \<Longrightarrow> slot_ok w'" "fw_attempts w' = fw_attempts w"
    "no_handoff e \<Longrightarrow> v = Final (Response st r u) \<Longrightarrow> \<not> fw_holds w'"
    "v = Go_on \<Longrightarrow> fw_row w' = fw_row w"
    "v = Retry_node \<Longrightarrow> fw_row w' = fw_row w \<and> dget_or (fw_attempts w) node 0 < retry_attempts_allowed f node"
    "(\<nexists>x. v = Final (Escaped x)) \<Longrightarrow> fold_matches (last (fw_history w')) \<Longrightarrow> k \<noteq> PENDING_REQUEST_KEY \<Longrightarrow>
      dget (fold_flow_history_state (fw_history w')) k = dget (safe_dict (fw_state w')) k"
proof -
  let ?row = "\<lambda>status patch. record_history node status (fw_state w) patch (pget result ''error'') (hd (allocate_sequence_numbers (fw_history w) 1))"
  have seq: "ordinals_ok (fw_history w) \<Longrightarrow> ordinals_ok (fw_history w @ [?row status patch])" for status patch
    by (rule ordinals_append) (auto simp: record_history_def allocate_sequence_numbers_def)
  have "(ordinals_ok (fw_history w) \<longrightarrow> ordinals_ok (fw_history w')) \<and> (slot_ok w \<longrightarrow> slot_ok w') \<and> fw_attempts w' = fw_attempts w \<and>
    (no_handoff e \<longrightarrow> (\<exists>st r u. v = Final (Response st r u)) \<longrightarrow> \<not> fw_holds w') \<and> (v = Go_on \<longrightarrow> fw_row w' = fw_row w) \<and>
    (v = Retry_node \<longrightarrow> fw_row w' = fw_row w \<and> dget_or (fw_attempts w) node 0 < retry_attempts_allowed f node) \<and>
    ((\<nexists>x. v = Final (Escaped x)) \<longrightarrow> fold_matches (last (fw_history w')) \<longrightarrow> (\<forall>k. k \<noteq> PENDING_REQUEST_KEY \<longrightarrow>
      dget (fold_flow_history_state (fw_history w')) k = dget (safe_dict (fw_state w')) k))"
    using assms
  proof (cases rule: settle_node_cases)
    case early
    then show ?thesis by simp
  next
    case late
    then show ?thesis using seq by (simp add: slot_ok_def)
  next
    case (ok status patch c s)
    note h = handle_status_keeps [OF ok(3)]
    have hist: "fw_history w' = fw_history w @ [?row status patch]" using h(1) by simp
    have "dget (fold_flow_history_state (fw_history w')) k = dget (safe_dict (fw_state w')) k"
      if "fold_matches (?row status patch)" "k \<noteq> PENDING_REQUEST_KEY" for k
    proof -
      have up: "map upper_char status \<in> set FOLDED_STATUSES \<longleftrightarrow> status \<in> set MERGED_STATUSES"
        using that(1) merged_folded [of status] by (auto simp: fold_matches_def record_history_def)
      have "fold_flow_history_state (fw_history w') = safe_dict s"
        unfolding hist fold_flow_history_state_def Let_def by (simp add: up record_history_def patch_safe safe_update ok(2))
      then show ?thesis using h(4) [OF that(2)] by (simp add: dget_safe)
    qed
    moreover have "slot_ok w \<Longrightarrow> slot_ok w'" using h(3) ok(1) by (simp add: slot_ok_def)
    ultimately show ?thesis using h(2,5,6,7) seq hist by auto
  qed
  then show "ordinals_ok (fw_history w) \<Longrightarrow> ordinals_ok (fw_history w')"
    "slot_ok w \<Longrightarrow> slot_ok w'" "fw_attempts w' = fw_attempts w"
    "no_handoff e \<Longrightarrow> v = Final (Response st r u) \<Longrightarrow> \<not> fw_holds w'"
    "v = Go_on \<Longrightarrow> fw_row w' = fw_row w"
    "v = Retry_node \<Longrightarrow> fw_row w' = fw_row w \<and> dget_or (fw_attempts w) node 0 < retry_attempts_allowed f node"
    "(\<nexists>x. v = Final (Escaped x)) \<Longrightarrow> fold_matches (last (fw_history w')) \<Longrightarrow> k \<noteq> PENDING_REQUEST_KEY \<Longrightarrow>
      dget (fold_flow_history_state (fw_history w')) k = dget (safe_dict (fw_state w')) k" by auto
qed


section \<open>Supersteps and advancing\<close>

lemma run_in_order_attempts: "run_in_order e n s ns a = (rs, b) \<Longrightarrow> dget_or a k 0 \<le> dget_or b k 0"
proof (induction ns arbitrary: a rs b)
  case (Cons node ns)
  obtain r c where x: "execute_node e n node s a = (r, c)" by force
  obtain rs' d where y: "run_in_order e n s ns c = (rs', d)" by force
  show ?case using execute_node_attempts(1) [OF x, of k] Cons.IH [OF y] Cons.prems x y by simp
qed simp

lemma texts_length: "texts vs = Inr ss \<Longrightarrow> length ss = length vs"
  by (induction vs arbitrary: ss) (auto simp: bind_result_def split: sum.splits)

lemma branch_rows_seq:
  assumes "length statuses = length results"
  shows "map fh_seq (branch_rows hs s results statuses) = allocate_sequence_numbers hs (length (branch_rows hs s results statuses))"
proof -
  have len: "length (branch_rows hs s results statuses) = length results"
    using assms by (simp add: branch_rows_def allocate_sequence_numbers_def)
  show ?thesis unfolding len using assms
    by (intro nth_equalityI) (auto simp: branch_rows_def allocate_sequence_numbers_def record_history_def split: prod.splits)
qed

lemma join_branches_keeps:
  assumes "join_branches e f node g results statuses w = (r, w')"
  shows "fw_calls w' = fw_calls w" "fw_holds w' = fw_holds w" "fw_row w' = fw_row w" "fw_attempts w' = fw_attempts w"
    "fw_history w' = fw_history w @ branch_rows (fw_history w) (fw_state w) results statuses"
    "r = Inr t \<Longrightarrow> \<exists>s. bind_result (successors_of e f s (jo_succeeded (resolve_join g (zip (map fst results) statuses)))) converge = Inr t"
  using assms unfolding join_branches_def Let_def
  by (auto split: sum.splits option.splits prod.splits if_splits)

lemma superstep_keeps:
  assumes "execute_superstep e f n bs w = (r, w')"
  shows "fw_calls w' = fw_calls w" "fw_holds w' = fw_holds w" "fw_row w' = fw_row w" "dget_or (fw_attempts w) k 0 \<le> dget_or (fw_attempts w') k 0"
    "ordinals_ok (fw_history w) \<Longrightarrow> ordinals_ok (fw_history w')"
proof -
  obtain results a where b: "run_fan_out_branches e n bs (fw_state w) (fw_attempts w) = (results, a)" by force
  have a: "dget_or (fw_attempts w) k 0 \<le> dget_or a k 0" for k
    using b run_in_order_attempts by (auto simp: run_fan_out_branches_def split: prod.splits)
  have rows: "ordinals_ok (fw_history w) \<Longrightarrow> ordinals_ok (fw_history w @ branch_rows (fw_history w) s results statuses)"
    if "texts (map (branch_status \<circ> snd) results) = Inr statuses" for s statuses
    using texts_length [OF that] by (intro ordinals_append branch_rows_seq) auto
  consider "w' = w" | "w' = w\<lparr>fw_attempts := a\<rparr>"
    | g statuses where "texts (map (branch_status \<circ> snd) results) = Inr statuses"
        "join_branches e f (rw_current_node (fw_row w)) g results statuses (w\<lparr>fw_attempts := a\<rparr>) = (r, w')"
    using assms unfolding execute_superstep_def Let_def b by (auto split: sum.splits if_splits)
  then have "(fw_calls w' = fw_calls w \<and> fw_holds w' = fw_holds w \<and> fw_row w' = fw_row w \<and> (fw_attempts w' = fw_attempts w \<or> fw_attempts w' = a) \<and>
    (fw_history w' = fw_history w \<or> (\<exists>s statuses. texts (map (branch_status \<circ> snd) results) = Inr statuses \<and>
       fw_history w' = fw_history w @ branch_rows (fw_history w) s results statuses)))"
  proof cases
    case 3
    show ?thesis using join_branches_keeps [OF 3(2)] 3(1) by auto
  qed auto
  then show "fw_calls w' = fw_calls w" "fw_holds w' = fw_holds w" "fw_row w' = fw_row w" "dget_or (fw_attempts w) k 0 \<le> dget_or (fw_attempts w') k 0"
    "ordinals_ok (fw_history w) \<Longrightarrow> ordinals_ok (fw_history w')" using a rows by auto
qed

lemma successors_in: "successors_of e f s ns = Inr ss \<Longrightarrow> x \<in> set ss \<Longrightarrow> \<exists>b \<in> set ns. resolve_next_node (fe_preds e) b s f = Inr x"
  by (induction ns arbitrary: ss) (auto simp: bind_result_def split: sum.splits)

lemma converge_in: "converge ss = Inr s \<Longrightarrow> Some s \<in> set ss"
proof -
  assume "converge ss = Inr s"
  then have "remdups ss = [Some s]" by (auto simp: converge_def split: list.splits option.splits)
  then have "set ss = {Some s}" by (metis list.set(1,2) set_remdups)
  then show ?thesis by simp
qed

lemma superstep_target:
  assumes "execute_superstep e f n bs w = (Inr t, w')" "fan_out_group_for (rw_current_node (fw_row w)) f = Some g"
  shows "\<exists>b s. b \<in> set (fg_targets g) \<and> resolve_next_node (fe_preds e) b s f = Inr (Some t)"
proof -
  obtain results statuses a where "join_branches e f (rw_current_node (fw_row w)) g results statuses (w\<lparr>fw_attempts := a\<rparr>) = (Inr t, w')"
    using assms unfolding execute_superstep_def Let_def by (auto split: sum.splits prod.splits if_splits)
  from join_branches_keeps(6) [OF this refl]
  obtain s ns where "bind_result (successors_of e f s ns) converge = Inr t" "set ns \<subseteq> set (fg_targets g)"
    by (auto simp: resolve_join_def)
  moreover obtain ss where "successors_of e f s ns = Inr ss" "converge ss = Inr t"
    using calculation(1) by (auto simp: bind_result_def split: sum.splits)
  ultimately show ?thesis using successors_in [of e f s ns ss "Some t"] converge_in [of ss t] by blast
qed


lemma advance_cases:
  assumes "advance_to_next_node e f n node w = (out, w')"
  obtains (failed) m w1 x where "fail_execution e n m w1 = (x, w')" "out = Inl x" "w1 = w \<or> (\<exists>r bs. execute_superstep e f n bs w = (r, w1))"
    | (escaped) x where "out = Inl (Escaped x)" "w' = w \<or> (\<exists>r bs. execute_superstep e f n bs w = (r, w'))"
    | (single) "next" where "out = Inr next" "resolve_frontier (fe_preds e) node (fw_state w) f = Inr [next]"
        "w' = w\<lparr>fw_row := (fw_row w)\<lparr>rw_current_node := next, rw_state := safe_dict (fw_state w)\<rparr>\<rparr>"
    | (joined) bs w1 "next" where "out = Inr next" "resolve_frontier (fe_preds e) node (fw_state w) f = Inr bs" "1 < length bs"
        "execute_superstep e f n bs w = (Inr (To next), w1)"
        "w' = w1\<lparr>fw_row := (fw_row w1)\<lparr>rw_current_node := next, rw_state := safe_dict (fw_state w1)\<rparr>\<rparr>"
proof -
  have fails: thesis if "map_prod Inl id (fail_execution e n m w1) = (out, w')" "w1 = w \<or> (\<exists>r bs. execute_superstep e f n bs w = (r, w1))" for m w1
    using that failed by (cases "fail_execution e n m w1") auto
  have moves: thesis if "move_on e n node nxt w1 = (out, w')" "w1 = w \<or> (\<exists>r bs. execute_superstep e f n bs w = (r, w1))"
    "out = Inr nxt \<Longrightarrow> w' = w1\<lparr>fw_row := (fw_row w1)\<lparr>rw_current_node := nxt, rw_state := safe_dict (fw_state w1)\<rparr>\<rparr> \<Longrightarrow> thesis" for nxt w1
  proof (cases "nxt = []")
    case True
    show ?thesis by (rule fails [OF _ that(2)]) (use that(1) True in \<open>simp add: move_on_def\<close>)
  next
    case False
    show ?thesis by (rule that(3)) (use that(1) False in \<open>simp_all add: move_on_def\<close>)
  qed
  obtain q where q: "resolve_frontier (fe_preds e) node (fw_state w) f = q" by blast
  note def = assms [unfolded advance_to_next_node_def q]
  show thesis
  proof (cases q)
    case (Inl x)
    then consider "out = Inl (Escaped x)" "w' = w" | m where "map_prod Inl id (fail_execution e n m w) = (out, w')"
      using def by (cases x) simp_all
    then show ?thesis using escaped fails by cases blast+
  next
    case (Inr bs)
    consider "bs = []" | nxt where "bs = [nxt]" | "1 < length bs" by (cases bs; cases "tl bs") auto
    then show ?thesis
    proof cases
      case 1
      show ?thesis by (rule fails [of _ w]) (use def Inr 1 in \<open>simp_all add: move_on_def\<close>)
    next
      case (2 nxt)
      then have "move_on e n node nxt w = (out, w')" using def Inr by simp
      then show ?thesis by (rule moves) (use single q Inr 2 in auto)
    next
      case 3
      obtain r w1 where x: "execute_superstep e f n bs w = (r, w1)" by force
      have d: "(case r of Inl x \<Rightarrow> map_prod Inl id (fail_execution e n (PStr (exc_message x)) w1)
        | Inr (To nxt) \<Rightarrow> move_on e n node nxt w1
        | Inr (To_group g) \<Rightarrow> (Inl (Escaped (Other_exc ''StatementError'' ''FanOutEdgeGroup'')), w1)) = (out, w')"
        using def Inr 3 x by (cases bs; cases "tl bs"; cases r) (auto split: successor.splits)
      show ?thesis
      proof (cases r)
        case (Inl y)
        show ?thesis by (rule fails [of _ w1]) (use d Inl x in auto)
      next
        case (Inr t)
        show ?thesis
        proof (cases t)
          case (To nxt)
          then have "move_on e n node nxt w1 = (out, w')" using d Inr by simp
          then show ?thesis by (rule moves) (use joined [of nxt bs w1] q \<open>q = Inr bs\<close> 3 x Inr To in auto)
        next
          case (To_group g)
          then show ?thesis using d Inr escaped x by auto
        qed
      qed
    qed
  qed
qed

lemma advance_keeps:
  assumes "advance_to_next_node e f n node w = (out, w')"
  shows "slot_ok w \<Longrightarrow> slot_ok w'" "ordinals_ok (fw_history w) \<Longrightarrow> ordinals_ok (fw_history w')"
    "out = Inl (Response s r u) \<Longrightarrow> \<not> fw_holds w'"
    "fan_out_group_for node f = None \<Longrightarrow> out = Inr next \<Longrightarrow> fw_history w' = fw_history w \<and> fw_state w' = fw_state w"
    "dget_or (fw_attempts w) k 0 \<le> dget_or (fw_attempts w') k 0" "out = Inr next \<Longrightarrow> rw_current_node (fw_row w') = next"
proof -
  have sup: "(slot_ok w \<longrightarrow> slot_ok w1) \<and> (ordinals_ok (fw_history w) \<longrightarrow> ordinals_ok (fw_history w1)) \<and> (\<forall>k. dget_or (fw_attempts w) k 0 \<le> dget_or (fw_attempts w1) k 0)"
    if "w1 = w \<or> (\<exists>r bs. execute_superstep e f n bs w = (r, w1))" for w1
    using that superstep_keeps by (auto simp: slot_ok_def)
  have "(slot_ok w \<longrightarrow> slot_ok w') \<and> (ordinals_ok (fw_history w) \<longrightarrow> ordinals_ok (fw_history w')) \<and>
    ((\<exists>s r u. out = Inl (Response s r u)) \<longrightarrow> \<not> fw_holds w') \<and>
    (fan_out_group_for node f = None \<longrightarrow> (\<exists>x. out = Inr x) \<longrightarrow> fw_history w' = fw_history w \<and> fw_state w' = fw_state w) \<and>
    (\<forall>k. dget_or (fw_attempts w) k 0 \<le> dget_or (fw_attempts w') k 0) \<and> (\<forall>x. out = Inr x \<longrightarrow> rw_current_node (fw_row w') = x)"
    using assms
  proof (cases rule: advance_cases)
    case (failed m w1 x)
    show ?thesis using fail_execution_keeps [OF failed(1)] sup [OF failed(3)] failed(2) by (auto simp: same_work_def)
  next
    case (escaped x)
    show ?thesis using sup [OF escaped(2)] escaped(1) by simp
  next
    case (single nxt)
    then show ?thesis by (simp add: slot_ok_def)
  next
    case (joined bs w1 nxt)
    have "fan_out_group_for node f \<noteq> None" using joined(2,3) by (auto simp: resolve_frontier_def bind_result_def split: option.splits sum.splits successor.splits)
    moreover have w1: "w1 = w \<or> (\<exists>r bs. execute_superstep e f n bs w = (r, w1))" using joined(4) by blast
    ultimately show ?thesis using sup [OF w1] joined(1,5) by (auto simp: slot_ok_def)
  qed
  then show "slot_ok w \<Longrightarrow> slot_ok w'" "ordinals_ok (fw_history w) \<Longrightarrow> ordinals_ok (fw_history w')"
    "out = Inl (Response s r u) \<Longrightarrow> \<not> fw_holds w'"
    "fan_out_group_for node f = None \<Longrightarrow> out = Inr next \<Longrightarrow> fw_history w' = fw_history w \<and> fw_state w' = fw_state w"
    "dget_or (fw_attempts w) k 0 \<le> dget_or (fw_attempts w') k 0" "out = Inr next \<Longrightarrow> rw_current_node (fw_row w') = next"
    by blast+
qed


section \<open>Turns of the loop\<close>

lemma flow_step_cases:
  assumes "flow_step e f n node w = (out, w')"
  obtains (gone) "out = Inl disappeared" "\<not> fe_present e n 0 \<or> \<not> fe_present e n 1" "fw_history w' = fw_history w" "slot_ok w \<Longrightarrow> slot_ok w'"
    | (escaped) "out = Inl (Escaped emission_error)" "w' = w"
    | (ended) r where "execute_current_node e n node (call (Event ''flow.node.started'') w) = (Inl r, w')" "out = Inl r"
    | (settled) result w1 v w2 where "execute_current_node e n node (call (Event ''flow.node.started'') w) = (Inr result, w1)"
        "settle_node e f n node (fw_state w1) result w1 = (v, w2)" "fe_present e n 1"
        "(\<exists>r. v = Final r \<and> out = Inl r \<and> w' = w2) \<or> (v = Retry_node \<and> out = Inr node \<and> w' = w2) \<or>
         (v = Go_on \<and> advance_to_next_node e f n node w2 = (out, w'))"
proof -
  obtain x w1 where x: "execute_current_node e n node (call (Event ''flow.node.started'') w) = (x, w1)" by force
  have w1: "fw_state w1 = fw_state w" "fw_history w1 = fw_history w" "slot_ok w \<Longrightarrow> slot_ok w1"
    using execute_current_node_keeps(1-3) [OF x] by (simp_all add: slot_ok_def slot_change_def)
  note def = assms [unfolded flow_step_def x prod.case]
  consider "\<not> fe_present e n 0" | "fe_present e n 0" "\<not> fe_event e n 0" | "fe_present e n 0" "fe_event e n 0" by blast
  then show thesis
  proof cases
    case 1
    then show ?thesis using def gone by simp
  next
    case 2
    then show ?thesis using def escaped by simp
  next
    case 3
    show ?thesis
    proof (cases x)
      case (Inl r)
      then show ?thesis using def 3 x ended by simp
    next
      case (Inr result)
      show ?thesis
      proof (cases "fe_present e n 1")
        case True
        obtain v w2 where v: "settle_node e f n node (fw_state w1) result w1 = (v, w2)" by force
        then have d: "(case v of Final r \<Rightarrow> (Inl r, w2) | Retry_node \<Rightarrow> (Inr node, w2) | Go_on \<Rightarrow> advance_to_next_node e f n node w2) = (out, w')"
          using def 3 Inr True w1(1) by (cases v) simp_all
        show ?thesis by (rule settled [of result w1 v w2]) (use x Inr v True d in \<open>cases v; simp\<close>)+
      next
        case False
        then show ?thesis using def 3 Inr w1 gone by simp
      qed
    qed
  qed
qed

lemma started_ok: "slot_ok (call (Event x) w) = slot_ok w"
  by (simp add: slot_ok_def slot_change_def)

lemma flow_step_keeps:
  assumes "flow_step e f n node w = (out, w')"
  shows "slot_ok w \<Longrightarrow> slot_ok w'" "ordinals_ok (fw_history w) \<Longrightarrow> ordinals_ok (fw_history w')"
    "no_handoff e \<Longrightarrow> fe_present e n 0 \<Longrightarrow> fe_present e n 1 \<Longrightarrow> out = Inl (Response s r u) \<Longrightarrow> \<not> fw_holds w'"
proof -
  have "(slot_ok w \<longrightarrow> slot_ok w') \<and> (ordinals_ok (fw_history w) \<longrightarrow> ordinals_ok (fw_history w')) \<and>
    (no_handoff e \<longrightarrow> fe_present e n 0 \<longrightarrow> fe_present e n 1 \<longrightarrow> (\<exists>s r u. out = Inl (Response s r u)) \<longrightarrow> \<not> fw_holds w')"
    using assms
  proof (cases rule: flow_step_cases)
    case gone
    then show ?thesis by simp
  next
    case escaped
    then show ?thesis by simp
  next
    case (ended r)
    show ?thesis using execute_current_node_keeps(1,3,4) [OF ended(1)] ended(2) by (auto simp: started_ok)
  next
    case (settled result w1 v w2)
    note x = execute_current_node_keeps(1,3) [OF settled(1)] and s = settle_node_keeps(1,2,4) [OF settled(2)]
    from settled(4) show ?thesis
    proof (elim disjE conjE exE)
      fix r assume "v = Final r" "out = Inl r" "w' = w2"
      then show ?thesis using x s by (auto simp: started_ok)
    next
      assume "v = Retry_node" "out = Inr node" "w' = w2"
      then show ?thesis using x s by (auto simp: started_ok)
    next
      assume a: "advance_to_next_node e f n node w2 = (out, w')"
      show ?thesis using advance_keeps(1-3) [OF a] x s(1,2) by (auto simp: started_ok)
    qed
  qed
  then show "slot_ok w \<Longrightarrow> slot_ok w'" "ordinals_ok (fw_history w) \<Longrightarrow> ordinals_ok (fw_history w')"
    "no_handoff e \<Longrightarrow> fe_present e n 0 \<Longrightarrow> fe_present e n 1 \<Longrightarrow> out = Inl (Response s r u) \<Longrightarrow> \<not> fw_holds w'" by auto
qed

text \<open>A property of the worlds that every turn keeps holds of the world a run leaves.\<close>

lemma run_loop_keeps:
  assumes "run_loop k e f n node w = Some (r, w')" "P w" "\<And>m node w out w'. P w \<Longrightarrow> flow_step e f m node w = (out, w') \<Longrightarrow> P w'"
  shows "P w' \<and> (\<exists>m node w. P w \<and> flow_step e f m node w = (Inl r, w'))"
  using assms(1,2)
proof (induction k arbitrary: n node w)
  case (Suc k)
  obtain out w1 where s: "flow_step e f n node w = (out, w1)" by force
  have "P w1" by (rule assms(3) [OF Suc.prems(2) s])
  then show ?case using Suc s by (cases out) auto
qed simp


section \<open>Flows without a cycle\<close>

fun edge_targets :: "flow_edge \<Rightarrow> string list" where
  "edge_targets (Bare s) = [s]"
| "edge_targets (Gated t c w) = (case t of Some s \<Rightarrow> [s] | None \<Rightarrow> [])"
| "edge_targets (Group g) = fg_targets g"

definition node_targets :: "string \<Rightarrow> flow \<Rightarrow> string list" where
  "node_targets node f = concat (map edge_targets (spec_list (edges_of node f)))"

text \<open>Every edge goes down in \<open>rank\<close>: the flow has no cycle.\<close>

definition ranked :: "(string \<Rightarrow> nat) \<Rightarrow> flow \<Rightarrow> bool" where
  "ranked rank f \<longleftrightarrow> list_all (\<lambda>(node, _). list_all (\<lambda>t. rank t < rank node) (node_targets node f)) (fl_edges f)"

lemma ranked_lower:
  assumes "ranked rank f" "t \<in> set (node_targets node f)" shows "rank t < rank node"
proof -
  obtain spec where "dget (fl_edges f) node = Some spec"
    using assms(2) by (auto simp: node_targets_def edges_of_def dget_or_def spec_list_def split: option.splits)
  then have "(node, spec) \<in> set (fl_edges f)" by (simp add: map_of_SomeD)
  then show ?thesis using assms by (auto simp: ranked_def list_all_iff)
qed

lemma first_match_target: "first_match preds s es = Inr (Some (To t)) \<Longrightarrow> t \<in> set (concat (map edge_targets es))"
  by (induction es) (auto simp: bind_result_def split: sum.splits if_splits flow_edge.splits option.splits)

lemma next_node_target:
  assumes "resolve_next_node preds node s f = Inr (Some (To t))" shows "t \<in> set (node_targets node f)"
proof -
  obtain x es where es: "edges_of node f = Edge_list (x # es)"
    using assms by (auto simp: resolve_next_node_def split: edge_spec.splits list.splits)
  then have targets: "node_targets node f = concat (map edge_targets (x # es))" by (simp add: node_targets_def spec_list_def)
  show ?thesis unfolding targets
  proof (cases x)
    case (Gated a b c)
    then have "first_match preds s (x # es) = Inr (Some (To t))" using assms es by (simp add: resolve_next_node_def)
    then show "t \<in> set (concat (map edge_targets (x # es)))" by (rule first_match_target)
  qed (use assms es in \<open>auto simp: resolve_next_node_def\<close>)
qed

lemma group_targets: "fan_out_group_for node f = Some g \<Longrightarrow> set (fg_targets g) \<subseteq> set (node_targets node f)"
proof -
  have "List.map_filter (\<lambda>e. case e of Group g \<Rightarrow> Some g | _ \<Rightarrow> None) es = g # l \<Longrightarrow> Group g \<in> set es" for es l
    by (induction es) (auto simp: List.map_filter_simps split: option.splits flow_edge.splits)
  then show "fan_out_group_for node f = Some g \<Longrightarrow> set (fg_targets g) \<subseteq> set (node_targets node f)"
    by (force simp: fan_out_group_for_def group_in_def node_targets_def spec_list_def split: edge_spec.splits list.splits)
qed

lemma frontier_target:
  assumes "resolve_frontier preds node s f = Inr bs" "b \<in> set bs" shows "b \<in> set (node_targets node f)"
proof (cases "fan_out_group_for node f")
  case None
  then show ?thesis using assms next_node_target [of preds node s f]
    by (auto simp: resolve_frontier_def bind_result_def split: sum.splits option.splits successor.splits)
next
  case (Some g)
  then show ?thesis using assms group_targets [OF Some] by (auto simp: resolve_frontier_def split: edge_spec.splits if_splits)
qed

lemma advance_descends:
  assumes "advance_to_next_node e f n node w = (Inr next, w')" "ranked rank f" "rw_current_node (fw_row w) = node"
  shows "rank next < rank node"
  using assms(1)
proof (cases rule: advance_cases)
  case (single nxt)
  then show ?thesis using ranked_lower [OF assms(2)] frontier_target by simp
next
  case (joined bs w1 nxt)
  obtain g where g: "fan_out_group_for node f = Some g"
    using joined(2,3) by (auto simp: resolve_frontier_def bind_result_def split: option.splits sum.splits successor.splits)
  obtain b s where b: "b \<in> set (fg_targets g)" "resolve_next_node (fe_preds e) b s f = Inr (Some (To nxt))"
    using superstep_target [OF joined(4)] g assms(3) by blast
  have "rank nxt < rank b" by (rule ranked_lower [OF assms(2) next_node_target [OF b(2)]])
  also have "rank b < rank node" using ranked_lower [OF assms(2)] group_targets [OF g] b(1) by blast
  finally show ?thesis using joined(1) by simp
qed simp_all

definition attempts_ok :: "int dict \<Rightarrow> bool" where
  "attempts_ok a \<longleftrightarrow> (\<forall>k. 0 \<le> dget_or a k 0)"

lemma flow_step_descends:
  assumes "flow_step e f n node w = (Inr next, w')" "ranked rank f" "rw_current_node (fw_row w) = node" "attempts_ok (fw_attempts w)"
  shows "rw_current_node (fw_row w') = next \<and> attempts_ok (fw_attempts w') \<and>
    (rank next < rank node \<or>
     next = node \<and> dget_or (fw_attempts w') node 0 = dget_or (fw_attempts w) node 0 + 1 \<and> dget_or (fw_attempts w') node 0 < retry_attempts_allowed f node)"
  using assms(1)
proof (cases rule: flow_step_cases)
  case (settled result w1 v w2)
  note x = execute_current_node_keeps(5) [OF settled(1) refl] and s = settle_node_keeps(3,5,6) [OF settled(2)]
  have a2: "attempts_ok (fw_attempts w2)" using x s(1) assms(4) by (auto simp: attempts_ok_def dget_or_dset)
  have at: "dget_or (fw_attempts w2) node 0 = dget_or (fw_attempts w) node 0 + 1" using x s(1) by (simp add: dget_or_dset)
  from settled(4) show ?thesis
  proof (elim disjE conjE exE)
    assume "v = Retry_node" "Inr next = Inr node" "w' = w2"
    then show ?thesis using x s a2 at assms(3) by simp
  next
    assume a: "v = Go_on" "advance_to_next_node e f n node w2 = (Inr next, w')"
    have row: "rw_current_node (fw_row w2) = node" using s(2) a(1) x assms(3) by simp
    show ?thesis using advance_descends [OF a(2) assms(2) row] advance_keeps(5,6) [OF a(2)] a2
      by (auto simp: attempts_ok_def intro: order_trans)
  qed simp
qed simp_all

lemma run_loop_terminates:
  assumes "ranked rank f" "\<And>x. retry_attempts_allowed f x \<le> int M"
  shows "rw_current_node (fw_row w) = node \<Longrightarrow> attempts_ok (fw_attempts w) \<Longrightarrow>
    rank node * (M + 1) + nat (int M - dget_or (fw_attempts w) node 0) < k \<Longrightarrow> \<exists>r w'. run_loop k e f n node w = Some (r, w')"
proof (induction k arbitrary: n node w)
  case (Suc k)
  obtain out w1 where s: "flow_step e f n node w = (out, w1)" by force
  show ?case
  proof (cases out)
    case (Inr nxt)
    note d = flow_step_descends [OF s [unfolded Inr] assms(1) Suc.prems(1,2)]
    have "rank nxt * (M + 1) + nat (int M - dget_or (fw_attempts w1) nxt 0) < rank node * (M + 1) + nat (int M - dget_or (fw_attempts w) node 0)"
    proof (cases "rank nxt < rank node")
      case True
      have "nat (int M - dget_or (fw_attempts w1) nxt 0) \<le> M" using d [THEN conjunct2, THEN conjunct1, unfolded attempts_ok_def, THEN spec, of nxt] by linarith
      moreover have "rank nxt * (M + 1) + M + 1 \<le> rank node * (M + 1)"
        using mult_le_mono1 [of "rank nxt + 1" "rank node" "M + 1"] True by (simp add: algebra_simps)
      ultimately show ?thesis by linarith
    next
      case False
      then show ?thesis using d assms(2) [of node] by auto
    qed
    then have "rank nxt * (M + 1) + nat (int M - dget_or (fw_attempts w1) nxt 0) < k" using Suc.prems(3) by linarith
    then show ?thesis using Suc.IH [of w1 nxt "n + 1"] d s Inr by simp
  qed (use s in simp)
qed simp


section \<open>Properties of runs\<close>

text \<open>The most a flow allows of attempts at one node.\<close>

definition retry_bound :: "flow \<Rightarrow> nat" where
  "retry_bound f = nat (foldr max (map snd (fl_max_retries f)) 3)"

lemma retry_bounded: "retry_attempts_allowed f x \<le> int (retry_bound f)"
proof -
  have ge: "3 \<le> foldr max is 3" for "is" :: "int list" by (induction "is") auto
  have le: "i \<in> set is \<Longrightarrow> i \<le> foldr max is 3" for i and "is" :: "int list" by (induction "is") auto
  have "i \<le> foldr max (map snd (fl_max_retries f)) 3" if "dget (fl_max_retries f) x = Some i" for i
    using that by (intro le) (force dest: map_of_SomeD)
  moreover have flow: "py_strip (py_lower ''flow'') = ''flow''" by code_simp
  ultimately show ?thesis using ge [of "map snd (fl_max_retries f)"]
    by (cases "dget (fl_max_retries f) x")
      (auto simp: retry_attempts_allowed_def retry_bound_def resolve_retry_policy_def or_text_def FLOW_NODE_DEFAULT_def new_RetryPolicy_def)
qed

lemma resumed_fields [simp]:
  "fw_row (resumed_world e trace r hs) = r\<lparr>rw_state := with_trace trace (safe_dict (rw_state r))\<rparr>" "fw_history (resumed_world e trace r hs) = hs"
  "\<not> fw_holds (resumed_world e trace r hs)" "fw_attempts (resumed_world e trace r hs) = []" "slot_ok (resumed_world e trace r hs)"
  by (simp_all add: resumed_world_def idle_world_def slot_ok_def slot_change_def Let_def)

lemma claim_keeps_node: "claim_waiting_run answer r = (c, r1) \<Longrightarrow> rw_current_node r1 = rw_current_node r"
  by (auto simp: claim_waiting_run_def split: if_splits claim_answer.splits nat.splits)

lemma resume_runs:
  assumes "resume sha answer trace fuel e f (Some r) hs = Some (resp, Some w')"
  obtains (idle) r' where "w' = idle_world r' hs"
    | (run) r1 where "run_loop fuel e f 0 (rw_current_node r) (resumed_world e trace r1 hs) = Some (resp, w')"
proof -
  obtain c r1 where c: "claim_waiting_run answer r = (c, r1)" by force
  show thesis
  proof (cases "signatures_conflict (rw_signature r) (Some (flow_topology_signature sha f)) \<or> c \<noteq> None")
    case True
    then show ?thesis using assms c idle by (auto simp: resume_def split: if_splits)
  next
    case False
    then show ?thesis using assms c claim_keeps_node [OF c] run by (auto simp: resume_def)
  qed
qed

text \<open>
  C10. A run of a flow without a cycle comes to an end. If every edge goes down in some ranking of the nodes, the loop of a
  resumed run returns within \<open>(rank + 1) * (retries + 1)\<close> turns, whatever the nodes answer, however admission, quota and events turn
  out and whatever the joins decide: retries are bounded per node and every other turn goes down.
\<close>

theorem acyclic_flow_returns:
  assumes "ranked rank f" "(rank (rw_current_node r) + 1) * (retry_bound f + 1) \<le> fuel"
  shows "\<exists>resp w'. resume sha answer trace fuel e f (Some r) hs = Some (resp, Some w')"
proof -
  obtain c r1 where c: "claim_waiting_run answer r = (c, r1)" by force
  have node: "rw_current_node r1 = rw_current_node r" by (rule claim_keeps_node [OF c])
  let ?w = "resumed_world e trace r1 hs"
  have "\<exists>resp w'. run_loop fuel e f 0 (rw_current_node r) ?w = Some (resp, w')"
    by (rule run_loop_terminates [OF assms(1) retry_bounded])
      (use assms(2) node in \<open>simp_all add: attempts_ok_def dget_or_def algebra_simps\<close>)
  then show ?thesis using c node by (auto simp: resume_def split: option.splits)
qed

text \<open>
  C11. The slot of the tenant is taken and given back in pairs. Whatever a resumed run comes to, what it took less what it
  gave back is one slot or none, as the runner's own flag says; and a run that answers (it waits, fails or completes) has given
  back everything it took, provided its row does not vanish and its result does not hand the work on.
\<close>

theorem slots_given_back:
  assumes "resume sha answer trace fuel e f (Some r) hs = Some (resp, Some w')"
  shows "slot_balance (fw_calls w') = (if fw_holds w' then 1 else 0) \<and>
    (no_handoff e \<and> (\<forall>n k. fe_present e n k) \<and> resp = Response s v u \<longrightarrow> slot_balance (fw_calls w') = 0)"
  using assms
proof (cases rule: resume_runs)
  case idle
  then show ?thesis by (auto simp: idle_world_def)
next
  case (run r1)
  obtain m node w where w: "slot_ok w'" "flow_step e f m node w = (Inl resp, w')"
    using run_loop_keeps [where P = slot_ok, OF run resumed_fields(5)] flow_step_keeps(1) by blast
  show ?thesis using w(1) flow_step_keeps(3) [OF w(2)] by (auto simp: slot_ok_def)
qed

text \<open>
  C39. The history of a run is numbered without gaps. If the rows a resumed run finds carry the ordinals one, two and so on,
  so do the rows it leaves, with every retry and every branch of a group among them: the order of the ordinals is the
  order in which the rows were written.
\<close>

theorem history_ordinals_consecutive:
  assumes "resume sha answer trace fuel e f (Some r) hs = Some (resp, Some w')"
    and "map fh_seq hs = map (\<lambda>i. int i + 1) [0..<length hs]"
  shows "map fh_seq (fw_history w') = map (\<lambda>i. int i + 1) [0..<length (fw_history w')]"
  using assms(1)
proof (cases rule: resume_runs)
  case idle
  then show ?thesis using assms(2) by (auto simp: idle_world_def)
next
  case (run r1)
  have "ordinals_ok (fw_history (resumed_world e trace r1 hs))" using assms(2) by (simp add: ordinals_ok_def)
  then have "ordinals_ok (fw_history w')"
    using run_loop_keeps [where P = "\<lambda>w. ordinals_ok (fw_history w)", OF run] flow_step_keeps(2) by blast
  then show ?thesis by (simp add: ordinals_ok_def)
qed

lemma advance_sequential:
  assumes "advance_to_next_node e f n node w = (out, w')" "fan_out_group_for node f = None"
  shows "fw_history w' = fw_history w" "fw_state w' = fw_state w"
proof -
  have keep: "fw_history w1 = fw_history w \<and> fw_state w1 = fw_state w" if "map_prod Inl id (fail_execution e n m w) = (x, w1)" for m x w1
    using that fail_execution_keeps(1) [of e n m w] by (cases "fail_execution e n m w") (auto simp: same_work_def)
  have move: "fw_history w1 = fw_history w \<and> fw_state w1 = fw_state w" if "move_on e n node nxt w = (x, w1)" for nxt x w1
    using that keep by (cases "nxt = []") (auto simp: move_on_def)
  obtain q where q: "resolve_frontier (fe_preds e) node (fw_state w) f = q" by blast
  have short: "q = Inr bs \<Longrightarrow> bs = [] \<or> (\<exists>b. bs = [b])" for bs
    using q assms(2) by (auto simp: resolve_frontier_def bind_result_def split: sum.splits option.splits successor.splits)
  have "fw_history w' = fw_history w \<and> fw_state w' = fw_state w"
  proof (cases q)
    case (Inl x)
    then consider "w' = w" | m where "map_prod Inl id (fail_execution e n m w) = (out, w')"
      using assms(1) q by (cases x) (simp_all add: advance_to_next_node_def)
    then show ?thesis using keep by cases blast+
  next
    case (Inr bs)
    then obtain nxt where "move_on e n node nxt w = (out, w')" using assms(1) q short [OF Inr] by (auto simp: advance_to_next_node_def)
    then show ?thesis by (rule move)
  qed
  then show "fw_history w' = fw_history w" "fw_state w' = fw_state w" by auto
qed



text \<open>The branches of a group answer the same whatever ran before them, and each counts its own attempt.\<close>

lemma execute_node_result: "fst (execute_node e n node s a) = fst (execute_node e n node s b)"
  by (auto simp: execute_node_def)

lemma execute_node_counts:
  "dget_or (snd (execute_node e n node s a)) k 0 =
     dget_or a k 0 + (if k = node \<and> node \<notin> set (fe_blocked e) \<and> node \<in> set (fe_registered e) then 1 else 0)"
  by (auto simp: execute_node_def dget_or_dset)

lemma run_in_order_results:
  "distinct order \<Longrightarrow> t \<in> set order \<Longrightarrow> dget (fst (run_in_order e n s order a)) t = Some (fst (execute_node e n t s []))"
proof (induction order arbitrary: a)
  case (Cons x order)
  have "fst (execute_node e n x s a) = fst (execute_node e n x s [])" by (rule execute_node_result)
  then show ?case using Cons by (auto simp: split_beta Let_def)
qed simp

lemma run_in_order_counts:
  "distinct order \<Longrightarrow> dget_or (snd (run_in_order e n s order a)) k 0 =
     dget_or a k 0 + (if k \<in> set order \<and> k \<notin> set (fe_blocked e) \<and> k \<in> set (fe_registered e) then 1 else 0)"
proof (induction order arbitrary: a)
  case (Cons x order)
  obtain r b where x: "execute_node e n x s a = (r, b)" by force
  show ?case using Cons.IH [of b] Cons.prems execute_node_counts [of e n x s a k] x by (auto split: prod.splits)
qed simp

definition in_turn :: "flow_env \<Rightarrow> flow_env" where
  "in_turn e = e\<lparr>fe_order := (\<lambda>n ts. ts)\<rparr>"

lemma in_turn_execute: "execute_node (in_turn e) = execute_node e"
  by (simp add: in_turn_def execute_node_def fun_eq_iff)

lemma in_turn_order: "run_in_order (in_turn e) n s order a = run_in_order e n s order a"
  by (induction order arbitrary: a) (auto simp: in_turn_execute split: prod.splits)

lemma in_turn_successors: "successors_of (in_turn e) f s ns = successors_of e f s ns"
  by (induction ns) (auto simp: in_turn_def)

lemma in_turn_float: "fe_float (in_turn e) = fe_float e" "fe_order (in_turn e) = (\<lambda>n ts. ts)"
  by (simp_all add: in_turn_def)

lemma in_turn_merge: "merge_superstep (in_turn e) f s os = merge_superstep e f s os"
  unfolding merge_superstep_def in_turn_float ..

lemma in_turn_join: "join_branches (in_turn e) f node g results statuses w = join_branches e f node g results statuses w"
  unfolding join_branches_def in_turn_successors in_turn_merge ..

lemma join_branches_attempts:
  "join_branches e f node g results statuses (w\<lparr>fw_attempts := a\<rparr>) = map_prod id (\<lambda>w'. w'\<lparr>fw_attempts := a\<rparr>) (join_branches e f node g results statuses w)"
  by (auto simp: join_branches_def Let_def split: prod.splits option.splits sum.splits)

lemma branches_in_any_order:
  assumes "distinct targets" "mset (fe_order e n targets) = mset targets"
  shows "fst (run_fan_out_branches e n targets s a) = fst (run_fan_out_branches (in_turn e) n targets s a)"
    "dget_or (snd (run_fan_out_branches e n targets s a)) k 0 = dget_or (snd (run_fan_out_branches (in_turn e) n targets s a)) k 0"
proof -
  have o: "distinct (fe_order e n targets)" "set (fe_order e n targets) = set targets"
    using assms mset_eq_imp_distinct_iff mset_eq_setD by metis+
  show "fst (run_fan_out_branches e n targets s a) = fst (run_fan_out_branches (in_turn e) n targets s a)"
    using run_in_order_results [OF o(1), of _ e n s a] run_in_order_results [OF assms(1), of _ e n s a] o(2)
    by (auto simp: run_fan_out_branches_def in_turn_order split_beta in_turn_float)
  show "dget_or (snd (run_fan_out_branches e n targets s a)) k 0 = dget_or (snd (run_fan_out_branches (in_turn e) n targets s a)) k 0"
    using run_in_order_counts [OF o(1), of e n s a k] run_in_order_counts [OF assms(1), of e n s a k] o(2)
    by (simp add: run_fan_out_branches_def in_turn_order split_beta in_turn_float)
qed



section \<open>A flow with a group\<close>

definition sample_node :: "nat \<Rightarrow> string \<Rightarrow> payload \<Rightarrow> py_exc + pyval" where
  "sample_node n node s = Inr (PDict [(''status'', PStr ''SUCCESS''), (''output_patch'', PDict [(node, PInt 1)])])"

definition sample_env :: flow_env where
  "sample_env = \<lparr>fe_node = sample_node, fe_registered = [''a'', ''b'', ''c'', ''d''], fe_blocked = [], fe_admit = (\<lambda>_. True), fe_quota = (\<lambda>_. None),
     fe_present = (\<lambda>_ _. True), fe_event = (\<lambda>_ _. True), fe_preds = [], fe_float = no_floats, fe_extract = (\<lambda>s. Inr PNone),
     fe_order = (\<lambda>_ ts. rev ts), fe_unit = True, fe_parked = False\<rparr>"

definition diamond :: flow where
  "diamond = \<lparr>fl_start = ''a'', fl_end = [''d''],
     fl_edges = [(''a'', Edge_list [Group \<lparr>fg_targets = [''b'', ''c''], fg_join = ''all'', fg_quorum = None\<rparr>]),
       (''b'', Edge_list [Bare ''d'']), (''c'', Edge_list [Bare ''d''])],
     fl_max_retries = [], fl_policies = []\<rparr>"

definition sample_row :: "string \<Rightarrow> flow_row" where
  "sample_row node = \<lparr>rw_status = ''running'', rw_waiting_for = None, rw_current_node = node, rw_state = [(''trace_id'', PStr ''t'')], rw_error = PNone,
     rw_job_log_id = PNone, rw_signature = None\<rparr>"

definition sample_rank :: "string \<Rightarrow> nat" where
  "sample_rank node = (if node = ''a'' then 2 else if node = ''d'' then 0 else 1)"

lemma diamond_ranked: "ranked sample_rank diamond"
  by code_simp

definition sample_world :: "string \<Rightarrow> flow_world" where
  "sample_world node = idle_world (sample_row node) []"

lemma diamond_loop:
  "map_option (\<lambda>(r, w). (r, fw_calls w, map (\<lambda>h. (fh_node h, fh_seq h)) (fw_history w))) (run_loop 3 sample_env diamond 0 ''a'' (sample_world ''a'')) =
     Some (Response ''SUCCESS'' PNone [],
       [Event ''flow.node.started'', Mark_started, Record_usage, Event ''flow.node.completed'', Event ''flow.node.started'', Record_usage,
        Event ''flow.node.completed'', Unit_status ''completed'', Mark_completed, Event ''execution.completed''],
       [(''a'', 1), (''b'', 2), (''c'', 3), (''d'', 4)])"
  by code_simp

lemma diamond_resumed:
  obtains w where "resume id Commit_failed ''t'' 3 sample_env diamond (Some (sample_row ''a'')) [] = Some (Response ''SUCCESS'' PNone [], Some w)"
    "map (\<lambda>h. (fh_node h, fh_seq h)) (fw_history w) = [(''a'', 1), (''b'', 2), (''c'', 3), (''d'', 4)]" "Mark_started \<in> set (fw_calls w)"
proof -
  obtain r w where w: "run_loop 3 sample_env diamond 0 ''a'' (sample_world ''a'') = Some (r, w)" using diamond_loop by auto
  have "resumed_world sample_env ''t'' (sample_row ''a'') [] = sample_world ''a''" by code_simp
  moreover have "claim_waiting_run Commit_failed (sample_row ''a'') = (None, sample_row ''a'')" by (simp add: claim_waiting_run_def sample_row_def)
  ultimately have "resume id Commit_failed ''t'' 3 sample_env diamond (Some (sample_row ''a'')) [] = Some (r, Some w)"
    using w by (simp add: resume_def signatures_conflict_def) (simp add: sample_row_def)
  then show thesis using that [of w] diamond_loop w by simp
qed

theorem acyclic_flow_returns_witness:
  "\<exists>resp w'. resume id Commit_failed ''t'' 12 sample_env diamond (Some (sample_row ''a'')) [] = Some (resp, Some w')"
proof (rule acyclic_flow_returns [OF diamond_ranked])
  show "(sample_rank (rw_current_node (sample_row ''a'')) + 1) * (retry_bound diamond + 1) \<le> 12" by code_simp
qed


theorem slots_given_back_witness:
  "\<exists>w. resume id Commit_failed ''t'' 3 sample_env diamond (Some (sample_row ''a'')) [] = Some (Response ''SUCCESS'' PNone [], Some w) \<and>
     Mark_started \<in> set (fw_calls w) \<and> slot_balance (fw_calls w) = 0"
proof -
  obtain w where w: "resume id Commit_failed ''t'' 3 sample_env diamond (Some (sample_row ''a'')) [] = Some (Response ''SUCCESS'' PNone [], Some w)"
    "Mark_started \<in> set (fw_calls w)" by (rule diamond_resumed)
  have "no_handoff sample_env" by (auto simp: no_handoff_def sample_env_def extract_async_handoff_def)
  moreover have "\<forall>n k. fe_present sample_env n k" by (simp add: sample_env_def)
  ultimately show ?thesis using slots_given_back [OF w(1), of "''SUCCESS''" PNone "[]"] w by blast
qed

theorem history_ordinals_consecutive_witness:
  "\<exists>w. resume id Commit_failed ''t'' 3 sample_env diamond (Some (sample_row ''a'')) [] = Some (Response ''SUCCESS'' PNone [], Some w) \<and>
     length (fw_history w) = 4 \<and> map fh_seq (fw_history w) = [1, 2, 3, 4]"
proof -
  obtain w where w: "resume id Commit_failed ''t'' 3 sample_env diamond (Some (sample_row ''a'')) [] = Some (Response ''SUCCESS'' PNone [], Some w)"
    "map (\<lambda>h. (fh_node h, fh_seq h)) (fw_history w) = [(''a'', 1), (''b'', 2), (''c'', 3), (''d'', 4)]" by (rule diamond_resumed)
  have len: "length (fw_history w) = 4" using arg_cong [OF w(2), of length] by simp
  have "map fh_seq (fw_history w) = map (\<lambda>i. int i + 1) [0..<length (fw_history w)]"
    by (rule history_ordinals_consecutive [OF w(1)]) simp
  then show ?thesis using w(1) len by (simp add: upt_rec)
qed

definition straight :: flow where
  "straight = \<lparr>fl_start = ''a'', fl_end = [''b''], fl_edges = [(''a'', Edge_list [Bare ''b''])], fl_max_retries = [], fl_policies = []\<rparr>"

lemma straight_step:
  "fst (flow_step sample_env straight 0 ''a'' (sample_world ''a'')) = Inr ''b''"
  "map fh_status (fw_history (snd (flow_step sample_env straight 0 ''a'' (sample_world ''a'')))) = [''SUCCESS'']"
  by code_simp+




section \<open>What the loop does not do\<close>

definition endless :: flow where
  "endless = \<lparr>fl_start = ''a'', fl_end = [], fl_edges = [(''a'', Edge_list [Bare ''a''])], fl_max_retries = [], fl_policies = []\<rparr>"

lemma endless_step: "\<exists>w'. flow_step sample_env endless n ''a'' w = (Inr ''a'', w')"
proof -
  obtain result w1 where x: "execute_current_node sample_env n ''a'' (call (Event ''flow.node.started'') w) = (Inr result, w1)"
    "result = [(''status'', PStr ''SUCCESS''), (''output_patch'', PDict [(''a'', PInt 1)])]"
    by (auto simp: execute_current_node_def check_resources_def sample_env_def execute_node_def sample_node_def)
  obtain w2 where "settle_node sample_env endless n ''a'' (fw_state w) result w1 = (Go_on, w2)"
    by (auto simp: x(2) settle_node_def status_text_def sample_env_def merge_superstep_def MERGED_STATUSES_def merge_state_def
      handle_node_status_def maybe_finalize_completion_def endless_def patch_dict_def dget_or_def Let_def)
  moreover have "\<exists>w'. advance_to_next_node sample_env endless n ''a'' w2 = (Inr ''a'', w')"
    by (simp add: advance_to_next_node_def resolve_frontier_def resolve_next_node_def fan_out_group_for_def group_in_def edges_of_def endless_def dget_or_def
      List.map_filter_simps bind_result_def move_on_def)
  moreover have "fe_present sample_env n k" "fe_event sample_env n k" for k by (simp_all add: sample_env_def)
  ultimately show ?thesis using x(1) by (simp add: flow_step_def)
qed

text \<open>
  A flow with a cycle may run for ever. In the flow whose only node leads back to itself, with every turn admitted and
  every answer a success, the loop does not return for any number of turns: the duration and the retries that \<^verbatim>\<open>POLICY\<close>
  names bound nothing, and no turn is counted.
\<close>

theorem cyclic_flow_never_returns: "run_loop k sample_env endless n ''a'' w = None"
proof (induction k arbitrary: n w)
  case (Suc k)
  obtain w' where "flow_step sample_env endless n ''a'' w = (Inr ''a'', w')" using endless_step by blast
  then show ?case using Suc by simp
qed simp

definition handoff_env :: flow_env where
  "handoff_env = sample_env\<lparr>fe_extract := (\<lambda>s. Inr (PDict [(''status'', PStr ''queued'')]))\<rparr>"

definition one_node :: flow where
  "one_node = \<lparr>fl_start = ''a'', fl_end = [''a''], fl_edges = [], fl_max_retries = [], fl_policies = []\<rparr>"

text \<open>
  A run that hands its work on keeps its slot. When the result of the last node says that the work is queued, the run
  answers with its row queued, having taken a slot of the tenant that nothing gives back, and with its execution unit
  never finished: of all the calls the run makes, none releases the slot or moves the unit.
\<close>

theorem handoff_keeps_slot:
  "map_option (\<lambda>(r, w). (r, rw_status (fw_row w), slot_balance (fw_calls w), filter (\<lambda>c. case c of Event _ \<Rightarrow> False | _ \<Rightarrow> True) (fw_calls w)))
     (run_loop 1 handoff_env one_node 0 ''a'' (sample_world ''a'')) =
   Some (Response ''QUEUED'' (PDict [(''status'', PStr ''queued'')]) [], ''queued'', 1, [Mark_started, Record_usage])"
  by code_simp

text \<open>
  After a superstep the log does not rebuild the state. In the diamond flow the state that is stored when the branches have
  joined holds the patches of the node before the group and of both branches; folding the history gives the patch of the last branch and
  not that of the first, since both rows carry the checkpoint from before the group.
\<close>

theorem superstep_fold_loses_branch:
  "(let w = snd (flow_step sample_env diamond 0 ''a'' (sample_world ''a''))
    in (dget (rw_state (fw_row w)) ''b'', dget (rw_state (fw_row w)) ''c'', dget (fold_flow_history_state (fw_history w)) ''b'',
        dget (fold_flow_history_state (fw_history w)) ''c'')) = (Some (PInt 1), Some (PInt 1), None, Some (PInt 1))"
  by code_simp

end
