(* ===== verification/Event_Bus.thy ===== *)
theory Event_Bus
  imports Circuit_Breaker Scheduler_Waits Syscall_Versioning Flow_Runner
begin

text \<open>
  The event bus between instances (\<^verbatim>\<open>kernel/event_bus.py\<close>) on the circuit breaker and the scheduler, the check of a payload that resumes
  a typed wait (\<^verbatim>\<open>core/pending_request.py\<close>) and the delivery of an event to waiting runs (\<^verbatim>\<open>runtime/flow_engine/event_router.py\<close>).
  A message is what its JSON text reads as, with nothing for a text that does not read. Correlation and run ids are texts.
\<close>


section \<open>Publishing\<close>

definition MAX_BUFFER_SIZE :: nat where "MAX_BUFFER_SIZE = 1000"
definition PUBLISH_FAILURE_THRESHOLD :: int where "PUBLISH_FAILURE_THRESHOLD = 3"

type_synonym wake = "string \<times> string option \<times> string option"

record event_bus =
  eb_instance :: string
  eb_enabled :: bool
  eb_breaker :: breaker
  eb_client :: bool
  eb_buffer :: "wake list"
  eb_channel :: "payload list"

definition instance_id :: "env \<Rightarrow> string \<Rightarrow> string" where
  "instance_id env host =
     (if or_text (env ''INSTANCE_ID'') [] \<noteq> [] then or_text (env ''INSTANCE_ID'') []
      else if or_text (env ''HOSTNAME'') [] \<noteq> [] then or_text (env ''HOSTNAME'') []
      else if host \<noteq> [] then host else ''unknown-instance'')"

definition bus_enabled :: "env \<Rightarrow> bool" where
  "bus_enabled env =
     (py_lower (case env ''AINDY_EVENT_BUS_ENABLED'' of None \<Rightarrow> ''true'' | Some t \<Rightarrow> t) \<notin> set [''0'', ''false'', ''no'', ''off''])"

definition new_event_bus :: "env \<Rightarrow> string \<Rightarrow> int \<Rightarrow> event_bus" where
  "new_event_bus env host recovery =
     \<lparr>eb_instance = instance_id env host, eb_enabled = bus_enabled env,
      eb_breaker = new_breaker PUBLISH_FAILURE_THRESHOLD recovery, eb_client = False, eb_buffer = [], eb_channel = []\<rparr>"

definition wake_text :: "string option \<Rightarrow> pyval" where
  "wake_text v = (case v of None \<Rightarrow> PNone | Some t \<Rightarrow> PStr t)"

definition bus_message :: "string \<Rightarrow> wake \<Rightarrow> payload" where
  "bus_message source ev =
     (case ev of (event_type, corr, run_id) \<Rightarrow>
        [(''event_type'', PStr event_type), (''correlation_id'', wake_text corr), (''run_id'', wake_text run_id), (''source_instance_id'', PStr source)])"

text \<open>\<open>ok\<close> tells whether Redis takes the message, at \<open>t2\<close>, in a call that began at \<open>t1\<close>.\<close>

definition publish :: "time \<Rightarrow> time \<Rightarrow> bool \<Rightarrow> wake \<Rightarrow> event_bus \<Rightarrow> bool \<times> event_bus" where
  "publish t1 t2 ok ev b =
     (if \<not> eb_enabled b then (False, b)
      else (case call_breaker (if ok then ended.Returned () else ended.Raised ()) t1 t2 (eb_breaker b) of
              (Call_value _, br) \<Rightarrow>
                (True, b\<lparr>eb_breaker := br, eb_client := True, eb_channel := eb_channel b @ [bus_message (eb_instance b) ev]\<rparr>)
            | (Call_rejected _, br) \<Rightarrow> (False, b\<lparr>eb_breaker := br\<rparr>)
            | (Call_error _, br) \<Rightarrow> (False, b\<lparr>eb_breaker := br, eb_client := False\<rparr>)))"

definition publishing_suspended :: "event_bus \<Rightarrow> bool" where
  "publishing_suspended b = (cb_state (eb_breaker b) = OPEN)"

definition propagation_mode :: "bool \<Rightarrow> bool \<Rightarrow> event_bus \<Rightarrow> string" where
  "propagation_mode redis_answers subscriber b =
     (if \<not> eb_enabled b then ''disabled''
      else if publishing_suspended b then ''local-only''
      else if redis_answers \<and> subscriber then ''cross-instance'' else ''local-only'')"


section \<open>Receiving\<close>

definition some_text :: "pyval \<Rightarrow> string option" where
  "some_text v = (case v of PStr t \<Rightarrow> if t = [] then None else Some t | _ \<Rightarrow> None)"

text \<open>
  What \<^verbatim>\<open>_handle_message\<close> makes of a message before it looks at the scheduler: an event to deliver, nothing, or an
  exception, for a text that reads as something other than a dictionary.
\<close>

definition read_message :: "event_bus \<Rightarrow> pyval option \<Rightarrow> py_exc + wake option" where
  "read_message b data =
     (case data of
        None \<Rightarrow> Inr None
      | Some (PDict p) \<Rightarrow>
          if pget p ''source_instance_id'' = PStr (eb_instance b) then Inr None
          else (case some_text (pget p ''event_type'') of
                  None \<Rightarrow> Inr None
                | Some t \<Rightarrow> Inr (Some (t, some_text (pget p ''correlation_id''), some_text (pget p ''run_id''))))
      | Some v \<Rightarrow> Inl (AttributeError (type_name v)))"

definition buffer_event :: "wake \<Rightarrow> event_bus \<Rightarrow> event_bus" where
  "buffer_event ev b = (if length (eb_buffer b) < MAX_BUFFER_SIZE then b\<lparr>eb_buffer := eb_buffer b @ [ev]\<rparr> else b)"

definition notify_wake :: "sched_env \<Rightarrow> wake \<Rightarrow> scheduler \<Rightarrow> (py_exc + int) \<times> scheduler" where
  "notify_wake e ev s = (case ev of (event_type, corr, run_id) \<Rightarrow> notify_event e event_type corr run_id False s)"

definition handle_message :: "sched_env \<Rightarrow> pyval option \<Rightarrow> event_bus \<Rightarrow> scheduler \<Rightarrow> py_exc option \<times> event_bus \<times> scheduler" where
  "handle_message e data b s =
     (case read_message b data of
        Inl x \<Rightarrow> (Some x, b, s)
      | Inr None \<Rightarrow> (None, b, s)
      | Inr (Some ev) \<Rightarrow> if \<not> se_rehydrated s then (None, buffer_event ev b, s) else (None, b, snd (notify_wake e ev s)))"

fun dispatch_all :: "sched_env \<Rightarrow> wake list \<Rightarrow> scheduler \<Rightarrow> nat \<times> scheduler" where
  "dispatch_all e [] s = (0, s)"
| "dispatch_all e (ev # rest) s =
     (case notify_wake e ev s of
        (Inl _, s1) \<Rightarrow> dispatch_all e rest s1
      | (Inr _, s1) \<Rightarrow> map_prod Suc id (dispatch_all e rest s1))"

definition drain_buffered_events :: "sched_env \<Rightarrow> event_bus \<Rightarrow> scheduler \<Rightarrow> nat \<times> event_bus \<times> scheduler" where
  "drain_buffered_events e b s = (case dispatch_all e (eb_buffer b) s of (n, s1) \<Rightarrow> (n, b\<lparr>eb_buffer := []\<rparr>, s1))"

text \<open>The messages of one subscription, up to one that raises, which ends it.\<close>

fun receive :: "sched_env \<Rightarrow> pyval option list \<Rightarrow> event_bus \<Rightarrow> scheduler \<Rightarrow> pyval option list \<times> event_bus \<times> scheduler" where
  "receive e [] b s = ([], b, s)"
| "receive e (data # rest) b s =
     (case handle_message e data b s of
        (Some _, b1, s1) \<Rightarrow> (rest, b1, s1)
      | (None, b1, s1) \<Rightarrow> receive e rest b1 s1)"


section \<open>Typed waits and the delivery of a payload\<close>

definition pending_request_of :: "payload \<Rightarrow> payload option" where
  "pending_request_of state = (case pget state PENDING_REQUEST_KEY of PDict d \<Rightarrow> Some d | _ \<Rightarrow> None)"

text \<open>Rejected with the errors of the validator, or the label of the outcome.\<close>

datatype resume_check = Rejected "string list" | Outcome string

definition check_resume_payload :: "payload \<Rightarrow> payload \<Rightarrow> py_exc + resume_check" where
  "check_resume_payload state payload =
     (case pget (case pending_request_of state of None \<Rightarrow> [] | Some d \<Rightarrow> d) ''schema'' of
        PDict schema \<Rightarrow>
          if schema = [] then Inr (Outcome ''untyped'')
          else bind_result (validate_payload schema payload) (\<lambda>errors. Inr (if errors = [] then Outcome ''accepted'' else Rejected errors))
      | _ \<Rightarrow> Inr (Outcome ''untyped''))"

fun admit_runs :: "bool \<Rightarrow> payload \<Rightarrow> (string \<times> flow_row) list \<Rightarrow> py_exc + (string \<times> flow_row) list" where
  "admit_runs per_run payload [] = Inr []"
| "admit_runs per_run payload ((run_id, r) # rest) =
     bind_result (check_resume_payload (rw_state r) payload) (\<lambda>c.
       case c of
         Rejected errors \<Rightarrow> if per_run then Inl (Other_exc ''ResumePayloadRejected'' run_id) else admit_runs per_run payload rest
       | Outcome _ \<Rightarrow> bind_result (admit_runs per_run payload rest) (\<lambda>rs. Inr ((run_id, r) # rs)))"

definition inject :: "payload \<Rightarrow> flow_row \<Rightarrow> flow_row" where
  "inject payload r = r\<lparr>rw_state := safe_dict (dset ''event'' (PDict payload) (rw_state r))\<rparr>"

text \<open>
  What \<^verbatim>\<open>route_event\<close> sees: the traces of the runs, whether the row of a run can be flushed and whether the transaction commits; a
  flush that fails leaves the session unusable for the rows after it and for the commit. The result names the runs and, for a single run, whether anything was woken.
\<close>

record route_env =
  re_trace :: "string \<Rightarrow> string option"
  re_flush :: "string \<Rightarrow> bool"
  re_commit :: bool

definition waiting_rows :: "flow_row dict \<Rightarrow> (string \<times> flow_row) list" where
  "waiting_rows rows = filter (\<lambda>(_, r). rw_status r = ''waiting'') rows"

definition route_targets :: "route_env \<Rightarrow> string \<Rightarrow> string option \<Rightarrow> string option \<Rightarrow> flow_row dict \<Rightarrow> scheduler \<Rightarrow> (string \<times> flow_row) list \<times> string option" where
  "route_targets v event_type corr run_id rows s =
     (case run_id of
        Some q \<Rightarrow>
          (case filter (\<lambda>(i, _). i = q) (waiting_rows rows) of
             [] \<Rightarrow> ([], corr)
           | t # _ \<Rightarrow> ([t], if corr = None then Some (or_text (re_trace v q) q) else corr))
      | None \<Rightarrow> (filter (\<lambda>(i, _). i \<in> set (peek_matching_run_ids event_type corr s)) (waiting_rows rows), corr))"

definition route_event ::
  "route_env \<Rightarrow> sched_env \<Rightarrow> string \<Rightarrow> payload \<Rightarrow> string option \<Rightarrow> flow_row dict \<Rightarrow> scheduler \<Rightarrow> (py_exc + (string \<times> bool option) list) \<times> flow_row dict \<times> scheduler" where
  "route_event v e event_type payload run_id rows s =
     (case route_targets v event_type (some_text (pget payload ''correlation_id'')) run_id rows s of
        (targets, corr) \<Rightarrow>
          (case admit_runs (run_id \<noteq> None) payload targets of
             Inl x \<Rightarrow> (Inl x, rows, s)
           | Inr admitted \<Rightarrow>
               let stored = takeWhile (\<lambda>(i, _). re_flush v i) admitted;
                   rows1 = (if re_commit v \<and> stored = admitted then fold (\<lambda>(i, r). dset i (inject payload r)) stored rows else rows);
                   (woken, s1) = notify_event e event_type corr run_id True s
               in (Inr (map (\<lambda>(i, _). (i, if run_id = None then None else Some (case woken of Inl _ \<Rightarrow> False | Inr n \<Rightarrow> n \<noteq> 0))) stored),
                   rows1, s1)))"


section \<open>The scheduler stays open\<close>

lemma enqueue_resume_open: "enqueue_resume e r cb u t p ty s = Inr s' \<Longrightarrow> se_rehydrated s' = se_rehydrated s"
  unfolding enqueue_resume_def
  by (cases "new_ScheduledItem (sv_env e) u (if t = [] then ''system'' else t) (if p = [] then PRIORITY_NORMAL else p) cb (Some r) ty")
    (auto simp: enqueue_frame bind_result_def simp del: if_split split: if_splits)

lemma resume_all_open: "se_rehydrated (snd (resume_all e ws s)) = se_rehydrated s"
proof (induction ws arbitrary: s)
  case (Cons w ws)
  obtain r en where w: "w = (r, en)" by force
  show ?case
  proof (cases "resume_entry e r en s")
    case (Inr s1)
    then have "se_rehydrated s1 = se_rehydrated s" unfolding resume_entry_def by (rule enqueue_resume_open)
    then show ?thesis using Cons w Inr by (simp add: delete_backup_frame)
  qed (simp add: w)
qed simp

lemma cross_one_open: "se_rehydrated (claim_state (cross_resume_one e ev corr skip target r spec s)) = se_rehydrated s"
proof -
  have c: "se_rehydrated (claim_state (resume_claimed e r cb u t row spec s1)) = se_rehydrated s1" for cb u t row s1
    unfolding resume_claimed_def by (cases "enqueue_resume e r cb u t (wf_priority row) (or_text (rs_eu_type spec) ''flow'') s1")
      (simp_all add: enqueue_resume_open)
  show ?thesis using unregister_claim(4) [of e r s]
    by (auto simp: cross_resume_one_def c split: option.splits sum.splits prod.splits bool.splits)
qed

lemma cross_loop_open:
  assumes "\<And>r spec s. se_rehydrated (claim_state (one r spec s)) = se_rehydrated s"
  shows "se_rehydrated (snd (cross_loop one specs n s)) = se_rehydrated s"
proof (induction specs arbitrary: n s)
  case (Cons x specs)
  obtain r spec where x: "x = (r, spec)" by force
  show ?case using Cons assms [of r spec s] x by (cases "one r spec s") auto
qed simp

lemma notify_open: "se_rehydrated (snd (notify_event e ev corr run b s)) = se_rehydrated s"
proof (cases "se_rehydrated s")
  case True
  define ws where "ws = scan_waits ev corr run s"
  define s1 where "s1 = fold (claim_wait e) (map fst ws) s"
  obtain x s2 where r: "resume_all e ws s1 = (x, s2)" by force
  have s2: "se_rehydrated s2" using resume_all_open [of e ws s1] r True by (simp add: s1_def claim_waits)
  obtain n s3 where c: "cross_instance_resume e ev corr (map fst ws) run s2 = (n, s3)" by force
  have "se_rehydrated s3" using cross_loop_open [of "cross_resume_one e ev corr (map fst ws) run"] cross_one_open s2 c
    by (metis cross_instance_resume_def snd_conv)
  then show ?thesis using True s2 r c by (cases x) (auto simp: notify_event_def Let_def ws_def [symmetric] s1_def [symmetric])
qed (simp add: notify_event_def)

lemma notify_wake_open: "se_rehydrated (snd (notify_wake e ev s)) = se_rehydrated s"
  by (simp add: notify_wake_def notify_open split: prod.splits)


section \<open>Properties\<close>

lemma read_message_same: "eb_instance b = eb_instance b' \<Longrightarrow> read_message b data = read_message b' data"
  unfolding read_message_def by (erule ssubst) (rule refl)

definition wakes :: "event_bus \<Rightarrow> pyval option list \<Rightarrow> wake list" where
  "wakes b ms = List.map_filter (\<lambda>m. case read_message b m of Inr (Some ev) \<Rightarrow> Some ev | _ \<Rightarrow> None) ms"

lemma wakes_same: "eb_instance b = eb_instance b' \<Longrightarrow> wakes b ms = wakes b' ms"
  by (simp add: wakes_def read_message_same [of b b'])

definition readable :: "pyval option \<Rightarrow> bool" where
  "readable m = (case m of None \<Rightarrow> True | Some v \<Rightarrow> py_isinstance v T_dict)"

lemma readable_reads: "readable m \<Longrightarrow> \<exists>r. read_message b m = Inr r"
  by (auto simp: readable_def read_message_def split: option.splits pyval.splits)

lemma wakes_Cons: "wakes b (m # ms) = (case read_message b m of Inr (Some ev) \<Rightarrow> ev # wakes b ms | _ \<Rightarrow> wakes b ms)"
  by (simp add: wakes_def List.map_filter_simps split: sum.splits option.splits)

lemma receive_starting:
  "\<not> se_rehydrated s \<Longrightarrow> list_all readable ms \<Longrightarrow> length (eb_buffer b) + length ms \<le> MAX_BUFFER_SIZE \<Longrightarrow>
   receive e ms b s = ([], b\<lparr>eb_buffer := eb_buffer b @ wakes b ms\<rparr>, s)"
proof (induction ms arbitrary: b)
  case (Cons m ms)
  obtain r where r: "read_message b m = Inr r" using readable_reads [of m b] Cons.prems(2) by auto
  show ?case
  proof (cases r)
    case None
    then show ?thesis using Cons r by (simp add: handle_message_def wakes_Cons)
  next
    case (Some ev)
    let ?b = "b\<lparr>eb_buffer := eb_buffer b @ [ev]\<rparr>"
    have "handle_message e m b s = (None, ?b, s)" using Cons.prems(1,3) r Some by (simp add: handle_message_def buffer_event_def)
    moreover have "receive e ms ?b s = ([], ?b\<lparr>eb_buffer := eb_buffer ?b @ wakes ?b ms\<rparr>, s)"
      by (rule Cons.IH) (use Cons.prems in simp_all)
    ultimately show ?thesis using r Some wakes_same [of ?b b ms] by (simp add: wakes_Cons)
  qed
qed (simp add: wakes_def List.map_filter_simps)

lemma receive_open:
  "se_rehydrated s \<Longrightarrow> list_all readable ms \<Longrightarrow> receive e ms b s = ([], b, snd (dispatch_all e (wakes b ms) s))"
proof (induction ms arbitrary: s)
  case (Cons m ms)
  obtain r where r: "read_message b m = Inr r" using readable_reads [of m b] Cons.prems(2) by auto
  show ?case
  proof (cases r)
    case None
    then show ?thesis using Cons r by (simp add: handle_message_def wakes_Cons)
  next
    case (Some ev)
    obtain x s1 where x: "notify_wake e ev s = (x, s1)" by force
    have "se_rehydrated s1" using notify_wake_open [of e ev s] Cons.prems(1) x by simp
    then show ?thesis using Cons r Some x by (cases x) (simp_all add: handle_message_def wakes_Cons)
  qed
qed (simp add: wakes_def List.map_filter_simps)



definition sample_message :: pyval where
  "sample_message = PDict (bus_message ''other'' (''go'', None, None))"

definition sample_bus :: event_bus where
  "sample_bus = new_event_bus (\<lambda>_. None) ''here'' 60"

definition starting :: scheduler where
  "starting = new_scheduler\<lparr>se_waiting := [(''r1'', sample_wait ''go'' ''high'')]\<rparr>"


text \<open>
  The hand-over at the end of a start can lose a message. The subscriber asks whether the scheduler is open and appends
  to its buffer in two steps; if the start opens the scheduler and drains the buffer between them, the message stays in the
  buffer, nothing drains it again, and the run that waits for its event is not woken.
\<close>

theorem handover_loses_message:
  "(let ev = (''go'', None, None);
        opened = mark_rehydration_complete sample_sched_env starting;
        (n, b, s) = drain_buffered_events sample_sched_env sample_bus opened;
        b1 = buffer_event ev b
    in (read_message sample_bus (Some sample_message) = Inr (Some ev), se_rehydrated starting, se_rehydrated s, eb_buffer b1, dkeys (se_waiting s))) =
   (True, False, True, [(''go'', None, None)], [''r1''])"
  by code_simp

text \<open>The breaker between two calls of \<open>publish\<close>: closed, or open since the end of an earlier attempt.\<close>

definition publisher_ok :: "time \<Rightarrow> event_bus \<Rightarrow> bool" where
  "publisher_ok now b \<longleftrightarrow>
     (cb_state (eb_breaker b) = CLOSED \<or> cb_state (eb_breaker b) = OPEN \<and> (\<exists>t \<le> now. cb_opened_at (eb_breaker b) = Some t))"

fun attempts_in_order :: "time \<Rightarrow> (time \<times> time \<times> bool \<times> wake) list \<Rightarrow> bool" where
  "attempts_in_order now [] = True"
| "attempts_in_order now ((t1, t2, _) # rest) = (now \<le> t1 \<and> t1 \<le> t2 \<and> attempts_in_order t2 rest)"

definition publish_all :: "(time \<times> time \<times> bool \<times> wake) list \<Rightarrow> event_bus \<Rightarrow> event_bus" where
  "publish_all xs b = fold (\<lambda>(t1, t2, ok, ev) b. snd (publish t1 t2 ok ev b)) xs b"

lemma publish_keeps_ok:
  assumes "publisher_ok now b" "now \<le> t1" "t1 \<le> t2"
  shows "publisher_ok t2 (snd (publish t1 t2 ok ev b))"
  using assms
  by (auto simp: publisher_ok_def publish_def call_breaker_def enter_call_def record_success_def record_failure_def transition_to_def Let_def
    split: circuit_state.splits option.splits if_splits)

lemma publish_fixed:
  "eb_enabled (snd (publish t1 t2 ok ev b)) = eb_enabled b"
  "recovery_timeout_secs (eb_breaker (snd (publish t1 t2 ok ev b))) = recovery_timeout_secs (eb_breaker b)"
  by (auto simp: publish_def call_breaker_def enter_call_def record_success_def record_failure_def transition_to_def Let_def
    split: circuit_state.splits option.splits if_splits)


lemma publish_all_keeps:
  "publisher_ok now b \<Longrightarrow> attempts_in_order now xs \<Longrightarrow> (\<forall>(t1, t2, _) \<in> set xs. t2 \<le> tn) \<Longrightarrow> now \<le> tn \<Longrightarrow>
   publisher_ok tn (publish_all xs b) \<and> eb_enabled (publish_all xs b) = eb_enabled b \<and>
   recovery_timeout_secs (eb_breaker (publish_all xs b)) = recovery_timeout_secs (eb_breaker b)"
proof (induction xs arbitrary: now b)
  case Nil
  then show ?case by (auto simp: publish_all_def publisher_ok_def)
next
  case (Cons x xs)
  obtain t1 t2 ok ev where x: "x = (t1, t2, ok, ev)" by (cases x) auto
  have "publisher_ok t2 (snd (publish t1 t2 ok ev b))" by (rule publish_keeps_ok [OF Cons.prems(1)]) (use Cons.prems x in auto)
  then have "publisher_ok tn (publish_all xs (snd (publish t1 t2 ok ev b))) \<and> eb_enabled (publish_all xs (snd (publish t1 t2 ok ev b))) = eb_enabled b \<and>
    recovery_timeout_secs (eb_breaker (publish_all xs (snd (publish t1 t2 ok ev b)))) = recovery_timeout_secs (eb_breaker b)"
    using Cons.IH [of t2 "snd (publish t1 t2 ok ev b)"] Cons.prems x by (auto simp: publish_fixed)
  then show ?case by (simp add: publish_all_def x)
qed

text \<open>
  C40. A bus that has backed off publishes again. Whatever attempts were made and failed, an enabled bus delivers the first
  event it is given once the recovery time has passed since the last of them and Redis answers: the message is on the channel,
  and publishing is not suspended any more. The suspension is never permanent.
\<close>

theorem publishing_recovers:
  assumes "bus_enabled env" "attempts_in_order t0 xs" "\<forall>(t1, t2, _) \<in> set xs. t2 \<le> tn" "t0 \<le> tn"
    and "tn + recovery * secs \<le> t1" "publish t1 t2 True ev (publish_all xs (new_event_bus env host recovery)) = (sent, b)"
  shows "sent \<and> eb_channel b = eb_channel (publish_all xs (new_event_bus env host recovery)) @ [bus_message (eb_instance b) ev] \<and>
    \<not> publishing_suspended b"
proof -
  let ?b = "publish_all xs (new_event_bus env host recovery)"
  have "publisher_ok t0 (new_event_bus env host recovery)" by (simp add: publisher_ok_def new_event_bus_def new_breaker_def)
  from publish_all_keeps [OF this assms(2-4)]
  have b: "publisher_ok tn ?b" "eb_enabled ?b" "recovery_timeout_secs (eb_breaker ?b) = recovery"
    using assms(1) by (simp_all add: new_event_bus_def new_breaker_def)
  then consider "cb_state (eb_breaker ?b) = CLOSED" | t where "cb_state (eb_breaker ?b) = OPEN" "cb_opened_at (eb_breaker ?b) = Some t" "t \<le> tn"
    by (auto simp: publisher_ok_def)
  then show ?thesis using assms(5,6) b(2,3)
    by cases (auto simp: publish_def call_breaker_def enter_call_def record_success_def transition_to_def publishing_suspended_def Let_def)
qed

definition failed_attempts :: "(time \<times> time \<times> bool \<times> wake) list" where
  "failed_attempts = map (\<lambda>i. (int i * secs, int i * secs, False, ''go'', None, None)) [0..<5]"

theorem publishing_recovers_witness:
  "publishing_suspended (publish_all failed_attempts sample_bus) \<and>
   fst (publish (70 * secs) (70 * secs) True (''go'', None, None) (publish_all failed_attempts sample_bus))"
proof -
  obtain sent b where p: "publish (70 * secs) (70 * secs) True (''go'', None, None) (publish_all failed_attempts (new_event_bus (\<lambda>_. None) ''here'' 60)) = (sent, b)"
    by force
  have "sent" by (rule publishing_recovers [where ?t0.0 = 0 and tn = "4 * secs", OF _ _ _ _ _ p, THEN conjunct1]) code_simp+
  moreover have "publishing_suspended (publish_all failed_attempts sample_bus)" by code_simp
  ultimately show ?thesis using p by (simp add: sample_bus_def)
qed

lemma target_of_run:
  assumes "route_targets v ev corr (Some q) rows s = (ts, corr')"
  shows "ts = [] \<or> (\<exists>r. ts = [(q, r)] \<and> (q, r) \<in> set rows \<and> rw_status r = ''waiting'')"
proof (cases "filter (\<lambda>(i, _). i = q) (waiting_rows rows)")
  case (Cons t l)
  then have "t \<in> set (filter (\<lambda>(i, _). i = q) (waiting_rows rows))" by simp
  then show ?thesis using assms Cons by (auto simp: route_targets_def waiting_rows_def)
qed (use assms in \<open>simp add: route_targets_def\<close>)



definition typed_row :: flow_row where
  "typed_row = (sample_row ''a'')\<lparr>rw_status := ''waiting'', rw_waiting_for := Some ''go'',
     rw_state := [(PENDING_REQUEST_KEY, PDict [(''node'', PStr ''a''), (''event'', PStr ''go''), (''schema'', PDict [(''required'', PList [PStr ''reviewer''])])])]\<rparr>"

definition sample_route :: route_env where
  "sample_route = \<lparr>re_trace = (\<lambda>_. None), re_flush = (\<lambda>_. True), re_commit = True\<rparr>"


lemma safe_pget: "pget (safe_dict d) k = json_safe (pget d k)"
  by (simp add: pget_def dget_or_def dget_safe split: option.splits)

lemma wait_records_schema:
  assumes "handle_wait e n node result w = (Response ''WAITING'' x u, w')" "pget result RESUME_SCHEMA_KEY = PDict schema" "schema \<noteq> []"
  shows "rw_status (fw_row w') = ''waiting'' \<and> pending_request_of (rw_state (fw_row w')) =
    Some [(''node'', PStr node), (''event'', PStr (py_str (pget result ''wait_for''))), (''schema'', PDict (safe_dict schema))]"
proof -
  define wf where "wf = py_str (pget result ''wait_for'')"
  have nofail: "fail_execution e n m w \<noteq> (Response ''WAITING'' x u, w')" for m by (auto simp: fail_execution_def Let_def)
  obtain pending where p: "build_pending_request node wf (PDict schema) = Inr pending" and t: "truthy (pget result ''wait_for'')"
    using assms(1,2) nofail unfolding handle_wait_def wf_def Let_def by (auto split: if_splits sum.splits)
  then have pending: "pending = Some (PDict [(''node'', PStr node), (''event'', PStr wf), (''schema'', PDict schema)])"
    using assms(3) by (cases schema) (auto simp: build_pending_request_def split: list.splits)
  define s where "s = dset PENDING_REQUEST_KEY (PDict [(''node'', PStr node), (''event'', PStr wf), (''schema'', PDict schema)]) (fw_state w)"
  define w1 where "w1 = w\<lparr>fw_state := s, fw_row := (fw_row w)\<lparr>rw_status := ''waiting'', rw_waiting_for := Some wf, rw_current_node := node, rw_state := safe_dict s\<rparr>\<rparr>"
  have "w' = call (Event ''flow.waiting'') (call (Register_wait wf) (release_slot_on_wait e wf w1))"
    using assms(1,2) p t pending unfolding handle_wait_def wf_def [symmetric] Let_def s_def w1_def by (auto split: if_splits)
  then have "fw_row w' = fw_row w1" using park_on_wait(1) by simp
  moreover have "pget s PENDING_REQUEST_KEY = PDict [(''node'', PStr node), (''event'', PStr wf), (''schema'', PDict schema)]"
    by (simp add: s_def pget_def dget_or_def)
  then have "pending_request_of (safe_dict s) = Some [(''node'', PStr node), (''event'', PStr wf), (''schema'', PDict (safe_dict schema))]"
    unfolding pending_request_of_def safe_pget by (simp add: safe_dict_def)
  ultimately show ?thesis by (simp add: w1_def wf_def)
qed

lemma only_waiting_row:
  "distinct (dkeys rows) \<Longrightarrow> dget rows q = Some r \<Longrightarrow> rw_status r = ''waiting'' \<Longrightarrow> filter (\<lambda>(i, _). i = q) (waiting_rows rows) = [(q, r)]"
proof (induction rows)
  case (Cons x rows)
  obtain i r' where x: "x = (i, r')" by force
  show ?case
  proof (cases "i = q")
    case True
    then have "filter (\<lambda>(i, _). i = q) (waiting_rows rows) = []"
      using Cons.prems(1) x by (auto simp: waiting_rows_def filter_empty_conv intro: rev_image_eqI)
    then show ?thesis using Cons.prems x True by (simp add: waiting_rows_def)
  next
    case False
    then show ?thesis using Cons x by (simp add: waiting_rows_def)
  qed
qed simp

text \<open>
  C12. A typed wait takes only the payload it asked for. When a node waits and declares a schema, the run that is parked holds it; and a
  payload that the validator of system calls finds errors in is refused before anything is done: the delivery raises, every
  row and the scheduler are as they were, so the run still waits.
\<close>

theorem typed_wait_refuses_payload:
  assumes "handle_wait e n node result w = (Response ''WAITING'' x u, w')" "pget result RESUME_SCHEMA_KEY = PDict schema" "schema \<noteq> []"
    and "validate_payload (safe_dict schema) payload = Inr errors" "errors \<noteq> []"
    and "dget rows q = Some (fw_row w')" "distinct (dkeys rows)"
  shows "route_event v se event_type payload (Some q) rows s = (Inl (Other_exc ''ResumePayloadRejected'' q), rows, s)"
proof -
  note p = wait_records_schema [OF assms(1-3)]
  have c: "check_resume_payload (rw_state (fw_row w')) payload = Inr (Rejected errors)"
    using p assms(3-5) by (simp add: check_resume_payload_def pget_def dget_or_def bind_result_def safe_dict_def)
  have "filter (\<lambda>(i, _). i = q) (waiting_rows rows) = [(q, fw_row w')]"
    using only_waiting_row [OF assms(7,6)] p by blast
  then show ?thesis using c by (simp add: route_event_def route_targets_def bind_result_def)
qed


definition typed_result :: payload where
  "typed_result = [(''status'', PStr ''WAIT''), (''wait_for'', PStr ''go''), (RESUME_SCHEMA_KEY, PDict [(''required'', PList [PStr ''reviewer''])])]"

theorem typed_wait_refuses_payload_witness:
  "route_event sample_route sample_sched_env ''go'' [] (Some ''r1'') [(''r1'', fw_row (snd (handle_wait sample_env 0 ''a'' typed_result (sample_world ''a''))))] starting =
     (Inl (Other_exc ''ResumePayloadRejected'' ''r1''), [(''r1'', fw_row (snd (handle_wait sample_env 0 ''a'' typed_result (sample_world ''a''))))], starting)"
proof -
  have h: "handle_wait sample_env 0 ''a'' typed_result (sample_world ''a'') = (Response ''WAITING'' (PStr ''go'') [], snd (handle_wait sample_env 0 ''a'' typed_result (sample_world ''a'')))"
    by code_simp
  have s: "pget typed_result RESUME_SCHEMA_KEY = PDict [(''required'', PList [PStr ''reviewer''])]" by code_simp
  obtain errors where v: "validate_payload (safe_dict [(''required'', PList [PStr ''reviewer''])]) [] = Inr errors" "errors \<noteq> []"
  proof -
    have "(case validate_payload (safe_dict [(''required'', PList [PStr ''reviewer''])]) [] of Inl _ \<Rightarrow> False | Inr es \<Rightarrow> es \<noteq> [])" by code_simp
    then show ?thesis using that by (cases "validate_payload (safe_dict [(''required'', PList [PStr ''reviewer''])]) []") auto
  qed
  show ?thesis by (rule typed_wait_refuses_payload [OF h s _ v]) simp_all
qed

end
