(* ===== verification/Spec2Isabelle.thy ===== *)
theory Spec2Isabelle
  imports Circuit_Breaker Condition_Codes Syscall_Versioning Memory_Address_Space Payload_Identity
    Effect_Ledger Resource_Quota Scheduler_Dispatch Execution_Environment Retry_Policy Execution_Unit Execution_Record Worker_Loop Event_Bus
begin

text \<open>
  Verification development of the A.I.N.D.Y. runtime (\<^verbatim>\<open>src/AINDY\<close>): the kernel, the scheduler, the execution of jobs and
  flows, and the queues and buses between instances.

  \<^bold>\<open>The program.\<close> Work enters as a system call, a job or a flow. System calls have versioned names and schemas, act for a
  tenant, and leave a record of their effect so that a repeated call replays its result. Every execution has an
  execution unit, a row with a status machine; the resource manager admits it against the limits of its tenant. A flow is
  a graph of nodes that the runner walks; a node may wait for an event, and the scheduler keeps the wait, wakes it, and
  dispatches the resumed work by priority and tenant. Jobs go to a thread or, through the queue, to a worker. Instances share
  Redis and the database: waits are restored after a restart, events travel over the bus, and claims in the database decide who resumes.

  \<^bold>\<open>The model.\<close> Python values are the datatype \<open>pyval\<close>, dictionaries are association lists in insertion order, times are
  microseconds, exceptions are the left side of a sum. State is a record that every operation returns updated; rows of the database
  and keys of Redis are part of it. Answers of code outside (Redis, the database, handlers, node functions, random
  values, clocks) are arguments, in most theories collected in one record of surroundings. Concurrent callers are sequences of
  their atomic steps. Definitions carry the names of the code.

  \<^bold>\<open>Theories.\<close>
  \<^item> \<^verbatim>\<open>Prelude\<close>, \<^verbatim>\<open>Py_Values\<close>: dictionaries, results, reachability, strings, payload values, UUIDs.
  \<^item> \<^verbatim>\<open>Circuit_Breaker\<close> (\<^verbatim>\<open>kernel/circuit_breaker.py\<close>): the breaker; its fields stay consistent over every interleaving of callers.
  \<^item> \<^verbatim>\<open>Condition_Codes\<close>, \<^verbatim>\<open>Syscall_Versioning\<close>, \<^verbatim>\<open>Syscall_Outcome\<close>, \<^verbatim>\<open>Payload_Identity\<close> (the files of these names under \<^verbatim>\<open>kernel\<close>): statuses, names and schemas,
    the outcome of a call, and whose payload it is; a bound payload names the caller.
  \<^item> \<^verbatim>\<open>Tenant_Context\<close>, \<^verbatim>\<open>Memory_Address_Space\<close>: which paths a tenant owns. No path is owned by two tenants, written paths stay with their tenant, and paths
    are built and parsed back. Both checks are instances of the locale \<open>tenant_guard\<close>.
  \<^item> \<^verbatim>\<open>Effect_Ledger\<close> (\<^verbatim>\<open>kernel/effect_ledger.py\<close>): the gate in front of an effect; an effect lands at most once and a retry replays it (locale
    \<open>effect_gate\<close>).
  \<^item> \<^verbatim>\<open>Redis_Backend\<close>, \<^verbatim>\<open>Resource_Manager\<close>, \<^verbatim>\<open>Resource_Quota\<close> (\<^verbatim>\<open>kernel/resource_manager.py\<close>): slots and token counters in memory and in Redis, with their limits; the
    counters refine one specification (locales \<open>slot_counter\<close> and \<open>token_counter\<close>, interpreted on both stores).
  \<^item> \<^verbatim>\<open>Wait_Condition\<close>, \<^verbatim>\<open>Scheduler_Core\<close>, \<^verbatim>\<open>Scheduler_Waits\<close>, \<^verbatim>\<open>Flow_Rehydration\<close>, \<^verbatim>\<open>Scheduler_Dispatch\<close> (\<^verbatim>\<open>core/wait_condition.py\<close>, \<^verbatim>\<open>kernel/scheduler\<close>, \<^verbatim>\<open>core/flow_run_rehydration.py\<close> and
    the files beside it): lanes and round robin (locale \<open>work_queue\<close>), waits and events, restarts and several instances, one cycle of
    dispatch. An event wakes exactly the waits it matches, no tenant starves, a run is resumed exactly once, and a cycle loses nothing.
  \<^item> \<^verbatim>\<open>Execution_Unit\<close>, \<^verbatim>\<open>Execution_Record\<close>, \<^verbatim>\<open>Execution_Environment\<close>, \<^verbatim>\<open>Retry_Policy\<close> (the files of these names under \<^verbatim>\<open>core\<close>): units and their histories (locale
    \<open>status_machine\<close>), views, environments that are only ever narrowed, retries.
  \<^item> \<^verbatim>\<open>Distributed_Queue\<close>, \<^verbatim>\<open>Execution_Dispatcher\<close>, \<^verbatim>\<open>Async_Jobs\<close>, \<^verbatim>\<open>Worker_Loop\<close>: the queue in memory and in Redis behind one contract (locale \<open>queue_backend\<close>), where work
    runs, jobs with their sessions, the worker. The handler of a job runs a bounded number of times and only for a pending row, and a
    submitted job is executed.
  \<^item> \<^verbatim>\<open>State_Merge\<close>, \<^verbatim>\<open>Flow_Graph\<close>, \<^verbatim>\<open>Flow_Runner\<close> (\<^verbatim>\<open>runtime/flow_engine\<close>, \<^verbatim>\<open>core/flow_history_fold.py\<close>): the merge of patches, edges, groups and signatures, and
    the loop of a run. The merge of reduced cells does not depend on the order of the branches, equal signatures route alike, a flow without a
    cycle ends, slots are given back, the history is numbered without gaps and rebuilds the state, and the interleaving of the branches of a
    group does not matter.
  \<^item> \<^verbatim>\<open>Event_Bus\<close> (\<^verbatim>\<open>kernel/event_bus.py\<close>, \<^verbatim>\<open>core/pending_request.py\<close>, \<^verbatim>\<open>runtime/flow_engine/event_router.py\<close>): publishing through the breaker, messages that arrive during a start, and the
    delivery of a payload to a waiting run. This theory joins the breaker, the scheduler, the schemas of system calls and the flow runner.

  Beside the properties the theories prove where the code falls short of its own comments; those theorems state what the code does.

  \<^bold>\<open>Bounds and fuel.\<close> \<open>run_loop\<close> of \<^verbatim>\<open>Flow_Runner\<close> takes fuel, one unit for each turn. For a flow whose edges go down in a ranking, \<open>(rank + 1) * (retries + 1)\<close>
    is enough, with the largest number of attempts the flow allows; for a cyclic flow no fuel is enough, and a theorem says so. All
    other loops of the code are structural recursions or folds over what they iterate. Integers are unbounded, as in Python.

  \<^bold>\<open>Not modelled.\<close> The dispatch of a system call as a whole and the built-in handlers, the execution gate, cancellation, the
    verification and compensation of runs, the lease that elects the scheduler process and the agent services are left out for their size;
    they build on modelled parts. Node functions, job handlers and tools are arguments. The Nodus virtual machine, providers, Redis
    and the database are third-party code: only what the modelled code relies on of them is there. Web routes, start-up of processes, sandboxes,
    signatures, embeddings, scores in floating point, metrics and log lines are left out as input and output. Threads appear as
    interleavings of atomic steps only where the code shares state between them; locks that make an operation atomic are not written out.
\<close>

end
